(* ===== verification/Prelude.thy ===== *)
theory Prelude
  imports Complex_Main "HOL-Library.AList" "HOL-Library.Char_ord" "HOL-Library.List_Lexorder"
begin

text \<open>
  What every theory of the development shares: Go's byte strings and the functions of
  package \<open>strings\<close>, \<open>strconv\<close> and \<open>unicode/utf8\<close> the gateway calls, the
  wrap-around of its 64-bit and 32-bit integers, truncated division, and the association
  lists that stand for Go maps.

  A Go \<open>string\<close> or \<open>[]byte\<close> is a sequence of bytes, and Isabelle's \<open>char\<close> is a
  byte, so both are \<open>string\<close> (\<open>char list\<close>): \<open>length\<close> is Go's \<open>len\<close>, and the
  order of \<open>List_Lexorder\<close> over \<open>Char_ord\<close> is Go's bytewise string order. A Go map is
  an association list with distinct keys; the order of the list is one iteration order
  of the map, which Go leaves open.
\<close>

named_theorems go_strings
  \<open>rewrite rules for the functions of package strings\<close>

named_theorems go_maps
  \<open>rewrite rules for Go maps as association lists\<close>

type_synonym bytes = string


section \<open>Package strings\<close>

definition byte_of :: "nat \<Rightarrow> char" where
  "byte_of n = char_of n"

definition has_prefix :: "string \<Rightarrow> string \<Rightarrow> bool" where
  "has_prefix s p \<longleftrightarrow> take (length p) s = p"

definition has_suffix :: "string \<Rightarrow> string \<Rightarrow> bool" where
  "has_suffix s p \<longleftrightarrow> length p \<le> length s \<and> drop (length s - length p) s = p"

text \<open>\<open>strings.TrimPrefix\<close>: the string without the prefix, when it has it.\<close>

definition trim_prefix :: "string \<Rightarrow> string \<Rightarrow> string" where
  "trim_prefix s p = (if has_prefix s p then drop (length p) s else s)"

text \<open>\<open>strings.Split\<close> with a one-byte separator: never empty.\<close>

fun split_on :: "char \<Rightarrow> string \<Rightarrow> string list" where
  "split_on c [] = [[]]"
| "split_on c (x # xs) =
     (if x = c then [] # split_on c xs
      else (case split_on c xs of [] \<Rightarrow> [[x]] | y # ys \<Rightarrow> (x # y) # ys))"

text \<open>\<open>strings.Join\<close>.\<close>

fun join :: "string list \<Rightarrow> string \<Rightarrow> string" where
  "join [] sep = []"
| "join [x] sep = x"
| "join (x # y # ys) sep = x @ sep @ join (y # ys) sep"

text \<open>\<open>strings.ContainsAny\<close> for a set of ASCII bytes.\<close>

definition contains_any :: "string \<Rightarrow> string \<Rightarrow> bool" where
  "contains_any s cs \<longleftrightarrow> list_ex (\<lambda>c. c \<in> set cs) s"

text \<open>\<open>strings.TrimRight\<close> for a set of ASCII bytes.\<close>

definition trim_right :: "string \<Rightarrow> string \<Rightarrow> string" where
  "trim_right s cs = rev (dropWhile (\<lambda>c. c \<in> set cs) (rev s))"

text \<open>\<open>strings.LastIndexAny\<close> followed by the slice after the index: what follows the
  last byte of \<open>cs\<close>, or the whole string when there is none.\<close>

definition after_last_any :: "string \<Rightarrow> string \<Rightarrow> string" where
  "after_last_any s cs = rev (takeWhile (\<lambda>c. c \<notin> set cs) (rev s))"

text \<open>\<open>strings.Replace(s, old, new, 1)\<close>: the first occurrence.\<close>

fun replace_first :: "string \<Rightarrow> string \<Rightarrow> string \<Rightarrow> string" where
  "replace_first [] old new = (if old = [] then new else [])"
| "replace_first (x # xs) old new =
     (if has_prefix (x # xs) old then new @ drop (length old) (x # xs)
      else x # replace_first xs old new)"

text \<open>
  \<open>strings.TrimSpace\<close>. Go trims the runes with the Unicode property White_Space. On
  bytes that is: drop any of the following UTF-8 encodings from either end, repeatedly.
  (The decoder reads a rune at the front exactly when its encoding is a prefix, and at
  the back exactly when its encoding is a suffix, since every encoding starts with a
  byte that is no continuation byte.)
\<close>

definition space_encodings :: "string list" where
  "space_encodings =
     map (\<lambda>n. [byte_of n]) [9, 10, 11, 12, 13, 32]
     @ map (map byte_of) ([[0xC2, 0x85], [0xC2, 0xA0], [0xE1, 0x9A, 0x80]]
         @ map (\<lambda>n. [0xE2, 0x80, n]) ([0x80..<0x8B] @ [0xA8, 0xA9, 0xAF])
         @ [[0xE2, 0x81, 0x9F], [0xE3, 0x80, 0x80]])"

text \<open>Drop one of the given prefixes; \<open>None\<close> when no prefix applies.\<close>

fun strip_one :: "string list \<Rightarrow> string \<Rightarrow> string option" where
  "strip_one [] s = None"
| "strip_one (p # ps) s =
     (if p \<noteq> [] \<and> has_prefix s p then Some (drop (length p) s) else strip_one ps s)"

lemma has_prefix_iff: "has_prefix s p \<longleftrightarrow> (\<exists>t. s = p @ t)"
  by (metis append_eq_conv_conj append_take_drop_id has_prefix_def)

lemma strip_one_Some:
  "strip_one ps s = Some t \<Longrightarrow> \<exists>p \<in> set ps. p \<noteq> [] \<and> s = p @ t"
  by (induction ps) (auto simp: has_prefix_iff split: if_splits)

lemma strip_one_shorter: "strip_one ps s = Some t \<Longrightarrow> length t < length s"
  by (auto dest: strip_one_Some)

function strip_all :: "string list \<Rightarrow> string \<Rightarrow> string" where
  "strip_all ps s = (case strip_one ps s of None \<Rightarrow> s | Some t \<Rightarrow> strip_all ps t)"
  by pat_completeness auto
termination
  by (relation "measure (\<lambda>(ps, s). length s)") (auto dest: strip_one_shorter)

declare strip_all.simps [simp del]

definition trim_space :: "string \<Rightarrow> string" where
  "trim_space s =
     rev (strip_all (map rev space_encodings) (rev (strip_all space_encodings s)))"

text \<open>\<open>strings.ToLower\<close> and case folding on ASCII bytes.\<close>

definition lower_byte :: "char \<Rightarrow> char" where
  "lower_byte c = (let b = (of_char c :: nat) in if 65 \<le> b \<and> b \<le> 90 then byte_of (b + 32) else c)"

definition to_lower :: "string \<Rightarrow> string" where
  "to_lower s = map lower_byte s"


section \<open>Runes: the decoder of unicode/utf8\<close>

text \<open>
  Ranging over a Go string decodes UTF-8. A valid sequence is one rune; any other byte
  is the replacement rune U+FFFD of width one. \<open>rune_width s\<close> is the width of the valid
  sequence at the front, following the acceptance table of \<open>utf8.DecodeRuneInString\<close>;
  0 stands for "not valid here".
\<close>

text \<open>What the first byte says: the width of the sequence (0: no sequence starts with this
  byte) and the range its second byte must lie in.\<close>

definition first_byte :: "nat \<Rightarrow> nat \<times> nat \<times> nat" where
  "first_byte b =
     (if b < 0x80 then (1, 0x80, 0xBF)
      else if b < 0xC2 then (0, 0x80, 0xBF)
      else if b < 0xE0 then (2, 0x80, 0xBF)
      else if b = 0xE0 then (3, 0xA0, 0xBF)
      else if b = 0xED then (3, 0x80, 0x9F)
      else if b < 0xF0 then (3, 0x80, 0xBF)
      else if b = 0xF0 then (4, 0x90, 0xBF)
      else if b < 0xF4 then (4, 0x80, 0xBF)
      else if b = 0xF4 then (4, 0x80, 0x8F)
      else (0, 0x80, 0xBF))"

definition cont_byte :: "nat \<Rightarrow> nat \<Rightarrow> char \<Rightarrow> bool" where
  "cont_byte lo hi c \<longleftrightarrow> lo \<le> (of_char c :: nat) \<and> (of_char c :: nat) \<le> hi"

definition rune_width :: "string \<Rightarrow> nat" where
  "rune_width s =
     (case s of [] \<Rightarrow> 0
      | c # t \<Rightarrow>
        (case first_byte (of_char c) of (n, lo, hi) \<Rightarrow>
           if n \<le> 1 then n
           else if n \<le> length s \<and> cont_byte lo hi (hd t)
                  \<and> list_all (cont_byte 0x80 0xBF) (take (n - 2) (tl t))
           then n else 0))"

text \<open>The encoding of U+FFFD, which \<open>strings.Map\<close> writes for an invalid byte.\<close>

definition replacement_rune :: string where
  "replacement_rune = map byte_of [0xEF, 0xBF, 0xBD]"

text \<open>
  The decoder's steps through a string: each valid sequence, or a single byte that is
  not valid where it stands, in order.
\<close>

datatype chunk = Valid_rune string | Invalid_byte char

fun chunk_bytes :: "chunk \<Rightarrow> string" where
  "chunk_bytes (Valid_rune r) = r"
| "chunk_bytes (Invalid_byte c) = [c]"

function chunks :: "string \<Rightarrow> chunk list" where
  "chunks [] = []"
| "chunks (c # s) =
     (if rune_width (c # s) = 0 then Invalid_byte c # chunks s
      else Valid_rune (take (rune_width (c # s)) (c # s))
             # chunks (drop (rune_width (c # s)) (c # s)))"
  by pat_completeness auto
termination
  by (relation "measure length") auto

declare chunks.simps(2) [simp del]

text \<open>The runes a \<open>range\<close> over the string sees, each as its encoding; an invalid byte is
  seen as U+FFFD.\<close>

fun rune_of :: "chunk \<Rightarrow> string" where
  "rune_of (Valid_rune r) = r"
| "rune_of (Invalid_byte c) = replacement_rune"

definition runes :: "string \<Rightarrow> string list" where
  "runes s = map rune_of (chunks s)"

text \<open>\<open>utf8.ValidString\<close>.\<close>

definition valid_utf8 :: "string \<Rightarrow> bool" where
  "valid_utf8 s \<longleftrightarrow> list_all (\<lambda>k. case k of Valid_rune _ \<Rightarrow> True | _ \<Rightarrow> False) (chunks s)"

text \<open>The rune is a control character: below 0x20, or 0x7f (\<open>isControl\<close> in clients.go).
  Such runes are single bytes.\<close>

definition isControl :: "char \<Rightarrow> bool" where
  "isControl c \<longleftrightarrow> of_char c < (0x20::nat) \<or> of_char c = (0x7f::nat)"

definition rune_isControl :: "string \<Rightarrow> bool" where
  "rune_isControl r = (case r of [c] \<Rightarrow> isControl c | _ \<Rightarrow> False)"

text \<open>\<open>strings.Map\<close> with a function that drops the control runes and keeps the others.\<close>

definition drop_control :: "string \<Rightarrow> string" where
  "drop_control s = concat (filter (\<lambda>r. \<not> rune_isControl r) (runes s))"

text \<open>\<open>utf8.RuneStart\<close>: not a continuation byte.\<close>

definition rune_start :: "char \<Rightarrow> bool" where
  "rune_start c \<longleftrightarrow> (of_char c :: nat) div 64 \<noteq> 2"


section \<open>Package strconv\<close>

fun nat_digits :: "nat \<Rightarrow> string" where
  "nat_digits n =
     (if n < 10 then [byte_of (48 + n)] else nat_digits (n div 10) @ [byte_of (48 + n mod 10)])"

declare nat_digits.simps [simp del]

definition itoa :: "int \<Rightarrow> string" where
  "itoa n = (if n < 0 then CHR ''-'' # nat_digits (nat (- n)) else nat_digits (nat n))"

definition is_digit :: "char \<Rightarrow> bool" where
  "is_digit c \<longleftrightarrow> 48 \<le> (of_char c :: nat) \<and> (of_char c :: nat) \<le> 57"

definition digit_val :: "char \<Rightarrow> nat" where
  "digit_val c = of_char c - 48"

definition digits_val :: "string \<Rightarrow> nat" where
  "digits_val s = foldl (\<lambda>n c. 10 * n + digit_val c) 0 s"

definition max_int64 :: int where
  "max_int64 = 2 ^ 63 - 1"

definition min_int64 :: int where
  "min_int64 = - (2 ^ 63)"

text \<open>
  \<open>strconv.Atoi\<close> on a 64-bit platform: the value and whether there was no error. A
  syntax error gives 0; a value out of range gives the nearest bound.
\<close>

definition atoi :: "string \<Rightarrow> int \<times> bool" where
  "atoi s =
     (let neg = has_prefix s ''-'';
          ds = (if neg \<or> has_prefix s ''+'' then tl s else s)
      in if ds = [] \<or> \<not> list_all is_digit ds then (0, False)
         else let v = int (digits_val ds) in
           if \<not> neg then (if max_int64 < v then (max_int64, False) else (v, True))
           else (if - v < min_int64 then (min_int64, False) else (- v, True)))"


section \<open>Machine integers\<close>

text \<open>An \<open>int64\<close> or \<open>int32\<close> is an \<open>int\<close> within its range; a result that may leave
  it is wrapped to two's complement. Go's integer division truncates towards zero.\<close>

definition wrap64 :: "int \<Rightarrow> int" where
  "wrap64 x = (x + 2 ^ 63) mod 2 ^ 64 - 2 ^ 63"

definition wrap32 :: "int \<Rightarrow> int" where
  "wrap32 x = (x + 2 ^ 31) mod 2 ^ 32 - 2 ^ 31"

definition in64 :: "int \<Rightarrow> bool" where
  "in64 x \<longleftrightarrow> min_int64 \<le> x \<and> x \<le> max_int64"

definition in32 :: "int \<Rightarrow> bool" where
  "in32 x \<longleftrightarrow> - (2 ^ 31) \<le> x \<and> x < 2 ^ 31"

definition go_quot :: "int \<Rightarrow> int \<Rightarrow> int" where
  "go_quot a b = sgn a * sgn b * (\<bar>a\<bar> div \<bar>b\<bar>)"


section \<open>Shared lemmas\<close>

subsection \<open>Strings\<close>

lemma has_prefix_append [simp, go_strings]: "has_prefix (p @ s) p"
  by (simp add: has_prefix_def)

lemma has_prefix_Nil [simp]: "has_prefix s []"
  by (simp add: has_prefix_def)

lemma has_suffix_iff: "has_suffix s p \<longleftrightarrow> (\<exists>t. s = t @ p)"
  by (metis append_eq_conv_conj append_take_drop_id diff_add_inverse2 has_suffix_def
      le_add2 length_append)

lemma has_suffix_append [simp, go_strings]: "has_suffix (s @ p) p"
  by (auto simp: has_suffix_iff)

lemma length_to_lower [simp]: "length (to_lower s) = length s"
  by (simp add: to_lower_def)

lemma to_lower_append [simp]: "to_lower (s @ t) = to_lower s @ to_lower t"
  by (simp add: to_lower_def)

lemma split_on_neq_Nil [simp]: "split_on c s \<noteq> []"
  by (induction s) (auto split: list.splits)

lemma join_split_on: "join (split_on c s) [c] = s"
proof (induction s)
  case Nil
  then show ?case by simp
next
  case (Cons x s)
  then show ?case
    by (cases "split_on c s"; cases "tl (split_on c s)") auto
qed

lemma split_on_no_sep: "p \<in> set (split_on c s) \<Longrightarrow> c \<notin> set p"
  by (induction s arbitrary: p) (auto split: list.splits if_splits)

lemma split_on_absent: "c \<notin> set s \<Longrightarrow> split_on c s = [s]"
  by (induction s) auto

lemma append_sep_inj:
  "c \<notin> set a \<Longrightarrow> c \<notin> set b \<Longrightarrow> a @ c # s = b @ c # t \<Longrightarrow> a = b \<and> s = t"
  by (induction a arbitrary: b) (auto simp: Cons_eq_append_conv)

lemma trim_right_last: "trim_right s cs \<noteq> [] \<Longrightarrow> last (trim_right s cs) \<notin> set cs"
  by (metis (no_types, lifting) hd_dropWhile last_rev rev_is_Nil_conv trim_right_def)

lemma dropWhile_eq_self: "xs = [] \<or> \<not> P (hd xs) \<Longrightarrow> dropWhile P xs = xs"
  by (cases xs) auto

lemma trim_right_idem [simp]: "trim_right (trim_right s cs) cs = trim_right s cs"
  unfolding trim_right_def by (simp add: dropWhile_idem)

lemma trim_right_subset: "set (trim_right s cs) \<subseteq> set s"
  unfolding trim_right_def using set_dropWhileD by fastforce

lemma trim_right_prefix: "\<exists>t. s = trim_right s cs @ t"
proof -
  have "rev s = takeWhile (\<lambda>c. c \<in> set cs) (rev s) @ dropWhile (\<lambda>c. c \<in> set cs) (rev s)"
    by simp
  then have "s = trim_right s cs @ rev (takeWhile (\<lambda>c. c \<in> set cs) (rev s))"
    by (metis rev_append rev_rev_ident trim_right_def)
  then show ?thesis ..
qed


subsection \<open>Runes\<close>

lemma rune_width_le: "rune_width s \<le> length s"
  by (auto simp: rune_width_def split: list.splits prod.splits)

lemma first_byte_range:
  "first_byte b = (n, lo, hi) \<Longrightarrow> n \<le> 4 \<and> 0x80 \<le> lo \<and> (1 < n \<longrightarrow> 0xC2 \<le> b)"
  by (auto simp: first_byte_def split: if_splits)

lemma chunk_bytes_chunks: "concat (map chunk_bytes (chunks s)) = s"
proof (induction s rule: chunks.induct)
  case 1
  then show ?case by simp
next
  case (2 c s)
  show ?case
  proof (cases "rune_width (c # s) = 0")
    case True
    with "2" show ?thesis by (simp add: chunks.simps(2))
  next
    case False
    with "2" show ?thesis by (simp add: chunks.simps(2))
  qed
qed

text \<open>In a sequence of two bytes or more every byte is 0x80 or above, so a control
  character is always a rune of its own.\<close>

lemma rune_width_high:
  assumes "1 < rune_width s"
  shows "list_all (\<lambda>c. 0x80 \<le> (of_char c :: nat)) (take (rune_width s) s)"
proof -
  obtain c t where s0: "s = c # t" using assms by (cases s) (auto simp: rune_width_def)
  obtain n lo hi where fb: "first_byte (of_char c) = (n, lo, hi)" by (metis prod_cases3)
  from assms s0 fb have n: "rune_width s = n" "1 < n" and len: "n \<le> length s"
    and d0: "cont_byte lo hi (hd t)" and u0: "list_all (cont_byte 0x80 0xBF) (take (n - 2) (tl t))"
    by (auto simp: rune_width_def split: if_splits)
  from len n s0 obtain d u where "t = d # u" by (cases t) auto
  with s0 d0 u0 have s: "s = c # d # u" and d: "cont_byte lo hi d"
    and u: "list_all (cont_byte 0x80 0xBF) (take (n - 2) u)" by auto
  have "take n s = c # d # take (n - 2) u"
    using s n by (simp add: take_Cons' numeral_2_eq_2)
  moreover have "0x80 \<le> (of_char c :: nat)" "0x80 \<le> (of_char d :: nat)"
    using first_byte_range [OF fb] n d by (auto simp: cont_byte_def)
  ultimately show ?thesis
    using u n by (auto simp: list_all_iff cont_byte_def)
qed

definition clean_rune :: "string \<Rightarrow> bool" where
  "clean_rune r \<longleftrightarrow> rune_isControl r \<or> list_all (\<lambda>c. \<not> isControl c) r"

lemma isControl_low: "isControl c \<Longrightarrow> (of_char c :: nat) < 0x80"
  by (auto simp: isControl_def)

lemma rune_of_clean: "k \<in> set (chunks s) \<Longrightarrow> clean_rune (rune_of k)"
proof (induction s rule: chunks.induct)
  case 1
  then show ?case by simp
next
  case (2 c s)
  let ?w = "rune_width (c # s)"
  have repl: "clean_rune replacement_rune"
    by (simp add: clean_rune_def replacement_rune_def isControl_def byte_of_def)
  have "clean_rune (take ?w (c # s))" if "0 < ?w"
  proof (cases "?w = 1")
    case True
    then show ?thesis by (simp add: clean_rune_def rune_isControl_def)
  next
    case False
    with that have w: "1 < ?w" by simp
    have "list_all (\<lambda>c. \<not> isControl c) (take ?w (c # s))"
      using rune_width_high [OF w] isControl_low by (fastforce simp: list_all_iff)
    then show ?thesis by (simp add: clean_rune_def)
  qed
  with "2" repl show ?case
    by (auto simp: chunks.simps(2) split: if_splits)
qed

lemma drop_control_clean: "list_all (\<lambda>c. \<not> isControl c) (drop_control s)"
proof -
  have "list_all (\<lambda>c. \<not> isControl c) r" if "r \<in> set (runes s)" "\<not> rune_isControl r" for r
    using that rune_of_clean [of _ s] by (auto simp: runes_def clean_rune_def)
  then show ?thesis
    by (auto simp: drop_control_def list_all_iff)
qed

lemma set_chunk_bytes: "k \<in> set (chunks s) \<Longrightarrow> set (chunk_bytes k) \<subseteq> set s"
  using arg_cong [OF chunk_bytes_chunks [of s], of set] by auto

lemma set_drop_control: "set (drop_control s) \<subseteq> set s \<union> set replacement_rune"
proof -
  have "set (rune_of k) \<subseteq> set s \<union> set replacement_rune" if "k \<in> set (chunks s)" for k
    using set_chunk_bytes [OF that] by (cases k) auto
  then show ?thesis
    by (auto simp: drop_control_def runes_def)
qed


subsection \<open>TrimSpace is a normal form\<close>

lemma strip_one_None_iff:
  "strip_one ps s = None \<longleftrightarrow> (\<forall>p \<in> set ps. p \<noteq> [] \<longrightarrow> \<not> has_prefix s p)"
  by (induction ps) auto

lemma strip_all_None: "strip_one ps s = None \<Longrightarrow> strip_all ps s = s"
  by (simp add: strip_all.simps)

lemma strip_all_stripped: "strip_one ps (strip_all ps s) = None"
proof (induction ps s rule: strip_all.induct)
  case (1 ps s)
  then show ?case
    by (cases "strip_one ps s") (auto simp: strip_all.simps [of ps s])
qed

lemma strip_all_suffix: "\<exists>t. s = t @ strip_all ps s"
proof (induction ps s rule: strip_all.induct)
  case (1 ps s)
  show ?case
  proof (cases "strip_one ps s")
    case None
    then show ?thesis by (simp add: strip_all_None)
  next
    case (Some t)
    with "1" obtain u where "t = u @ strip_all ps t" by blast
    moreover obtain p where "s = p @ t" using strip_one_Some [OF Some] by blast
    moreover have "strip_all ps s = strip_all ps t"
      by (subst strip_all.simps) (simp add: Some)
    ultimately have "s = (p @ u) @ strip_all ps s" by simp
    then show ?thesis ..
  qed
qed

lemma strip_one_prefix_None:
  "strip_one ps (s @ t) = None \<Longrightarrow> strip_one ps s = None"
  by (auto simp: strip_one_None_iff has_prefix_iff)

lemma trim_space_prefix: "\<exists>t. strip_all space_encodings s = trim_space s @ t"
proof -
  let ?u = "strip_all space_encodings s"
  obtain t where "rev ?u = t @ strip_all (map rev space_encodings) (rev ?u)"
    using strip_all_suffix by blast
  then have "?u = rev (strip_all (map rev space_encodings) (rev ?u)) @ rev t"
    by (metis rev_append rev_rev_ident)
  then show ?thesis unfolding trim_space_def by blast
qed

lemma trim_space_substring: "\<exists>t u. s = t @ trim_space s @ u"
  using strip_all_suffix [of s space_encodings] trim_space_prefix [of s] by (metis append.assoc)

lemma set_trim_space: "set (trim_space s) \<subseteq> set s"
proof -
  obtain t u where "s = t @ trim_space s @ u" using trim_space_substring by blast
  then show ?thesis by (metis Un_iff set_append subsetI)
qed

lemma length_trim_space: "length (trim_space s) \<le> length s"
proof -
  obtain t u where "s = t @ trim_space s @ u" using trim_space_substring by blast
  then have "length s = length t + length (trim_space s) + length u"
    by (metis add.assoc length_append)
  then show ?thesis by simp
qed

lemma trim_space_front: "strip_one space_encodings (trim_space s) = None"
  using trim_space_prefix [of s] strip_all_stripped [of space_encodings s]
    strip_one_prefix_None by metis

lemma trim_space_back: "strip_one (map rev space_encodings) (rev (trim_space s)) = None"
  by (simp add: trim_space_def strip_all_stripped)

lemma trim_space_idem [simp, go_strings]: "trim_space (trim_space s) = trim_space s"
  unfolding trim_space_def [of "trim_space s"]
  by (simp add: strip_all_None trim_space_front trim_space_back)

lemma trim_space_Nil [simp]: "trim_space [] = []"
  using length_trim_space [of "[]"] by simp


subsection \<open>Atoi and Itoa\<close>

lemma of_char_byte_of [simp]: "n < 256 \<Longrightarrow> of_char (byte_of n) = n"
  by (simp add: byte_of_def)

lemma byte_of_inj: "m < 256 \<Longrightarrow> n < 256 \<Longrightarrow> byte_of m = byte_of n \<longleftrightarrow> m = n"
  by (metis of_char_byte_of)

lemma nat_digits_neq_Nil [simp]: "nat_digits n \<noteq> []"
  by (subst nat_digits.simps) simp

lemma nat_digits_digits: "list_all is_digit (nat_digits n)"
proof (induction n rule: nat_digits.induct)
  case (1 n)
  have "is_digit (byte_of (48 + n mod 10))" "n < 10 \<Longrightarrow> is_digit (byte_of (48 + n))"
    by (auto simp: is_digit_def)
  with "1" show ?case
    by (subst nat_digits.simps) auto
qed

lemma digits_val_append: "digits_val (s @ [c]) = 10 * digits_val s + digit_val c"
  by (simp add: digits_val_def)

lemma digits_val_nat_digits [simp]: "digits_val (nat_digits n) = n"
proof (induction n rule: nat_digits.induct)
  case (1 n)
  show ?case
  proof (cases "n < 10")
    case True
    then show ?thesis by (subst nat_digits.simps) (simp add: digits_val_def digit_val_def)
  next
    case False
    with "1" show ?thesis
      by (subst nat_digits.simps) (simp add: digits_val_append digit_val_def)
  qed
qed

lemma nat_digits_hd: "is_digit (hd (nat_digits n))"
  using nat_digits_digits [of n] by (cases "nat_digits n") auto

lemma digit_no_sign: "is_digit c \<Longrightarrow> c \<noteq> CHR ''-'' \<and> c \<noteq> CHR ''+''"
  by (auto simp: is_digit_def)

lemma nat_digits_no_sign:
  "\<not> has_prefix (nat_digits n) ''-''" "\<not> has_prefix (nat_digits n) ''+''"
  using digit_no_sign [OF nat_digits_hd [of n]]
  by (cases "nat_digits n"; simp add: has_prefix_def)+

lemma atoi_itoa: "in64 n \<Longrightarrow> atoi (itoa n) = (n, True)"
  using nat_digits_digits nat_digits_no_sign
  by (auto simp: atoi_def itoa_def in64_def Let_def has_prefix_def)

lemma itoa_inj: "in64 m \<Longrightarrow> in64 n \<Longrightarrow> itoa m = itoa n \<Longrightarrow> m = n"
  by (metis atoi_itoa prod.inject)


subsection \<open>Machine integers\<close>

lemma wrap64_id [simp]: "in64 x \<Longrightarrow> wrap64 x = x"
  by (simp add: wrap64_def in64_def min_int64_def max_int64_def)

lemma in64_wrap64 [simp]: "in64 (wrap64 x)"
  using pos_mod_bound [of "2 ^ 64" "x + 2 ^ 63"] pos_mod_sign [of "2 ^ 64" "x + 2 ^ 63"]
  by (simp add: wrap64_def in64_def min_int64_def max_int64_def)

lemma wrap32_id [simp]: "in32 x \<Longrightarrow> wrap32 x = x"
  by (simp add: wrap32_def in32_def)

lemma in32_wrap32 [simp]: "in32 (wrap32 x)"
  using pos_mod_bound [of "2 ^ 32" "x + 2 ^ 31"] pos_mod_sign [of "2 ^ 32" "x + 2 ^ 31"]
  by (simp add: wrap32_def in32_def)

lemma go_quot_nonneg: "0 \<le> a \<Longrightarrow> 0 < b \<Longrightarrow> go_quot a b = a div b"
  by (cases "a = 0") (auto simp: go_quot_def)


subsection \<open>Go maps\<close>

lemma map_of_update [go_maps]: "map_of (AList.update k v m) = (map_of m)(k \<mapsto> v)"
  by (simp add: update_conv')

lemma map_of_delete [go_maps]: "map_of (AList.delete k m) = (map_of m)(k := None)"
  by (simp add: delete_conv')

lemma distinct_keys_update [simp, go_maps]:
  "distinct (map fst m) \<Longrightarrow> distinct (map fst (AList.update k v m))"
  by (rule distinct_update)

lemma distinct_keys_delete [simp, go_maps]:
  "distinct (map fst m) \<Longrightarrow> distinct (map fst (AList.delete k m))"
  by (rule distinct_delete)

lemma find_SomeD: "find P xs = Some y \<Longrightarrow> y \<in> set xs \<and> P y"
  by (auto simp: find_Some_iff)

lemma map_of_filter_keys:
  "map_of (filter (\<lambda>(k, v). P k) m) = (map_of m) |` {k. P k}"
  by (induction m) (auto simp: fun_eq_iff restrict_map_def)


text \<open>A string that begins and ends with a printable ASCII byte is trimmed already; as a code
  equation this spares evaluation the search for white space.\<close>

definition graphic :: "char \<Rightarrow> bool" where
  "graphic c \<longleftrightarrow> (let b = (of_char c :: nat) in 32 < b \<and> b < 128)"

lemma graphic_byte_of: "graphic (byte_of n) \<longleftrightarrow> 32 < n mod 256 \<and> n mod 256 < 128"
  by (simp add: graphic_def byte_of_def Let_def)

lemma space_encodings_edges:
  "\<forall>p \<in> set space_encodings. p \<noteq> [] \<and> \<not> graphic (hd p) \<and> \<not> graphic (last p)"
  by (simp add: space_encodings_def graphic_byte_of)

lemma strip_all_graphic:
  assumes "\<forall>p \<in> set ps. p \<noteq> [] \<and> \<not> graphic (hd p)" "s = [] \<or> graphic (hd s)"
  shows "strip_all ps s = s"
proof (rule strip_all_None)
  show "strip_one ps s = None"
    using assms by (auto simp: strip_one_None_iff has_prefix_iff)
qed

lemma trim_space_graphic [code]:
  "trim_space s =
     (if s = [] \<or> graphic (hd s) \<and> graphic (last s) then s
      else rev (strip_all (map rev space_encodings) (rev (strip_all space_encodings s))))"
proof (cases "s = [] \<or> graphic (hd s) \<and> graphic (last s)")
  case True
  have "strip_all space_encodings s = s"
    using True space_encodings_edges by (intro strip_all_graphic) auto
  moreover have "strip_all (map rev space_encodings) (rev s) = rev s"
    using True space_encodings_edges by (intro strip_all_graphic) (auto simp: hd_rev)
  ultimately show ?thesis using True by (simp add: trim_space_def)
qed (auto simp: trim_space_def)

end
