(* ===== verification/Errors.thy ===== *)
theory Errors
  imports Prelude
begin

text \<open>
  Errors as values, and how they are shown (internal/adapters/responses.go, and the
  sentinel errors of adapters.go and registry.go). \<open>go_error\<close> has one constructor per
  kind of error the code distinguishes with \<open>errors.Is\<close> or \<open>errors.As\<close>; every other
  error is its text. \<open>PublicError\<close> is the only way an error of a client reaches a
  response.
\<close>

datatype go_error =
    ErrText string                      \<comment> \<open>errors.New, fmt.Errorf without a wrapped error\<close>
  | StatusError string int string       \<comment> \<open>Op, Code, Detail\<close>
  | UrlError string string go_error     \<comment> \<open>*url.Error of net/http: Op, URL, Err\<close>
  | Wrapped string go_error             \<comment> \<open>fmt.Errorf with the wrapped error at the end\<close>
  | ErrUnknownClient
  | ErrClientDraining
  | ErrPayloadUnsupported


section \<open>Quoting\<close>

text \<open>The code point of an encoded rune.\<close>

definition codepoint :: "string \<Rightarrow> nat" where
  "codepoint r =
     (case map of_char r of
        [a] \<Rightarrow> a
      | [a, b] \<Rightarrow> (a - 0xC0) * 64 + (b - 0x80)
      | [a, b, c] \<Rightarrow> (a - 0xE0) * 4096 + (b - 0x80) * 64 + (c - 0x80)
      | [a, b, c, d] \<Rightarrow> (a - 0xF0) * 262144 + (b - 0x80) * 4096 + (c - 0x80) * 64 + (d - 0x80)
      | _ \<Rightarrow> 0xFFFD)"

definition hex_digit :: "nat \<Rightarrow> char" where
  "hex_digit n = (if n < 10 then byte_of (48 + n) else byte_of (87 + n))"

text \<open>The low \<open>k\<close> hexadecimal digits of a number.\<close>

fun hex_pad :: "nat \<Rightarrow> nat \<Rightarrow> string" where
  "hex_pad 0 n = []"
| "hex_pad (Suc k) n = hex_pad k (n div 16) @ [hex_digit (n mod 16)]"

text \<open>
  \<open>strconv.Quote\<close>, which the verb \<open>%q\<close> uses. \<open>up\<close> is \<open>unicode.IsPrint\<close> on code
  points above ASCII, a table of the Unicode standard the model leaves open.
\<close>

definition quote_rune :: "(nat \<Rightarrow> bool) \<Rightarrow> string \<Rightarrow> string" where
  "quote_rune up r =
     (let n = codepoint r in
      if n = 34 \<or> n = 92 then CHR 0x5C # r
      else if n < 0x7f \<and> 0x20 \<le> n \<or> 0x7f < n \<and> up n then r
      else if n = 7 then [CHR 0x5C, CHR ''a'']
      else if n = 8 then [CHR 0x5C, CHR ''b'']
      else if n = 12 then [CHR 0x5C, CHR ''f'']
      else if n = 10 then [CHR 0x5C, CHR ''n'']
      else if n = 13 then [CHR 0x5C, CHR ''r'']
      else if n = 9 then [CHR 0x5C, CHR ''t'']
      else if n = 11 then [CHR 0x5C, CHR ''v'']
      else if n < 0x20 \<or> n = 0x7f then CHR 0x5C # CHR ''x'' # hex_pad 2 n
      else if n < 0x10000 then CHR 0x5C # CHR ''u'' # hex_pad 4 n
      else CHR 0x5C # CHR ''U'' # hex_pad 8 n)"

fun quote_chunk :: "(nat \<Rightarrow> bool) \<Rightarrow> chunk \<Rightarrow> string" where
  "quote_chunk up (Valid_rune r) = quote_rune up r"
| "quote_chunk up (Invalid_byte c) = CHR 0x5C # CHR ''x'' # hex_pad 2 (of_char c)"

definition go_quote :: "(nat \<Rightarrow> bool) \<Rightarrow> string \<Rightarrow> string" where
  "go_quote up s = CHR 0x22 # concat (map (quote_chunk up) (chunks s)) @ [CHR 0x22]"


section \<open>Error texts and PublicError\<close>

text \<open>\<open>err.Error()\<close>; the \<open>StatusError\<close> line is \<open>(*StatusError).Error\<close> of
  responses.go, the \<open>UrlError\<close> line the one of package net/url.\<close>

fun Error :: "(nat \<Rightarrow> bool) \<Rightarrow> go_error \<Rightarrow> string" where
  "Error up (ErrText s) = s"
| "Error up (StatusError op code detail) =
     (if detail = '''' then op @ '': '' @ itoa code
      else op @ '': '' @ itoa code @ '' '' @ go_quote up detail)"
| "Error up (UrlError op url e) = op @ '' '' @ go_quote up url @ '': '' @ Error up e"
| "Error up (Wrapped prefix e) = prefix @ Error up e"
| "Error up ErrUnknownClient = ''no such client''"
| "Error up ErrClientDraining = ''client was removed and accepts no new downloads''"
| "Error up ErrPayloadUnsupported = ''this client type does not accept a payload''"

text \<open>\<open>errors.As(err, &se)\<close>: the first \<open>StatusError\<close> of the chain, as Op and Code.\<close>

fun as_StatusError :: "go_error \<Rightarrow> (string \<times> int) option" where
  "as_StatusError (StatusError op code detail) = Some (op, code)"
| "as_StatusError (UrlError op url e) = as_StatusError e"
| "as_StatusError (Wrapped prefix e) = as_StatusError e"
| "as_StatusError e = None"

text \<open>\<open>errors.As(err, &ue)\<close>: the first \<open>*url.Error\<close> of the chain.\<close>

fun as_UrlError :: "go_error \<Rightarrow> (string \<times> string \<times> go_error) option" where
  "as_UrlError (UrlError op url e) = Some (op, url, e)"
| "as_UrlError (Wrapped prefix e) = as_UrlError e"
| "as_UrlError e = None"

definition maxErrorDetail :: nat where
  "maxErrorDetail = 256"

text \<open>The loop of \<open>truncate\<close>: back to a byte that starts a rune.\<close>

fun rune_start_before :: "string \<Rightarrow> nat \<Rightarrow> nat" where
  "rune_start_before s 0 = 0"
| "rune_start_before s (Suc n) =
     (if rune_start (s ! Suc n) then Suc n else rune_start_before s n)"

definition truncate_utf8 :: "string \<Rightarrow> nat \<Rightarrow> string" where
  "truncate_utf8 s n = (if length s \<le> n then s else take (rune_start_before s n) s)"

definition PublicError :: "(nat \<Rightarrow> bool) \<Rightarrow> go_error option \<Rightarrow> string" where
  "PublicError up err =
     (case err of None \<Rightarrow> ''''
      | Some e \<Rightarrow>
        (let msg = Error up e;
             msg' = (case as_StatusError e of
                       Some (op, code) \<Rightarrow> op @ '': HTTP '' @ itoa code
                     | None \<Rightarrow>
                       (case as_UrlError e of
                          Some (op, url, inner) \<Rightarrow>
                            replace_first msg (Error up (UrlError op url inner))
                              (op @ '': '' @ Error up inner)
                        | None \<Rightarrow> msg))
         in truncate_utf8 (drop_control msg') maxErrorDetail))"

text \<open>\<open>newStatusError\<close>: at most \<open>maxErrorDetail\<close> bytes of the body, trimmed.\<close>

definition newStatusError :: "string \<Rightarrow> int \<Rightarrow> string \<Rightarrow> go_error" where
  "newStatusError op code body = StatusError op code (trim_space (take maxErrorDetail body))"


section \<open>Lemmas\<close>

lemma rune_start_before_le: "rune_start_before s n \<le> n"
  by (induction n) auto

lemma rune_start_before_start:
  "rune_start_before s n = 0 \<or> rune_start (s ! rune_start_before s n)"
  by (induction n) auto

lemma length_truncate: "length (truncate_utf8 s n) \<le> n"
  using rune_start_before_le [of s n] by (auto simp: truncate_utf8_def)

lemma set_truncate: "set (truncate_utf8 s n) \<subseteq> set s"
  by (auto simp: truncate_utf8_def dest: in_set_takeD)

lemma rune_width_take:
  assumes "0 < rune_width s"
  shows "rune_width (take (rune_width s) s @ x) = rune_width s"
proof -
  obtain c t where s: "s = c # t" using assms by (cases s) (auto simp: rune_width_def)
  obtain n lo hi where fb: "first_byte (of_char c) = (n, lo, hi)" by (metis prod_cases3)
  show ?thesis
  proof (cases "n \<le> 1")
    case True
    with assms s fb have "n = 1" "rune_width s = 1" by (auto simp: rune_width_def)
    with s fb show ?thesis by (simp add: rune_width_def)
  next
    case False
    with assms s fb have w: "rune_width s = n" "n \<le> length s" "cont_byte lo hi (hd t)"
      "list_all (cont_byte 0x80 0xBF) (take (n - 2) (tl t))"
      by (auto simp: rune_width_def split: if_splits)
    with s False obtain d u where t: "t = d # u" by (cases t) auto
    obtain k where k: "n = Suc (Suc k)" using False by (metis less_eq_Suc_le not_less_eq_eq
          not0_implies_Suc One_nat_def le_0_eq)
    with w s t fb show ?thesis
      by (auto simp: rune_width_def)
  qed
qed

lemma rune_width_not_start:
  assumes "0 < i" "i < rune_width s"
  shows "\<not> rune_start (s ! i)"
proof -
  obtain c t where s: "s = c # t" using assms by (cases s) (auto simp: rune_width_def)
  obtain n lo hi where fb: "first_byte (of_char c) = (n, lo, hi)" by (metis prod_cases3)
  have hi: "hi \<le> 0xBF" "0x80 \<le> lo"
    using fb by (auto simp: first_byte_def split: if_splits)
  from assms s fb have w: "rune_width s = n" "1 < n" "n \<le> length s" "cont_byte lo hi (hd t)"
      "list_all (cont_byte 0x80 0xBF) (take (n - 2) (tl t))"
    by (auto simp: rune_width_def split: if_splits)
  with s obtain d u where t: "t = d # u" by (cases t) auto
  have "cont_byte 0x80 0xBF (s ! i)"
  proof (cases "i = 1")
    case True
    with w hi s t show ?thesis by (auto simp: cont_byte_def)
  next
    case False
    with assms obtain j where j: "i = Suc (Suc j)" by (cases i; cases "i - 1") auto
    with assms w have "j < n - 2" by simp
    with w s t j show ?thesis by (auto simp: list_all_length)
  qed
  then show ?thesis by (auto simp: rune_start_def cont_byte_def)
qed

lemma valid_utf8_Cons_iff:
  "valid_utf8 (c # s) \<longleftrightarrow>
     0 < rune_width (c # s) \<and> valid_utf8 (drop (rune_width (c # s)) (c # s))"
  by (simp add: valid_utf8_def chunks.simps(2))

lemma valid_utf8_Nil [simp]: "valid_utf8 []"
  by (simp add: valid_utf8_def)

lemma valid_utf8_take:
  "valid_utf8 s \<Longrightarrow> n < length s \<Longrightarrow> rune_start (s ! n) \<Longrightarrow> valid_utf8 (take n s)"
proof (induction s arbitrary: n rule: chunks.induct)
  case 1
  then show ?case by simp
next
  case (2 c s)
  let ?w = "rune_width (c # s)"
  from "2.prems"(1) have w: "0 < ?w" and rest: "valid_utf8 (drop ?w (c # s))"
    by (auto simp: valid_utf8_Cons_iff)
  show ?case
  proof (cases "n = 0")
    case False
    have "?w \<le> n" using rune_width_not_start [of n "c # s"] False "2.prems"(3) by linarith
    then have split: "take n (c # s) = take ?w (c # s) @ take (n - ?w) (drop ?w (c # s))"
      by (metis le_add_diff_inverse take_add)
    have "valid_utf8 (take (n - ?w) (drop ?w (c # s)))"
    proof (rule "2.IH"(2))
      show "rune_width (c # s) \<noteq> 0" "valid_utf8 (drop ?w (c # s))" using w rest by auto
      show "n - ?w < length (drop ?w (c # s))" using "2.prems"(2) \<open>?w \<le> n\<close> by auto
      show "rune_start (drop ?w (c # s) ! (n - ?w))"
        using "2.prems"(2,3) \<open>?w \<le> n\<close> by (simp del: drop_Suc_Cons add: nth_drop)
    qed
    moreover have "rune_width (take n (c # s)) = ?w"
      using rune_width_take [OF w] split by metis
    moreover obtain t where "take n (c # s) = c # t" using False by (cases n) auto
    moreover have "drop ?w (take n (c # s)) = take (n - ?w) (drop ?w (c # s))"
      by (rule drop_take)
    ultimately show ?thesis using w valid_utf8_Cons_iff by metis
  qed simp
qed

text \<open>\<open>truncate\<close> cuts a valid string at a rune boundary.\<close>

lemma valid_utf8_truncate: "valid_utf8 s \<Longrightarrow> valid_utf8 (truncate_utf8 s n)"
proof (cases "length s \<le> n")
  case False
  assume v: "valid_utf8 s"
  let ?k = "rune_start_before s n"
  from False have k: "?k < length s" using rune_start_before_le [of s n] by linarith
  have "valid_utf8 (take ?k s)"
    using rune_start_before_start [of s n] valid_utf8_take [OF v k] by fastforce
  with False show ?thesis by (simp add: truncate_utf8_def)
qed (simp add: truncate_utf8_def)

lemma replace_first_self [simp]: "replace_first s s new = new"
  by (cases s) (auto simp: has_prefix_def)




section \<open>Properties\<close>

text \<open>A rune the decoder accepts, whatever follows it.\<close>

definition valid_rune :: "string \<Rightarrow> bool" where
  "valid_rune r \<longleftrightarrow> 0 < rune_width r \<and> rune_width r = length r"

lemma valid_rune_chunk: "k \<in> set (chunks s) \<Longrightarrow> valid_rune (rune_of k)"
proof (induction s rule: chunks.induct)
  case (2 c s)
  have repl: "valid_rune replacement_rune"
    by (simp add: valid_rune_def replacement_rune_def rune_width_def byte_of_def first_byte_def cont_byte_def)
  have "valid_rune (take (rune_width (c # s)) (c # s))" if "0 < rune_width (c # s)"
    using rune_width_take [OF that, of "[]"] that rune_width_le [of "c # s"]
    by (simp add: valid_rune_def min_def)
  with 2 repl show ?case by (auto simp: chunks.simps(2) split: if_splits)
qed simp

lemma valid_utf8_rune: "valid_rune r \<Longrightarrow> valid_utf8 s \<Longrightarrow> valid_utf8 (r @ s)"
proof -
  assume r: "valid_rune r" and s: "valid_utf8 s"
  from r obtain c t where ct: "r = c # t" by (cases r) (auto simp: valid_rune_def rune_width_def)
  from r rune_width_take [of r s] have "rune_width (r @ s) = length r"
    by (auto simp: valid_rune_def)
  with r s show ?thesis unfolding ct append_Cons valid_utf8_Cons_iff
    by (simp add: ct valid_rune_def)
qed

lemma valid_utf8_drop_control: "valid_utf8 (drop_control s)"
proof -
  have "list_all valid_rune rs \<Longrightarrow> valid_utf8 (concat rs)" for rs
    by (induction rs) (auto intro: valid_utf8_rune)
  moreover have "list_all valid_rune (filter (\<lambda>r. \<not> rune_isControl r) (runes s))"
    using valid_rune_chunk by (auto simp: list_all_iff runes_def)
  ultimately show ?thesis unfolding drop_control_def by blast
qed

text \<open>C29: What an error looks like in a response: at most 256 bytes of valid UTF-8 without
  control characters, whatever the error says.\<close>

theorem PublicError_clean:
  "length (PublicError up err) \<le> 256 \<and> valid_utf8 (PublicError up err) \<and>
   list_all (\<lambda>c. \<not> isControl c) (PublicError up err)"
proof -
  have "list_all (\<lambda>c. \<not> isControl c) (truncate_utf8 (drop_control s) n)" for s n
    using drop_control_clean [of s] set_truncate [of "drop_control s" n] by (auto simp: list_all_iff)
  then show ?thesis
    using length_truncate [of _ maxErrorDetail] valid_utf8_truncate [OF valid_utf8_drop_control]
    by (auto simp: PublicError_def maxErrorDetail_def Let_def split: option.splits)
qed











end
