(* ===== verification/Adapters.thy ===== *)
theory Adapters
  imports Errors
begin

text \<open>
  The contract of a download client (internal/adapters/adapters.go): the job handed to a
  client, the snapshot it reports back, and the \<open>Adapter\<close> interface with its optional
  extensions. A Go interface value is a record of the methods of the dynamic value; a
  type assertion to \<open>Controller\<close>, \<open>Reporter\<close>, \<open>Rehydrator\<close> or \<open>Prober\<close> reads an
  optional field. Every method takes and returns the state \<open>'w\<close> of the world outside the
  gateway (the download clients, the network, the cookie jars), since a call may change it.
\<close>

record Job =
  job_ID :: string
  job_Source :: string
  job_SavePath :: string
  job_Title :: string
  job_Category :: string
  job_Payload :: bytes
  job_PayloadName :: string

text \<open>\<open>Status\<close> is a string type with four constants; \<open>StatusUnset\<close> is its zero value.\<close>

datatype Status = StatusUnset | StatusQueued | StatusDownloading | StatusCompleted | StatusFailed

fun Status_string :: "Status \<Rightarrow> string" where
  "Status_string StatusUnset = ''''"
| "Status_string StatusQueued = ''queued''"
| "Status_string StatusDownloading = ''downloading''"
| "Status_string StatusCompleted = ''completed''"
| "Status_string StatusFailed = ''failed''"

record JobView =
  jv_State :: Status
  jv_NativeState :: string
  jv_Title :: string
  jv_BytesDone :: int
  jv_BytesTotal :: int
  jv_SpeedBps :: int
  jv_EtaSec :: int
  jv_Files :: "string list option"      \<comment> \<open>\<open>None\<close> is the nil slice\<close>
  jv_Message :: string
  jv_Seeders :: int
  jv_Leechers :: int
  jv_Health :: int

definition NotFoundState :: string where
  "NotFoundState = ''not-found''"

definition NewJobView :: JobView where
  "NewJobView = \<lparr>jv_State = StatusUnset, jv_NativeState = '''', jv_Title = '''',
     jv_BytesDone = 0, jv_BytesTotal = 0, jv_SpeedBps = 0, jv_EtaSec = -1, jv_Files = None,
     jv_Message = '''', jv_Seeders = -1, jv_Leechers = -1, jv_Health = -1\<rparr>"

text \<open>The answer of an adapter whose client has never heard of the job.\<close>

definition not_found_view :: JobView where
  "not_found_view = NewJobView\<lparr>jv_State := StatusQueued, jv_NativeState := NotFoundState\<rparr>"

record ClientStatus =
  cs_ID :: string
  cs_Type :: string
  cs_Name :: string
  cs_Reachable :: bool
  cs_Error :: string
  cs_DownBps :: int
  cs_UpBps :: int
  cs_Paused :: bool
  cs_FreeDisk :: "int option"
  cs_Detail :: "(string \<times> string) list"

text \<open>The zero \<open>ClientStatus\<close> with a name.\<close>

definition NamedStatus :: "string \<Rightarrow> ClientStatus" where
  "NamedStatus n = \<lparr>cs_ID = '''', cs_Type = '''', cs_Name = n, cs_Reachable = False,
     cs_Error = '''', cs_DownBps = 0, cs_UpBps = 0, cs_Paused = False, cs_FreeDisk = None,
     cs_Detail = []\<rparr>"

record AdoptedJob =
  aj_ClientJobID :: string
  aj_Title :: string

record 'w Controller =
  ctl_Pause :: "string \<Rightarrow> 'w \<Rightarrow> go_error option \<times> 'w"
  ctl_Resume :: "string \<Rightarrow> 'w \<Rightarrow> go_error option \<times> 'w"

record 'w Adapter =
  ad_Name :: string
  ad_Add :: "Job \<Rightarrow> 'w \<Rightarrow> (go_error + string) \<times> 'w"
  ad_Status :: "string \<Rightarrow> 'w \<Rightarrow> (go_error + Status) \<times> 'w"
  ad_Describe :: "string \<Rightarrow> 'w \<Rightarrow> (go_error + JobView) \<times> 'w"
  ad_Remove :: "string \<Rightarrow> 'w \<Rightarrow> go_error option \<times> 'w"
  ad_Controller :: "'w Controller option"
  ad_Reporter :: "('w \<Rightarrow> ClientStatus \<times> 'w) option"
  ad_Rehydrator :: "('w \<Rightarrow> (go_error + AdoptedJob list) \<times> 'w) option"
  ad_Prober :: "('w \<Rightarrow> (go_error + string) \<times> 'w) option"

text \<open>\<open>Status\<close> of every adapter is \<open>Describe\<close> reduced to its state.\<close>

definition status_of_describe ::
  "(string \<Rightarrow> 'w \<Rightarrow> (go_error + JobView) \<times> 'w) \<Rightarrow> string \<Rightarrow> 'w \<Rightarrow> (go_error + Status) \<times> 'w" where
  "status_of_describe describe jid w =
     (case describe jid w of
        (Inl e, w') \<Rightarrow> (Inl e, w')
      | (Inr v, w') \<Rightarrow> (Inr (jv_State v), w'))"


section \<open>The name given to uploaded content\<close>

definition clean_name :: "string \<Rightarrow> string" where
  "clean_name s = trim_space (drop_control (after_last_any s [CHR ''/'', CHR 0x5C]))"

text \<open>
  \<open>strings.ToLower\<close> is read on ASCII bytes only. The result is compared with the
  extensions ".nzb" and ".torrent", and no rune outside ASCII has a lower case among
  their letters, so the comparison is exact.
\<close>

definition payloadFileName :: "string \<Rightarrow> string \<Rightarrow> string \<Rightarrow> string" where
  "payloadFileName name title ext =
     (let out = clean_name name;
          out = (if out = '''' then clean_name title else out);
          out = (if out = '''' then ''download'' else out)
      in if \<not> has_suffix (to_lower out) ext then out @ ext else out)"


section \<open>Lemmas\<close>

definition plain_name_byte :: "char \<Rightarrow> bool" where
  "plain_name_byte c \<longleftrightarrow> c \<noteq> CHR ''/'' \<and> c \<noteq> CHR 0x5C \<and> \<not> isControl c"

lemma after_last_any_none: "c \<in> set cs \<Longrightarrow> c \<notin> set (after_last_any s cs)"
  by (auto simp: after_last_any_def dest: set_takeWhileD)

lemma clean_name_plain: "list_all plain_name_byte (clean_name s)"
proof -
  let ?cs = "[CHR ''/'', CHR 0x5C]"
  have "set (clean_name s) \<subseteq> set (drop_control (after_last_any s ?cs))"
    unfolding clean_name_def by (rule set_trim_space)
  moreover have "\<not> isControl c" if "c \<in> set (drop_control (after_last_any s ?cs))" for c
    using that drop_control_clean by (auto simp: list_all_iff)
  moreover have "c \<noteq> CHR ''/'' \<and> c \<noteq> CHR 0x5C"
    if "c \<in> set (drop_control (after_last_any s ?cs))" for c
  proof -
    have "set replacement_rune \<inter> set ?cs = {}"
      by code_simp
    moreover have "c \<in> set (after_last_any s ?cs) \<union> set replacement_rune"
      using that set_drop_control by blast
    ultimately show ?thesis using after_last_any_none [of c ?cs s] by auto
  qed
  ultimately show ?thesis by (auto simp: list_all_iff plain_name_byte_def)
qed


section \<open>Properties\<close>

text \<open>C37: The file name given to a client for uploaded content has no path separator and no
  control character, and ends in the extension, whatever name and title the caller sent.\<close>

theorem payloadFileName_safe:
  assumes "list_all plain_name_byte ext" "to_lower ext = ext"
  shows "list_all plain_name_byte (payloadFileName name title ext) \<and>
         has_suffix (to_lower (payloadFileName name title ext)) ext \<and>
         payloadFileName name title ext \<noteq> ''''"
proof -
  have d: "list_all plain_name_byte ''download''" by code_simp
  show ?thesis
    using assms clean_name_plain [of name] clean_name_plain [of title] d
    by (auto simp: payloadFileName_def Let_def)
qed

theorem payloadFileName_safe_witness:
  "payloadFileName ''../../x/a.NZB'' '''' ''.nzb'' = ''a.NZB'' \<and>
   has_suffix (to_lower (payloadFileName ''../../x/a.NZB'' '''' ''.nzb'')) ''.nzb''"
proof -
  have "list_all plain_name_byte ''.nzb''" "to_lower ''.nzb'' = ''.nzb''"
    "payloadFileName ''../../x/a.NZB'' '''' ''.nzb'' = ''a.NZB''"
    by code_simp+
  then show ?thesis using payloadFileName_safe [of "''.nzb''" "''../../x/a.NZB''" "''''"] by simp
qed

end
