(* ===== verification/Url.thy ===== *)
theory Url
  imports Errors
begin

text \<open>
  Package net/url of Go 1.24 as far as the gateway uses it: \<open>url.Parse\<close>, the fields of a
  \<open>URL\<close>, \<open>URL.String\<close>, \<open>QueryEscape\<close> and \<open>PathEscape\<close>. \<open>PrepareSpec\<close> decides from
  a parsed URL whether a client's address is acceptable, \<open>RedactURL\<close> rewrites one, and
  the adapters escape caller-supplied ids with the escapers.
\<close>

datatype encoding = EncodePath | EncodePathSegment | EncodeHost | EncodeZone
  | EncodeUserPassword | EncodeQueryComponent | EncodeFragment

record userinfo =
  ui_username :: string
  ui_password :: "string option"

record URL =
  u_Scheme :: string
  u_Opaque :: string
  u_User :: "userinfo option"
  u_Host :: string
  u_Path :: string
  u_RawPath :: string
  u_OmitHost :: bool
  u_ForceQuery :: bool
  u_RawQuery :: string
  u_Fragment :: string
  u_RawFragment :: string

definition zero_URL :: URL where
  "zero_URL = \<lparr>u_Scheme = '''', u_Opaque = '''', u_User = None, u_Host = '''', u_Path = '''',
     u_RawPath = '''', u_OmitHost = False, u_ForceQuery = False, u_RawQuery = '''',
     u_Fragment = '''', u_RawFragment = ''''\<rparr>"


section \<open>Escaping\<close>

definition is_alpha :: "char \<Rightarrow> bool" where
  "is_alpha c \<longleftrightarrow> (let b = (of_char c :: nat) in 65 \<le> b \<and> b \<le> 90 \<or> 97 \<le> b \<and> b \<le> 122)"

definition is_hex :: "char \<Rightarrow> bool" where
  "is_hex c \<longleftrightarrow> (let b = (of_char c :: nat) in
     48 \<le> b \<and> b \<le> 57 \<or> 97 \<le> b \<and> b \<le> 102 \<or> 65 \<le> b \<and> b \<le> 70)"

definition unhex :: "char \<Rightarrow> nat" where
  "unhex c = (let b = (of_char c :: nat) in
     if 48 \<le> b \<and> b \<le> 57 then b - 48
     else if 97 \<le> b \<and> b \<le> 102 then b - 97 + 10
     else if 65 \<le> b \<and> b \<le> 70 then b - 65 + 10
     else 0)"

definition shouldEscape :: "char \<Rightarrow> encoding \<Rightarrow> bool" where
  "shouldEscape c m =
     (if is_alpha c \<or> is_digit c then False
      else if m \<in> {EncodeHost, EncodeZone} \<and> c \<in> set ''!$&()*+,;=:[]<>'' \<union> {CHR 0x27, CHR 0x22}
      then False
      else if c \<in> set ''-_.~'' then False
      else if c \<in> set ''$&+,/:;=?@'' \<and> m \<notin> {EncodeHost, EncodeZone} then
        (case m of
           EncodePath \<Rightarrow> c = CHR ''?''
         | EncodePathSegment \<Rightarrow> c \<in> set ''/;,?''
         | EncodeUserPassword \<Rightarrow> c \<in> set ''@/?:''
         | EncodeQueryComponent \<Rightarrow> True
         | _ \<Rightarrow> False)
      else if m = EncodeFragment \<and> c \<in> set ''!()*'' then False
      else True)"

definition upper_hex :: "nat \<Rightarrow> char" where
  "upper_hex n = (if n < 10 then byte_of (48 + n) else byte_of (55 + n))"

definition escape :: "string \<Rightarrow> encoding \<Rightarrow> string" where
  "escape s m = concat (map (\<lambda>c.
     if c = CHR '' '' \<and> m = EncodeQueryComponent then ''+''
     else if shouldEscape c m
     then [CHR ''%'', upper_hex (of_char c div 16), upper_hex (of_char c mod 16)]
     else [c]) s)"

definition QueryEscape :: "string \<Rightarrow> string" where
  "QueryEscape s = escape s EncodeQueryComponent"

definition PathEscape :: "string \<Rightarrow> string" where
  "PathEscape s = escape s EncodePathSegment"

text \<open>\<open>unescape\<close>: \<open>None\<close> stands for an \<open>EscapeError\<close> or \<open>InvalidHostError\<close>.\<close>

fun unescape :: "string \<Rightarrow> encoding \<Rightarrow> string option" where
  "unescape [] m = Some []"
| "unescape (c # s) m =
     (if c = CHR ''%'' then
        (case s of
           a # b # t \<Rightarrow>
             (let v = unhex a * 16 + unhex b in
              if \<not> is_hex a \<or> \<not> is_hex b then None
              else if m = EncodeHost \<and> unhex a < 8 \<and> [a, b] \<noteq> ''25'' then None
              else if m = EncodeZone \<and> [a, b] \<noteq> ''25'' \<and> v \<noteq> 32 \<and> shouldEscape (byte_of v) EncodeHost
              then None
              else map_option ((#) (byte_of v)) (unescape t m))
         | _ \<Rightarrow> None)
      else if c = CHR ''+'' \<and> m = EncodeQueryComponent
      then map_option ((#) (CHR '' '')) (unescape s m)
      else if m \<in> {EncodeHost, EncodeZone} \<and> (of_char c :: nat) < 0x80 \<and> shouldEscape c m then None
      else map_option ((#) c) (unescape s m))"

text \<open>\<open>validEncoded\<close>: whether an escaped path or fragment is used as it was written.\<close>

definition validEncoded :: "string \<Rightarrow> encoding \<Rightarrow> bool" where
  "validEncoded s m =
     list_all (\<lambda>c. c \<in> set ''!$&()*+,;=:@[]%'' \<union> {CHR 0x27} \<or> \<not> shouldEscape c m) s"


section \<open>Parsing\<close>

text \<open>\<open>strings.Cut\<close> at the first occurrence of a byte: before, after, whether it was there.\<close>

definition cut :: "string \<Rightarrow> char \<Rightarrow> string \<times> string \<times> bool" where
  "cut s c = (let a = takeWhile (\<lambda>x. x \<noteq> c) s; r = dropWhile (\<lambda>x. x \<noteq> c) s in
     (case r of [] \<Rightarrow> (s, [], False) | _ # t \<Rightarrow> (a, t, True)))"

text \<open>\<open>getScheme\<close>: \<open>None\<close> is "missing protocol scheme". The first argument is what was
  read of the scheme so far.\<close>

fun getScheme_loop :: "string \<Rightarrow> string \<Rightarrow> string \<Rightarrow> (string \<times> string) option" where
  "getScheme_loop raw acc [] = Some ([], raw)"
| "getScheme_loop raw acc (c # s) =
     (if is_alpha c then getScheme_loop raw (acc @ [c]) s
      else if is_digit c \<or> c \<in> set ''+-.'' then
        (if acc = [] then Some ([], raw) else getScheme_loop raw (acc @ [c]) s)
      else if c = CHR '':'' then (if acc = [] then None else Some (acc, s))
      else Some ([], raw))"

definition getScheme :: "string \<Rightarrow> (string \<times> string) option" where
  "getScheme raw = getScheme_loop raw [] raw"

definition validOptionalPort :: "string \<Rightarrow> bool" where
  "validOptionalPort p =
     (case p of [] \<Rightarrow> True | c # s \<Rightarrow> c = CHR '':'' \<and> list_all is_digit s)"

definition validUserinfo :: "string \<Rightarrow> bool" where
  "validUserinfo s =
     list_all (\<lambda>c. is_alpha c \<or> is_digit c \<or> c \<in> set ''-._:~!$&()*+,;=%@'' \<union> {CHR 0x27}) s"

text \<open>The string before and after the last occurrence of a byte.\<close>

definition cut_last :: "string \<Rightarrow> char \<Rightarrow> (string \<times> string) option" where
  "cut_last s c =
     (if c \<in> set s
      then Some (rev (tl (dropWhile (\<lambda>x. x \<noteq> c) (rev s))), rev (takeWhile (\<lambda>x. x \<noteq> c) (rev s)))
      else None)"

text \<open>\<open>strings.Index\<close> with the slices before it and from it on.\<close>

fun split_at_sub :: "string \<Rightarrow> string \<Rightarrow> (string \<times> string) option" where
  "split_at_sub sub [] = (if sub = [] then Some ([], []) else None)"
| "split_at_sub sub (c # s) =
     (if has_prefix (c # s) sub then Some ([], c # s)
      else map_option (\<lambda>(a, b). (c # a, b)) (split_at_sub sub s))"

definition parseHost :: "string \<Rightarrow> string option" where
  "parseHost host =
     (if has_prefix host ''['' then
        (case cut_last host (CHR '']'') of
           None \<Rightarrow> None
         | Some (inside, colonPort) \<Rightarrow>
           if \<not> validOptionalPort colonPort then None
           else (case split_at_sub ''%25'' inside of
                   Some (h1, h2) \<Rightarrow>
                     (case (unescape h1 EncodeHost, unescape h2 EncodeZone,
                            unescape (CHR '']'' # colonPort) EncodeHost) of
                        (Some a, Some b, Some c) \<Rightarrow> Some (a @ b @ c)
                      | _ \<Rightarrow> None)
                 | None \<Rightarrow> unescape host EncodeHost))
      else (case cut_last host (CHR '':'') of
              Some (h, port) \<Rightarrow>
                if \<not> validOptionalPort (CHR '':'' # port) then None else unescape host EncodeHost
            | None \<Rightarrow> unescape host EncodeHost))"

definition parseUserinfo :: "string \<Rightarrow> userinfo option" where
  "parseUserinfo s =
     (if \<not> validUserinfo s then None
      else (case cut s (CHR '':'') of
              (name, pass, True) \<Rightarrow>
                (case (unescape name EncodeUserPassword, unescape pass EncodeUserPassword) of
                   (Some n, Some p) \<Rightarrow> Some \<lparr>ui_username = n, ui_password = Some p\<rparr>
                 | _ \<Rightarrow> None)
            | (name, _, False) \<Rightarrow>
                map_option (\<lambda>n. \<lparr>ui_username = n, ui_password = None\<rparr>)
                  (unescape name EncodeUserPassword)))"

definition parseAuthority :: "string \<Rightarrow> (userinfo option \<times> string) option" where
  "parseAuthority authority =
     (case cut_last authority (CHR ''@'') of
        None \<Rightarrow> map_option (\<lambda>h. (None, h)) (parseHost authority)
      | Some (ui, h) \<Rightarrow>
        (case parseHost h of
           None \<Rightarrow> None
         | Some host \<Rightarrow> map_option (\<lambda>u. (Some u, host)) (parseUserinfo ui)))"

definition setPath :: "string \<Rightarrow> URL \<Rightarrow> URL option" where
  "setPath p u =
     (case unescape p EncodePath of
        None \<Rightarrow> None
      | Some path \<Rightarrow>
        Some (u\<lparr>u_Path := path, u_RawPath := (if p = escape path EncodePath then [] else p)\<rparr>))"

definition setFragment :: "string \<Rightarrow> URL \<Rightarrow> URL option" where
  "setFragment f u =
     (case unescape f EncodeFragment of
        None \<Rightarrow> None
      | Some frag \<Rightarrow>
        Some (u\<lparr>u_Fragment := frag,
               u_RawFragment := (if f = escape frag EncodeFragment then [] else f)\<rparr>))"

text \<open>The query is cut off the rest; a single trailing question mark only sets a flag.\<close>

definition cutQuery :: "string \<Rightarrow> URL \<Rightarrow> string \<times> URL" where
  "cutQuery rest u =
     (if has_suffix rest ''?'' \<and> length (filter (\<lambda>c. c = CHR ''?'') rest) = 1
      then (butlast rest, u\<lparr>u_ForceQuery := True\<rparr>)
      else (case cut rest (CHR ''?'') of (r, q, _) \<Rightarrow> (r, u\<lparr>u_RawQuery := q\<rparr>)))"

text \<open>The part of \<open>parse\<close> after scheme and query: authority and path.\<close>

definition parseRest :: "string \<Rightarrow> URL \<Rightarrow> URL option" where
  "parseRest rest u =
     (if has_prefix rest ''//'' \<and> (u_Scheme u \<noteq> [] \<or> \<not> has_prefix rest ''///'') then
        (let a = drop 2 rest;
             authority = takeWhile (\<lambda>c. c \<noteq> CHR ''/'') a;
             path = dropWhile (\<lambda>c. c \<noteq> CHR ''/'') a
         in case parseAuthority authority of
              None \<Rightarrow> None
            | Some (user, host) \<Rightarrow> setPath path (u\<lparr>u_User := user, u_Host := host\<rparr>))
      else if u_Scheme u \<noteq> [] \<and> has_prefix rest ''/'' then setPath rest (u\<lparr>u_OmitHost := True\<rparr>)
      else setPath rest u)"

definition parse :: "string \<Rightarrow> URL option" where
  "parse raw =
     (if list_ex isControl raw then None
      else if raw = ''*'' then Some (zero_URL\<lparr>u_Path := ''*''\<rparr>)
      else (case getScheme raw of
              None \<Rightarrow> None
            | Some (scheme, rest0) \<Rightarrow>
              (case cutQuery rest0 (zero_URL\<lparr>u_Scheme := to_lower scheme\<rparr>) of
                 (rest, u) \<Rightarrow>
                   if \<not> has_prefix rest ''/'' \<and> u_Scheme u \<noteq> [] then Some (u\<lparr>u_Opaque := rest\<rparr>)
                   else if \<not> has_prefix rest ''/''
                           \<and> CHR '':'' \<in> set (takeWhile (\<lambda>c. c \<noteq> CHR ''/'') rest)
                   then None
                   else parseRest rest u)))"

text \<open>\<open>url.Parse\<close>: the fragment is cut off first.\<close>

definition Parse :: "string \<Rightarrow> URL option" where
  "Parse raw =
     (case cut raw (CHR ''#'') of
        (u, frag, _) \<Rightarrow>
          (case parse u of
             None \<Rightarrow> None
           | Some url \<Rightarrow> if frag = [] then Some url else setFragment frag url))"


section \<open>Printing\<close>

definition EscapedPath :: "URL \<Rightarrow> string" where
  "EscapedPath u =
     (if u_RawPath u \<noteq> [] \<and> validEncoded (u_RawPath u) EncodePath
         \<and> unescape (u_RawPath u) EncodePath = Some (u_Path u)
      then u_RawPath u
      else if u_Path u = ''*'' then ''*''
      else escape (u_Path u) EncodePath)"

definition EscapedFragment :: "URL \<Rightarrow> string" where
  "EscapedFragment u =
     (if u_RawFragment u \<noteq> [] \<and> validEncoded (u_RawFragment u) EncodeFragment
         \<and> unescape (u_RawFragment u) EncodeFragment = Some (u_Fragment u)
      then u_RawFragment u
      else escape (u_Fragment u) EncodeFragment)"

definition userinfo_String :: "userinfo \<Rightarrow> string" where
  "userinfo_String ui =
     (case ui_password ui of
        None \<Rightarrow> escape (ui_username ui) EncodeUserPassword
      | Some p \<Rightarrow> escape (ui_username ui) EncodeUserPassword @ '':'' @ escape p EncodeUserPassword)"

definition URL_String :: "URL \<Rightarrow> string" where
  "URL_String u =
     (let pre = (if u_Scheme u = [] then [] else u_Scheme u @ '':'');
          body =
            (if u_Opaque u \<noteq> [] then u_Opaque u
             else
               let auth =
                     (if u_Scheme u = [] \<and> u_Host u = [] \<and> u_User u = None then []
                      else if u_OmitHost u \<and> u_Host u = [] \<and> u_User u = None then []
                      else (if u_Host u \<noteq> [] \<or> u_Path u \<noteq> [] \<or> u_User u \<noteq> None then ''//'' else [])
                           @ (case u_User u of None \<Rightarrow> [] | Some ui \<Rightarrow> userinfo_String ui @ ''@'')
                           @ escape (u_Host u) EncodeHost);
                   path = EscapedPath u;
                   slash = (if path \<noteq> [] \<and> hd path \<noteq> CHR ''/'' \<and> u_Host u \<noteq> [] then ''/'' else []);
                   dot = (if pre @ auth @ slash = []
                             \<and> CHR '':'' \<in> set (takeWhile (\<lambda>c. c \<noteq> CHR ''/'') path)
                          then ''./'' else [])
               in auth @ slash @ dot @ path)
      in pre @ body
         @ (if u_ForceQuery u \<or> u_RawQuery u \<noteq> [] then ''?'' @ u_RawQuery u else [])
         @ (if u_Fragment u \<noteq> [] then ''#'' @ EscapedFragment u else []))"


section \<open>Lemmas\<close>

lemma unhex_upper_hex: "n < 16 \<Longrightarrow> unhex (upper_hex n) = n \<and> is_hex (upper_hex n)"
  by (auto simp: upper_hex_def unhex_def is_hex_def byte_of_def Let_def)

lemma nibbles:
  "of_char c div 16 < (16::nat)" "of_char c mod 16 < (16::nat)"
  "byte_of (of_char c div 16 * 16 + of_char c mod 16) = c"
proof -
  have "(of_char c :: nat) < 256" by simp
  then show "of_char c div 16 < (16::nat)" by linarith
qed (simp_all add: byte_of_def)

lemma unescape_escape:
  assumes "m \<in> {EncodeQueryComponent, EncodePathSegment}"
  shows "unescape (escape s m) m = Some s"
proof (induction s)
  case (Cons c s)
  have pct: "shouldEscape (CHR ''%'') m" "shouldEscape (CHR ''+'') EncodeQueryComponent"
    using assms by (auto simp: shouldEscape_def is_alpha_def is_digit_def)
  note hex = unhex_upper_hex [OF nibbles(1) [of c]] unhex_upper_hex [OF nibbles(2) [of c]]
  consider (space) "c = CHR '' ''" "m = EncodeQueryComponent"
    | (esc) "\<not> (c = CHR '' '' \<and> m = EncodeQueryComponent)" "shouldEscape c m"
    | (plain) "\<not> (c = CHR '' '' \<and> m = EncodeQueryComponent)" "\<not> shouldEscape c m" by blast
  then show ?case
  proof cases
    case space
    with Cons show ?thesis by (simp add: escape_def)
  next
    case esc
    then have "escape (c # s) m =
        CHR ''%'' # upper_hex (of_char c div 16) # upper_hex (of_char c mod 16) # escape s m"
      unfolding escape_def by (simp only: list.map concat.simps if_True if_False append_Cons append_Nil)
    with Cons assms hex nibbles(3) [of c] show ?thesis by auto
  next
    case plain
    then have "escape (c # s) m = c # escape s m"
      unfolding escape_def by (simp only: list.map concat.simps if_True if_False append_Cons append_Nil)
    moreover have "c \<noteq> CHR ''%''" "\<not> (c = CHR ''+'' \<and> m = EncodeQueryComponent)" using plain pct by auto
    ultimately show ?thesis using Cons assms by auto
  qed
qed (simp add: escape_def)

lemma escape_bytes:
  assumes "c \<in> set (escape s m)"
  shows "c \<in> set ''%+'' \<or> is_hex c \<or> \<not> shouldEscape c m"
proof -
  have "is_hex (upper_hex (of_char d div 16))" "is_hex (upper_hex (of_char d mod 16))" for d :: char
    using unhex_upper_hex [OF nibbles(1)] unhex_upper_hex [OF nibbles(2)] by auto
  with assms show ?thesis by (auto simp: escape_def split: if_splits)
qed


subsection \<open>Trailing slashes\<close>

text \<open>A URL with an authority stays one when the slashes at its end are cut.\<close>

lemma getScheme_loop_split:
  "getScheme_loop raw acc s = Some (scheme, rest) \<Longrightarrow> scheme \<noteq> [] \<Longrightarrow>
     \<exists>pre. s = pre @ CHR '':'' # rest \<and> CHR ''/'' \<notin> set pre \<and>
       (\<forall>raw' rest'. getScheme_loop raw' acc (pre @ CHR '':'' # rest') = Some (scheme, rest'))"
proof (induction raw acc s rule: getScheme_loop.induct)
  case (2 raw acc c s)
  consider (more) "is_alpha c \<or> (is_digit c \<or> c \<in> set ''+-.'') \<and> acc \<noteq> []"
      "getScheme_loop raw (acc @ [c]) s = Some (scheme, rest)"
    | (colon) "c = CHR '':''" "acc \<noteq> []" "scheme = acc" "rest = s"
    using 2(3,4) by (auto split: if_splits simp: is_alpha_def is_digit_def)
  then show ?case
  proof cases
    case more
    have "\<exists>pre. s = pre @ CHR '':'' # rest \<and> CHR ''/'' \<notin> set pre \<and>
       (\<forall>raw' rest'. getScheme_loop raw' (acc @ [c]) (pre @ CHR '':'' # rest') = Some (scheme, rest'))"
      using 2(1,2) more 2(4) by blast
    then obtain pre where "s = pre @ CHR '':'' # rest" "CHR ''/'' \<notin> set pre"
       "\<forall>raw' rest'. getScheme_loop raw' (acc @ [c]) (pre @ CHR '':'' # rest') = Some (scheme, rest')" by blast
    moreover have "c \<noteq> CHR ''/''" using more(1) by (auto simp: is_alpha_def is_digit_def)
    ultimately show ?thesis using more(1) by (intro exI [of _ "c # pre"]) auto
  next
    case colon
    then show ?thesis by (intro exI [of _ "[]"]) (auto simp: is_alpha_def is_digit_def)
  qed
qed simp

lemma unescape_slash: "unescape (s @ [CHR ''/'']) m \<noteq> None \<Longrightarrow> unescape s m \<noteq> None"
proof (induction s m rule: unescape.induct)
  case (2 c s m)
  have hex: "\<not> is_hex (CHR ''/'')" by code_simp
  show ?case
  proof (cases "c = CHR ''%''")
    case True
    show ?thesis
    proof (cases s)
      case Nil
      then show ?thesis using 2 True by simp
    next
      case (Cons a s')
      show ?thesis
      proof (cases s')
        case Nil
        then show ?thesis using 2 True Cons hex by simp
      next
        case c2: (Cons b t)
        show ?thesis using 2(1) 2(4) True Cons c2 by (auto simp: Let_def split: if_splits)
      qed
    qed
  next
    case False
    then show ?thesis using 2(2,3) 2(4) by (auto split: if_splits)
  qed
qed simp

lemma unescape_slashes: "unescape (s @ replicate n (CHR ''/'')) m \<noteq> None \<Longrightarrow> unescape s m \<noteq> None"
proof (induction n)
  case (Suc n)
  then show ?case using unescape_slash [of "s @ replicate n (CHR ''/'')" m]
    by (metis append_assoc replicate_Suc replicate_append_same)
qed simp

lemma cut_absent: "c \<notin> set s \<Longrightarrow> cut s c = (s, [], False)"
  by (auto simp: cut_def dropWhile_eq_Cons_conv split: list.splits) (metis in_set_conv_decomp dropWhile_eq_Nil_conv list.distinct(1))

lemma cutQuery_absent: "CHR ''?'' \<notin> set s \<Longrightarrow> cutQuery s u = (s, u\<lparr>u_RawQuery := ''''\<rparr>)"
  by (auto simp: cutQuery_def cut_absent has_suffix_iff)

lemma Parse_plain: "CHR ''#'' \<notin> set raw \<Longrightarrow> Parse raw = parse raw"
  by (simp add: Parse_def cut_absent split: option.split)

text \<open>The authority of a URL with a scheme, up to the first slash.\<close>

definition starts_path :: "string \<Rightarrow> bool" where
  "starts_path s \<longleftrightarrow> s = [] \<or> hd s = CHR ''/''"

lemma authority_path:
  assumes "CHR ''/'' \<notin> set auth" "starts_path path"
  shows "takeWhile (\<lambda>c. c \<noteq> CHR ''/'') (auth @ path) = auth" "dropWhile (\<lambda>c. c \<noteq> CHR ''/'') (auth @ path) = path"
proof -
  have "takeWhile (\<lambda>c. c \<noteq> CHR ''/'') path = []" "dropWhile (\<lambda>c. c \<noteq> CHR ''/'') path = path"
    using assms(2) by (cases path; simp add: starts_path_def)+
  moreover have "\<forall>c \<in> set auth. c \<noteq> CHR ''/''" using assms(1) by auto
  ultimately show "takeWhile (\<lambda>c. c \<noteq> CHR ''/'') (auth @ path) = auth" "dropWhile (\<lambda>c. c \<noteq> CHR ''/'') (auth @ path) = path"
    by simp_all
qed

lemma setPath_fields: "setPath p u = Some v \<Longrightarrow> u_Scheme v = u_Scheme u \<and> u_Host v = u_Host u \<and> u_User v = u_User u"
  by (auto simp: setPath_def split: option.splits)

lemma setPath_total: "unescape p EncodePath \<noteq> None \<Longrightarrow> \<exists>v. setPath p u = Some v"
  by (auto simp: setPath_def)

lemma parse_authority:
  assumes "getScheme (pre @ CHR '':'' # ''//'' @ auth @ path) = Some (scheme, ''//'' @ auth @ path)" "scheme \<noteq> []"
    "\<not> list_ex isControl (pre @ CHR '':'' # ''//'' @ auth @ path)" "CHR ''?'' \<notin> set (auth @ path)"
    "CHR ''/'' \<notin> set auth" "starts_path path"
  shows "parse (pre @ CHR '':'' # ''//'' @ auth @ path) =
    (case parseAuthority auth of None \<Rightarrow> None
     | Some (user, host) \<Rightarrow> setPath path (zero_URL\<lparr>u_Scheme := to_lower scheme, u_User := user, u_Host := host\<rparr>))"
proof -
  have "pre @ CHR '':'' # ''//'' @ auth @ path \<noteq> ''*''" by (cases pre) auto
  moreover have "to_lower scheme \<noteq> []" using assms(2) by (simp add: to_lower_def)
  moreover have "cutQuery (''//'' @ auth @ path) u = (''//'' @ auth @ path, u\<lparr>u_RawQuery := ''''\<rparr>)" for u
    by (rule cutQuery_absent) (use assms(4) in simp)
  ultimately show ?thesis
    using assms(1,3) authority_path [OF assms(5,6)]
    by (simp add: parse_def parseRest_def has_prefix_def zero_URL_def split: option.split prod.split)
qed

lemma cutQuery_fields: "cutQuery rest u = (r, v) \<Longrightarrow> u_Scheme v = u_Scheme u \<and> u_Host v = u_Host u"
  by (auto simp: cutQuery_def split: if_splits prod.splits)

lemma parseRest_fields:
  "parseRest rest u = Some v \<Longrightarrow> u_Scheme v = u_Scheme u \<and> (u_Host v = u_Host u \<or> has_prefix rest ''//'')"
  by (auto simp: parseRest_def Let_def dest!: setPath_fields split: if_splits option.splits prod.splits)

lemma parse_fields:
  assumes "parse raw = Some u" "raw \<noteq> ''*''" "getScheme raw = Some (scheme, rest)" "cutQuery rest (zero_URL\<lparr>u_Scheme := to_lower scheme\<rparr>) = (r, v)"
  shows "u_Scheme u = to_lower scheme" "u_Host u \<noteq> [] \<Longrightarrow> has_prefix r ''//''"
  using assms cutQuery_fields [OF assms(4)]
  by (auto simp: parse_def zero_URL_def dest!: parseRest_fields split: if_splits)

lemma parse_authorityE:
  assumes "parse raw = Some u" "CHR ''?'' \<notin> set raw" "u_Scheme u \<noteq> []" "u_Host u \<noteq> []"
  obtains pre scheme auth path where "raw = pre @ CHR '':'' # ''//'' @ auth @ path" "scheme \<noteq> []"
    "\<And>path'. getScheme (pre @ CHR '':'' # ''//'' @ auth @ path') = Some (scheme, ''//'' @ auth @ path')"
    "\<not> list_ex isControl raw" "CHR ''/'' \<notin> set auth" "starts_path path" "unescape path EncodePath \<noteq> None"
    "parseAuthority auth = Some (u_User u, u_Host u)" "u_Scheme u = to_lower scheme"
proof -
  have raw: "\<not> list_ex isControl raw" "raw \<noteq> ''*''"
    using assms(1,3) by (auto simp: parse_def zero_URL_def split: if_splits)
  then obtain scheme rest where sch: "getScheme raw = Some (scheme, rest)"
    using assms(1) by (auto simp: parse_def split: option.splits)
  have ne: "scheme \<noteq> []" using parse_fields(1) [OF assms(1) raw(2) sch surjective_pairing] assms(3) by (auto simp: to_lower_def)
  obtain pre where pre: "raw = pre @ CHR '':'' # rest"
    "\<And>rest'. getScheme (pre @ CHR '':'' # rest') = Some (scheme, rest')"
    using getScheme_loop_split [OF sch [unfolded getScheme_def] ne] by (auto simp: getScheme_def)
  have q: "cutQuery rest v = (rest, v\<lparr>u_RawQuery := ''''\<rparr>)" for v
    by (rule cutQuery_absent) (use assms(2) pre(1) in simp)
  have "has_prefix rest ''//''" using parse_fields(2) [OF assms(1) raw(2) sch q assms(4)] .
  then obtain a where rest: "rest = ''//'' @ a" by (auto simp: has_prefix_iff)
  let ?auth = "takeWhile (\<lambda>c. c \<noteq> CHR ''/'') a" and ?path = "dropWhile (\<lambda>c. c \<noteq> CHR ''/'') a"
  have a: "CHR ''/'' \<notin> set ?auth" "starts_path ?path" "a = ?auth @ ?path"
    using hd_dropWhile [of "\<lambda>c. c \<noteq> CHR ''/''" a] by (auto simp: starts_path_def dest: set_takeWhileD)
  have "parse raw = (case parseAuthority ?auth of None \<Rightarrow> None
     | Some (user, host) \<Rightarrow> setPath ?path (zero_URL\<lparr>u_Scheme := to_lower scheme, u_User := user, u_Host := host\<rparr>))"
    using parse_authority [of pre ?auth ?path scheme] pre(2) [of "''//'' @ a"] ne raw(1) assms(2) a
    by (simp add: pre(1) rest)
  then obtain user host where ok: "parseAuthority ?auth = Some (user, host)"
    "setPath ?path (zero_URL\<lparr>u_Scheme := to_lower scheme, u_User := user, u_Host := host\<rparr>) = Some u"
    using assms(1) by (auto split: option.splits)
  have "unescape ?path EncodePath \<noteq> None" using ok(2) by (auto simp: setPath_def split: option.splits)
  moreover have "parseAuthority ?auth = Some (u_User u, u_Host u)" "u_Scheme u = to_lower scheme"
    using ok setPath_fields [OF ok(2)] by simp_all
  ultimately show ?thesis
    using that [of pre ?auth ?path scheme] pre(1) rest a ne raw(1) pre(2) by simp
qed

lemma trim_right_slashes: "\<exists>n. s = trim_right s ''/'' @ replicate n (CHR ''/'')"
proof (induction s rule: rev_induct)
  case (snoc c s)
  show ?case
  proof (cases "c = CHR ''/''")
    case True
    from snoc obtain n where n: "s = trim_right s ''/'' @ replicate n (CHR ''/'')" by blast
    have "trim_right (s @ [c]) ''/'' = trim_right s ''/''" by (simp add: trim_right_def True)
    moreover have "trim_right s ''/'' @ replicate (Suc n) (CHR ''/'') = (trim_right s ''/'' @ replicate n (CHR ''/'')) @ [CHR ''/'']"
      by (simp only: append_assoc replicate_append_same replicate_Suc)
    ultimately have "s @ [c] = trim_right (s @ [c]) ''/'' @ replicate (Suc n) (CHR ''/'')"
      using n True by simp
    then show ?thesis by blast
  qed (auto simp: trim_right_def intro: exI [of _ 0])
qed (simp add: trim_right_def)

lemma trim_right_append: "t \<noteq> [] \<Longrightarrow> last t \<noteq> CHR ''/'' \<Longrightarrow> trim_right (t @ s) ''/'' = t @ trim_right s ''/''"
proof (induction s rule: rev_induct)
  case Nil
  then show ?case by (cases t rule: rev_cases) (auto simp: trim_right_def)
next
  case (snoc c s)
  then show ?case by (cases "c = CHR ''/''") (auto simp: trim_right_def)
qed

lemma Parse_trim_slashes:
  assumes "Parse raw = Some u" "CHR ''?'' \<notin> set raw" "CHR ''#'' \<notin> set raw" "u_Scheme u \<noteq> []" "u_Host u \<noteq> []"
  shows "\<exists>v. Parse (trim_right raw ''/'') = Some v \<and> u_Scheme v = u_Scheme u \<and> u_Host v = u_Host u \<and> u_User v = u_User u"
proof -
  have "parse raw = Some u" using assms(1,3) by (simp add: Parse_plain)
  from this assms(2,4,5) show ?thesis
  proof (cases rule: parse_authorityE)
    case (1 pre scheme auth path)
    have "auth \<noteq> []"
      using 1(8) assms(5) by (auto simp: parseAuthority_def parseHost_def cut_last_def has_prefix_def)
    then have "last (pre @ CHR '':'' # ''//'' @ auth) = last auth" by simp
    with \<open>auth \<noteq> []\<close> 1(5) have l: "last (pre @ CHR '':'' # ''//'' @ auth) \<noteq> CHR ''/''" by (metis last_in_set)
    have raw: "raw = (pre @ CHR '':'' # ''//'' @ auth) @ path" using 1(1) by simp
    have trim: "trim_right raw ''/'' = pre @ CHR '':'' # ''//'' @ auth @ trim_right path ''/''"
      unfolding raw using trim_right_append [OF _ l, of path] by simp
    obtain n where n: "path = trim_right path ''/'' @ replicate n (CHR ''/'')" using trim_right_slashes by blast
    have sub: "set (trim_right raw ''/'') \<subseteq> set raw" by (rule trim_right_subset)
    have p: "unescape (trim_right path ''/'') EncodePath \<noteq> None"
      using 1(7) unescape_slashes [of "trim_right path ''/''" n EncodePath] n by metis
    have "starts_path t" if "starts_path (t @ r)" for t r
      using that by (cases t) (auto simp: starts_path_def)
    then have "starts_path (trim_right path ''/'')" using 1(6) n by metis
    moreover have "\<not> list_ex isControl (trim_right raw ''/'')" using 1(4) sub by (auto simp: list_ex_iff)
    moreover have "CHR ''?'' \<notin> set (trim_right raw ''/'')" using assms(2) sub by auto
    ultimately have "parse (trim_right raw ''/'') =
        setPath (trim_right path ''/'') (zero_URL\<lparr>u_Scheme := to_lower scheme, u_User := u_User u, u_Host := u_Host u\<rparr>)"
      using parse_authority [OF 1(3,2), of "trim_right path ''/''"] 1(5,8) by (simp add: trim)
    then obtain v where v: "parse (trim_right raw ''/'') = Some v" "u_Scheme v = u_Scheme u" "u_Host v = u_Host u" "u_User v = u_User u"
      using setPath_total [OF p] setPath_fields 1(9) by fastforce
    have "CHR ''#'' \<notin> set (trim_right raw ''/'')" using assms(3) sub by auto
    then show ?thesis using v by (simp add: Parse_plain)
  qed
qed

end
