(* ===== verification/Float64.thy ===== *)
theory Float64
  imports Prelude "HOL-Library.Log_Nat"
begin

text \<open>
  The \<open>float64\<close> arithmetic of the gateway. A finite \<open>float64\<close> is a rational number; an
  operation is the exact rational result rounded to 53 significant bits, ties to even
  (\<open>fl\<close>). The exponent is not bounded: every value the gateway computes is 0 or has a
  magnitude between \<open>2 powi -100\<close> and \<open>2 powi 100\<close> (quotients and products of 64-bit
  integers and small constants), far inside the normal range of \<open>float64\<close>, so no
  overflow, infinity or subnormal number occurs.
\<close>

text \<open>The exponent of a positive rational: \<open>2 powi e \<le> x < 2 powi (e + 1)\<close>.\<close>

definition exponent :: "rat \<Rightarrow> int" where
  "exponent x =
     (case quotient_of x of (p, q) \<Rightarrow>
        let e = bitlen p - bitlen q in if 2 powi e \<le> x then e else e - 1)"

text \<open>Round to an integer, ties to even.\<close>

definition round_even :: "rat \<Rightarrow> int" where
  "round_even y =
     (let f = \<lfloor>y\<rfloor>; d = y - of_int f in
      if d < 1 / 2 then f else if 1 / 2 < d then f + 1 else if even f then f else f + 1)"

definition ulp :: "rat \<Rightarrow> rat" where
  "ulp x = 2 powi (exponent x - 52)"

definition fl_pos :: "rat \<Rightarrow> rat" where
  "fl_pos x = of_int (round_even (x / ulp x)) * ulp x"

definition fl :: "rat \<Rightarrow> rat" where
  "fl x = (if x = 0 then 0 else if 0 < x then fl_pos x else - fl_pos (- x))"

text \<open>\<open>int64(f)\<close> truncates towards zero; out of range the result of the conversion is
  implementation-specific, and amd64 gives the least \<open>int64\<close>.\<close>

definition trunc_int64 :: "rat \<Rightarrow> int" where
  "trunc_int64 f =
     (let n = (if 0 \<le> f then \<lfloor>f\<rfloor> else \<lceil>f\<rceil>) in if in64 n then n else min_int64)"


section \<open>Lemmas\<close>

lemma powi_less_iff: "(2::rat) powi m < 2 powi n \<longleftrightarrow> m < n"
  by (metis linorder_not_less one_less_numeral_iff power_int_increasing
      power_int_strict_increasing semiring_norm(76) order.strict_implies_order)

lemma bitlen_bounds_rat:
  assumes "0 < p"
  shows "2 powi (bitlen p - 1) \<le> (of_int p :: rat)" "(of_int p :: rat) < 2 powi (bitlen p)"
proof -
  have pos: "0 < bitlen p" using assms bitlen_eq_zero_iff [of p] bitlen_nonneg [of p] by linarith
  from bitlen_bounds [OF assms]
  have b: "2 ^ nat (bitlen p - 1) \<le> p" "p < 2 ^ nat (bitlen p)" by auto
  have "(2::rat) powi (bitlen p - 1) = of_int (2 ^ nat (bitlen p - 1))"
    using pos by (simp add: power_int_def)
  with b show "2 powi (bitlen p - 1) \<le> (of_int p :: rat)"
    by (metis of_int_le_iff)
  have "(2::rat) powi (bitlen p) = of_int (2 ^ nat (bitlen p))"
    using pos by (simp add: power_int_def)
  with b show "(of_int p :: rat) < 2 powi (bitlen p)"
    by (metis of_int_less_iff)
qed

lemma exponent_bounds:
  assumes "0 < x"
  shows "2 powi exponent x \<le> x" "x < 2 powi (exponent x + 1)"
proof -
  obtain p q where pq: "quotient_of x = (p, q)" by force
  have q: "0 < q" using quotient_of_denom_pos [OF pq] .
  have x: "x = of_int p / of_int q" by (rule quotient_of_div [OF pq])
  with assms q have p: "0 < p" by (simp add: zero_less_divide_iff)
  let ?e = "bitlen p - bitlen q"
  note bp = bitlen_bounds_rat [OF p] and bq = bitlen_bounds_rat [OF q]
  have qpos: "(0::rat) < of_int q" using q by simp
  have "x < 2 powi bitlen p / 2 powi (bitlen q - 1)"
    unfolding x by (rule frac_less) (use p bp bq in auto)
  also have "\<dots> = 2 powi (?e + 1)"
    by (simp add: power_int_diff power_int_add field_simps)
  finally have up: "x < 2 powi (?e + 1)" .
  have "2 powi (bitlen p - 1) / 2 powi bitlen q \<le> x"
    unfolding x by (rule frac_le) (use bp bq qpos p in auto)
  then have low: "2 powi (?e - 1) \<le> x"
    by (simp add: power_int_diff power_int_add field_simps)
  show "2 powi exponent x \<le> x" "x < 2 powi (exponent x + 1)"
    using up low pq by (auto simp: exponent_def Let_def)
qed

lemma exponent_unique:
  assumes "2 powi e \<le> x" "x < 2 powi (e + 1)"
  shows "exponent x = e"
proof -
  have pos: "0 < x" using assms(1) by (meson less_le_trans zero_less_power_int zero_less_numeral)
  note b = exponent_bounds [OF pos]
  have "2 powi e < (2::rat) powi (exponent x + 1)" using assms(1) b(2) by (rule le_less_trans)
  then have "e < exponent x + 1" by (simp add: powi_less_iff)
  moreover have "(2::rat) powi exponent x < 2 powi (e + 1)" using b(1) assms(2) by (rule le_less_trans)
  then have "exponent x < e + 1" by (simp add: powi_less_iff)
  ultimately show ?thesis by simp
qed

lemma exponent_mono: "0 < x \<Longrightarrow> x \<le> y \<Longrightarrow> exponent x \<le> exponent y"
proof -
  assume "0 < x" "x \<le> y"
  then have "(2::rat) powi exponent x < 2 powi (exponent y + 1)"
    using exponent_bounds(1) [of x] exponent_bounds(2) [of y] by linarith
  then have "exponent x < exponent y + 1" by (simp add: powi_less_iff)
  then show ?thesis by simp
qed

lemma round_even_bounds: "\<lfloor>y\<rfloor> \<le> round_even y" "round_even y \<le> \<lfloor>y\<rfloor> + 1"
  by (auto simp: round_even_def Let_def)

lemma round_even_of_int [simp]: "round_even (of_int n) = n"
  by (simp add: round_even_def)

lemma round_even_mono: "x \<le> y \<Longrightarrow> round_even x \<le> round_even y"
proof (cases "\<lfloor>x\<rfloor> = \<lfloor>y\<rfloor>")
  case True
  assume "x \<le> y"
  with True show ?thesis by (auto simp: round_even_def Let_def)
next
  case False
  assume "x \<le> y"
  with False have "\<lfloor>x\<rfloor> + 1 \<le> \<lfloor>y\<rfloor>" using floor_mono by fastforce
  then show ?thesis using round_even_bounds(2) [of x] round_even_bounds(1) [of y] by linarith
qed

lemma ulp_pos: "0 < ulp x"
  by (simp add: ulp_def)

lemma powi_ulp: "(2::rat) powi exponent x = of_int (2 ^ 52) * ulp x"
  by (simp add: ulp_def power_int_diff)

text \<open>Rounding stays within the binade, its upper end included.\<close>

lemma fl_pos_binade:
  assumes "0 < x"
  shows "2 powi exponent x \<le> fl_pos x" "fl_pos x \<le> 2 powi (exponent x + 1)"
proof -
  note b = exponent_bounds [OF assms]
  have "of_int (2 ^ 52) \<le> x / ulp x"
    using b(1) ulp_pos [of x] by (simp add: powi_ulp pos_le_divide_eq)
  from round_even_mono [OF this, unfolded round_even_of_int]
  have "2 ^ 52 \<le> round_even (x / ulp x)" .
  then have "of_int (2 ^ 52) * ulp x \<le> fl_pos x"
    unfolding fl_pos_def using ulp_pos [of x]
    by (metis mult_le_cancel_right_pos of_int_le_iff)
  then show "2 powi exponent x \<le> fl_pos x" by (simp add: powi_ulp)
  have two: "(2::rat) powi (exponent x + 1) = of_int (2 ^ 53) * ulp x"
    by (simp add: power_int_add powi_ulp)
  have "x / ulp x \<le> of_int (2 ^ 53)"
    using b(2) ulp_pos [of x] unfolding two by (simp add: pos_divide_le_eq)
  from round_even_mono [OF this, unfolded round_even_of_int]
  have "round_even (x / ulp x) \<le> 2 ^ 53" .
  then have "fl_pos x \<le> of_int (2 ^ 53) * ulp x"
    unfolding fl_pos_def using ulp_pos [of x]
    by (metis mult_le_cancel_right_pos of_int_le_iff)
  then show "fl_pos x \<le> 2 powi (exponent x + 1)" by (simp add: two)
qed

lemma fl_pos_mono: "0 < x \<Longrightarrow> x \<le> y \<Longrightarrow> fl_pos x \<le> fl_pos y"
proof (cases "exponent x = exponent y")
  case True
  assume "0 < x" "x \<le> y"
  from True have u: "ulp x = ulp y" by (simp add: ulp_def)
  have "round_even (x / ulp y) \<le> round_even (y / ulp y)"
    using \<open>x \<le> y\<close> ulp_pos [of y] by (intro round_even_mono divide_right_mono) auto
  then show ?thesis
    unfolding fl_pos_def u using ulp_pos [of y]
    by (metis mult_le_cancel_right_pos of_int_le_iff)
next
  case False
  assume x: "0 < x" "x \<le> y"
  with False have "exponent x + 1 \<le> exponent y" using exponent_mono [OF x] by simp
  then have "(2::rat) powi (exponent x + 1) \<le> 2 powi exponent y"
    by (simp add: power_int_increasing)
  then show ?thesis
    using fl_pos_binade(2) [OF x(1)] fl_pos_binade(1) [of y] x by linarith
qed

lemma fl_pos_pos: "0 < x \<Longrightarrow> 0 < fl_pos x"
  using fl_pos_binade(1) [of x] by (meson less_le_trans zero_less_power_int zero_less_numeral)

lemma fl_0 [simp]: "fl 0 = 0"
  by (simp add: fl_def)

lemma fl_nonneg: "0 \<le> x \<Longrightarrow> 0 \<le> fl x"
  using fl_pos_pos [of x] by (auto simp: fl_def)

lemma fl_mono_nonneg: "0 \<le> x \<Longrightarrow> x \<le> y \<Longrightarrow> fl x \<le> fl y"
  using fl_pos_mono [of x y] fl_pos_pos [of y] by (auto simp: fl_def)

text \<open>Integers of at most 53 bits are exact.\<close>

lemma fl_of_int:
  assumes "0 \<le> n" "n < 2 ^ 53"
  shows "fl (of_int n) = of_int n"
proof (cases "n = 0")
  case False
  with assms have x: "0 < (of_int n :: rat)" by simp
  let ?e = "exponent (of_int n)"
  have "2 powi ?e \<le> (of_int n :: rat)" "(of_int n :: rat) < 2 powi 53"
    using exponent_bounds(1) [OF x] assms(2)
      of_int_less_iff [where ?'a = rat, of n "2 ^ 53"] by (auto simp: power_int_def)
  then have "(2::rat) powi ?e < 2 powi 53" by linarith
  then have "?e < 53" by (simp only: powi_less_iff)
  then have e: "?e \<le> 52" by simp
  have u: "of_int n / ulp (of_int n) = of_int (n * 2 ^ nat (52 - ?e))"
    using e by (simp add: ulp_def power_int_def power_int_diff field_simps)
  have "fl (of_int n) = of_int (n * 2 ^ nat (52 - ?e)) * ulp (of_int n)"
    using x by (simp only: fl_def fl_pos_def u round_even_of_int) simp
  also have "\<dots> = of_int n"
    using u ulp_pos [of "of_int n"] by (metis less_irrefl nonzero_divide_eq_eq)
  finally show ?thesis .
qed simp

text \<open>Rounding is idempotent.\<close>

lemma fl_pos_idem: "0 < x \<Longrightarrow> fl_pos (fl_pos x) = fl_pos x"
proof -
  assume x: "0 < x"
  define n where "n = round_even (x / ulp x)"
  have fx: "fl_pos x = of_int n * ulp x" by (simp add: fl_pos_def n_def)
  note b = fl_pos_binade [OF x] and pos = fl_pos_pos [OF x]
  have "\<exists>m. fl_pos x / ulp (fl_pos x) = of_int m"
  proof (cases "fl_pos x = 2 powi (exponent x + 1)")
    case True
    have "exponent (fl_pos x) = exponent x + 1" using True by (intro exponent_unique) (simp_all add: power_int_add)
    then have "fl_pos x / ulp (fl_pos x) = of_int (2 ^ 52)" using powi_ulp [of "fl_pos x"] ulp_pos [of "fl_pos x"] True by (simp add: field_simps)
    then show ?thesis by blast
  next
    case False
    then have "exponent (fl_pos x) = exponent x" using b by (intro exponent_unique) auto
    then have "fl_pos x / ulp (fl_pos x) = of_int n" using ulp_pos [of x] by (simp add: fx ulp_def)
    then show ?thesis by blast
  qed
  then obtain m where m: "fl_pos x / ulp (fl_pos x) = of_int m" by blast
  have "fl_pos (fl_pos x) = of_int m * ulp (fl_pos x)" by (simp add: fl_pos_def [of "fl_pos x"] m)
  also have "\<dots> = fl_pos x" using m ulp_pos [of "fl_pos x"] by (simp add: field_simps)
  finally show ?thesis .
qed

lemma fl_idem: "fl (fl x) = fl x"
  using fl_pos_idem [of x] fl_pos_idem [of "- x"] fl_pos_pos [of x] fl_pos_pos [of "- x"] by (auto simp: fl_def)

text \<open>Rounding stays between powers of two.\<close>

lemma fl_abs: "\<bar>fl x\<bar> = fl \<bar>x\<bar>"
  using fl_pos_pos [of x] fl_pos_pos [of "- x"] by (auto simp: fl_def)

lemma fl_powi: "fl (2 powi e) = 2 powi e"
proof -
  have "exponent (2 powi e) = e" by (intro exponent_unique) (simp_all add: power_int_add)
  then have "2 powi e / ulp (2 powi e) = of_int (2 ^ 52)" by (simp add: ulp_def power_int_diff)
  then have "fl_pos (2 powi e) = of_int (2 ^ 52) * ulp (2 powi e)" by (simp only: fl_pos_def round_even_of_int)
  also have "\<dots> = 2 powi e" using \<open>exponent _ = e\<close> by (simp add: ulp_def power_int_diff)
  finally show ?thesis by (simp add: fl_def)
qed

lemma fl_range:
  assumes "2 powi a \<le> \<bar>x\<bar>" "\<bar>x\<bar> \<le> 2 powi b"
  shows "2 powi a \<le> \<bar>fl x\<bar>" "\<bar>fl x\<bar> \<le> 2 powi b"
  using fl_mono_nonneg [OF _ assms(1)] fl_mono_nonneg [OF _ assms(2)] by (simp_all add: fl_abs fl_powi)

end
