(* ===== verification/Json.thy ===== *)
theory Json
  imports Errors Float64
begin

text \<open>
  Package encoding/json as far as the gateway uses it: the encoder for the request bodies
  it sends, the scanner for the responses it reads, and the assignment of a JSON value to
  the fields of a struct. Numbers keep their literal, as the decoder does until it knows
  the type of the field.
\<close>

datatype json =
    JNull
  | JBool bool
  | JNum string
  | JStr string
  | JArr "json list"
  | JObj "(string \<times> json) list"

definition JInt :: "int \<Rightarrow> json" where
  "JInt n = JNum (itoa n)"


section \<open>Encoding\<close>

text \<open>A string as \<open>json.Marshal\<close> writes it, HTML-relevant characters escaped.\<close>

definition marshal_rune :: "string \<Rightarrow> string" where
  "marshal_rune r =
     (let n = codepoint r in
      if n = 34 \<or> n = 92 then CHR 0x5C # r
      else if n = 8 then [CHR 0x5C, CHR ''b'']
      else if n = 12 then [CHR 0x5C, CHR ''f'']
      else if n = 10 then [CHR 0x5C, CHR ''n'']
      else if n = 13 then [CHR 0x5C, CHR ''r'']
      else if n = 9 then [CHR 0x5C, CHR ''t'']
      else if n < 0x20 \<or> n = 0x3C \<or> n = 0x3E \<or> n = 0x26 \<or> n = 0x2028 \<or> n = 0x2029
      then CHR 0x5C # CHR ''u'' # hex_pad 4 n
      else r)"

fun marshal_chunk :: "chunk \<Rightarrow> string" where
  "marshal_chunk (Valid_rune r) = marshal_rune r"
| "marshal_chunk (Invalid_byte c) = CHR 0x5C # ''ufffd''"

definition marshal_string :: "string \<Rightarrow> string" where
  "marshal_string s = CHR 0x22 # concat (map marshal_chunk (chunks s)) @ [CHR 0x22]"

fun marshal :: "json \<Rightarrow> string" where
  "marshal JNull = ''null''"
| "marshal (JBool b) = (if b then ''true'' else ''false'')"
| "marshal (JNum lit) = lit"
| "marshal (JStr s) = marshal_string s"
| "marshal (JArr vs) = ''['' @ join (map marshal vs) '','' @ '']''"
| "marshal (JObj kvs) =
     ''{'' @ join (map (\<lambda>(k, v). marshal_string k @ '':'' @ marshal v) kvs) '','' @ ''}''"


section \<open>Scanning\<close>

text \<open>What the scanner finds at the front of its input: a value and what follows it, an
  input that ends inside a value, or a byte that cannot stand there.\<close>

datatype 'a scan = Scanned 'a string | Scan_eof | Scan_syntax

definition is_ws :: "char \<Rightarrow> bool" where
  "is_ws c \<longleftrightarrow> c = CHR '' '' \<or> c = byte_of 9 \<or> c = byte_of 10 \<or> c = byte_of 13"

definition skip_ws :: "string \<Rightarrow> string" where
  "skip_ws s = dropWhile is_ws s"

text \<open>The raw text of a string literal, after its opening quote.\<close>

fun scan_raw :: "string \<Rightarrow> string scan" where
  "scan_raw [] = Scan_eof"
| "scan_raw (c # s) =
     (if c = CHR 0x22 then Scanned [] s
      else if (of_char c :: nat) < 0x20 then Scan_syntax
      else if c = CHR 0x5C then
        (case s of
           [] \<Rightarrow> Scan_eof
         | d # t \<Rightarrow>
           if d \<in> set ''bfnrtu/'' \<union> {CHR 0x5C, CHR 0x22} then
             (case scan_raw t of Scanned r u \<Rightarrow> Scanned (c # d # r) u | x \<Rightarrow> x)
           else Scan_syntax)
      else (case scan_raw s of Scanned r u \<Rightarrow> Scanned (c # r) u | x \<Rightarrow> x))"

definition hex_val :: "char \<Rightarrow> nat option" where
  "hex_val c = (let b = (of_char c :: nat) in
     if 48 \<le> b \<and> b \<le> 57 then Some (b - 48)
     else if 97 \<le> b \<and> b \<le> 102 then Some (b - 87)
     else if 65 \<le> b \<and> b \<le> 70 then Some (b - 55)
     else None)"

text \<open>Four hexadecimal digits after a backslash and a u.\<close>

definition u4 :: "string \<Rightarrow> nat option" where
  "u4 s = (case map hex_val (take 4 s) of
     [Some a, Some b, Some c, Some d] \<Rightarrow> Some (a * 4096 + b * 256 + c * 16 + d)
   | _ \<Rightarrow> None)"

text \<open>The UTF-8 encoding of a code point, U+FFFD for a surrogate.\<close>

definition encode_rune :: "nat \<Rightarrow> string" where
  "encode_rune n =
     (if n < 0x80 then [byte_of n]
      else if n < 0x800 then [byte_of (0xC0 + n div 64), byte_of (0x80 + n mod 64)]
      else if 0xD800 \<le> n \<and> n < 0xE000 then replacement_rune
      else if n < 0x10000 then
        [byte_of (0xE0 + n div 4096), byte_of (0x80 + n div 64 mod 64), byte_of (0x80 + n mod 64)]
      else [byte_of (0xF0 + n div 262144), byte_of (0x80 + n div 4096 mod 64),
            byte_of (0x80 + n div 64 mod 64), byte_of (0x80 + n mod 64)])"

text \<open>\<open>unquote\<close>: the value of a raw string literal; invalid UTF-8 becomes U+FFFD, and a
  pair of surrogate escapes one rune. \<open>None\<close> for a malformed hexadecimal escape.\<close>

function unquote :: "string \<Rightarrow> string option" where
  "unquote [] = Some []"
| "unquote (c # s) =
     (if c = CHR 0x5C then
        (case s of
           [] \<Rightarrow> None
         | d # t \<Rightarrow>
           if d = CHR ''u'' then
             (case u4 t of
                None \<Rightarrow> None
              | Some n \<Rightarrow>
                (case (if 0xD800 \<le> n \<and> n < 0xDC00 \<and> take 2 (drop 4 t) = [CHR 0x5C, CHR ''u'']
                       then u4 (drop 6 t) else None) of
                   Some m \<Rightarrow>
                     if 0xDC00 \<le> m \<and> m < 0xE000
                     then map_option ((@) (encode_rune ((n - 0xD800) * 1024 + (m - 0xDC00) + 0x10000)))
                            (unquote (drop 10 t))
                     else map_option ((@) replacement_rune) (unquote (drop 4 t))
                 | None \<Rightarrow> map_option ((@) (encode_rune n)) (unquote (drop 4 t))))
           else
             map_option
               ((#) (if d = CHR ''b'' then byte_of 8 else if d = CHR ''f'' then byte_of 12
                     else if d = CHR ''n'' then byte_of 10 else if d = CHR ''r'' then byte_of 13
                     else if d = CHR ''t'' then byte_of 9 else d))
               (unquote t))
      else if rune_width (c # s) = 0 then map_option ((@) replacement_rune) (unquote s)
      else map_option ((@) (take (rune_width (c # s)) (c # s)))
             (unquote (drop (rune_width (c # s)) (c # s))))"
  by pat_completeness auto
termination
  by (relation "measure length") auto

declare unquote.simps(2) [simp del]

definition scan_string :: "string \<Rightarrow> string scan" where
  "scan_string s =
     (case scan_raw s of
        Scanned raw rest \<Rightarrow>
          (case unquote raw of Some v \<Rightarrow> Scanned v rest | None \<Rightarrow> Scan_syntax)
      | x \<Rightarrow> x)"

text \<open>A number literal: sign, integer part without leading zeros, fraction, exponent.\<close>

definition scan_digits :: "string \<Rightarrow> string scan" where
  "scan_digits s =
     (case s of [] \<Rightarrow> Scan_eof
      | c # _ \<Rightarrow> if is_digit c then Scanned (takeWhile is_digit s) (dropWhile is_digit s)
                else Scan_syntax)"

definition scan_frac :: "string \<Rightarrow> string scan" where
  "scan_frac s =
     (case s of
        c # t \<Rightarrow> if c = CHR ''.'' then
                  (case scan_digits t of Scanned d u \<Rightarrow> Scanned (c # d) u | x \<Rightarrow> x)
                else Scanned [] s
      | [] \<Rightarrow> Scanned [] [])"

definition scan_exp :: "string \<Rightarrow> string scan" where
  "scan_exp s =
     (case s of
        c # t \<Rightarrow> if c = CHR ''e'' \<or> c = CHR ''E'' then
                  (let sg = (if has_prefix t ''+'' \<or> has_prefix t ''-'' then take 1 t else [])
                   in case scan_digits (drop (length sg) t) of
                        Scanned d u \<Rightarrow> Scanned (c # sg @ d) u | x \<Rightarrow> x)
                else Scanned [] s
      | [] \<Rightarrow> Scanned [] [])"

definition scan_number :: "string \<Rightarrow> string scan" where
  "scan_number s =
     (let sg = (if has_prefix s ''-'' then ''-'' else []);
          t = drop (length sg) s;
          int_part = (if has_prefix t ''0'' then Scanned ''0'' (drop 1 t) else scan_digits t)
      in case int_part of
           Scanned d u \<Rightarrow>
             (case scan_frac u of
                Scanned f v \<Rightarrow>
                  (case scan_exp v of
                     Scanned e r \<Rightarrow> Scanned (sg @ d @ f @ e) r | x \<Rightarrow> x)
              | x \<Rightarrow> x)
         | x \<Rightarrow> x)"

definition scan_lit :: "string \<Rightarrow> json \<Rightarrow> string \<Rightarrow> json scan" where
  "scan_lit lit v s =
     (if has_prefix s lit then Scanned v (drop (length lit) s)
      else if has_prefix lit s then Scan_eof
      else Scan_syntax)"

text \<open>
  One value, the elements of an array and the members of an object. The first argument
  bounds the number of nested calls; each call consumes a byte, so the length of the
  input is enough (see \<open>scan_json\<close>).
\<close>

fun scan_value :: "nat \<Rightarrow> string \<Rightarrow> json scan"
  and scan_elems :: "nat \<Rightarrow> string \<Rightarrow> json list scan"
  and scan_members :: "nat \<Rightarrow> string \<Rightarrow> (string \<times> json) list scan" where
  "scan_value 0 s = Scan_eof"
| "scan_value (Suc k) s =
     (case skip_ws s of
        [] \<Rightarrow> Scan_eof
      | c # t \<Rightarrow>
        if c = CHR ''{'' then
          (if has_prefix (skip_ws t) ''}'' then Scanned (JObj []) (tl (skip_ws t))
           else (case scan_members k t of
                   Scanned ms r \<Rightarrow> Scanned (JObj ms) r
                 | Scan_eof \<Rightarrow> Scan_eof | Scan_syntax \<Rightarrow> Scan_syntax))
        else if c = CHR ''['' then
          (if has_prefix (skip_ws t) '']'' then Scanned (JArr []) (tl (skip_ws t))
           else (case scan_elems k t of
                   Scanned vs r \<Rightarrow> Scanned (JArr vs) r
                 | Scan_eof \<Rightarrow> Scan_eof | Scan_syntax \<Rightarrow> Scan_syntax))
        else if c = CHR 0x22 then
          (case scan_string t of
             Scanned v r \<Rightarrow> Scanned (JStr v) r
           | Scan_eof \<Rightarrow> Scan_eof | Scan_syntax \<Rightarrow> Scan_syntax)
        else if c = CHR ''-'' \<or> is_digit c then
          (case scan_number (c # t) of
             Scanned v r \<Rightarrow> Scanned (JNum v) r
           | Scan_eof \<Rightarrow> Scan_eof | Scan_syntax \<Rightarrow> Scan_syntax)
        else if c = CHR ''n'' then scan_lit ''null'' JNull (c # t)
        else if c = CHR ''t'' then scan_lit ''true'' (JBool True) (c # t)
        else if c = CHR ''f'' then scan_lit ''false'' (JBool False) (c # t)
        else Scan_syntax)"
| "scan_elems 0 s = Scan_eof"
| "scan_elems (Suc k) s =
     (case scan_value k s of
        Scanned v r \<Rightarrow>
          (case skip_ws r of
             [] \<Rightarrow> Scan_eof
           | c # t \<Rightarrow>
             if c = CHR '']'' then Scanned [v] t
             else if c = CHR '','' then
               (case scan_elems k t of
                  Scanned vs u \<Rightarrow> Scanned (v # vs) u
                | Scan_eof \<Rightarrow> Scan_eof | Scan_syntax \<Rightarrow> Scan_syntax)
             else Scan_syntax)
      | Scan_eof \<Rightarrow> Scan_eof | Scan_syntax \<Rightarrow> Scan_syntax)"
| "scan_members 0 s = Scan_eof"
| "scan_members (Suc k) s =
     (case skip_ws s of
        [] \<Rightarrow> Scan_eof
      | q # s1 \<Rightarrow>
        if q \<noteq> CHR 0x22 then Scan_syntax
        else (case scan_string s1 of
                Scanned key s2 \<Rightarrow>
                  (case skip_ws s2 of
                     [] \<Rightarrow> Scan_eof
                   | d # s3 \<Rightarrow>
                     if d \<noteq> CHR '':'' then Scan_syntax
                     else (case scan_value k s3 of
                             Scanned v s4 \<Rightarrow>
                               (case skip_ws s4 of
                                  [] \<Rightarrow> Scan_eof
                                | c # t \<Rightarrow>
                                  if c = CHR ''}'' then Scanned [(key, v)] t
                                  else if c = CHR '','' then
                                    (case scan_members k t of
                                       Scanned ms u \<Rightarrow> Scanned ((key, v) # ms) u
                                     | Scan_eof \<Rightarrow> Scan_eof | Scan_syntax \<Rightarrow> Scan_syntax)
                                  else Scan_syntax)
                           | Scan_eof \<Rightarrow> Scan_eof | Scan_syntax \<Rightarrow> Scan_syntax))
              | Scan_eof \<Rightarrow> Scan_eof | Scan_syntax \<Rightarrow> Scan_syntax))"

text \<open>The scanner refuses values nested deeper than 10000 levels.\<close>

fun json_depth :: "json \<Rightarrow> nat" where
  "json_depth (JArr vs) = Suc (fold max (map json_depth vs) 0)"
| "json_depth (JObj ms) = Suc (fold max (map (\<lambda>m. json_depth (snd m)) ms) 0)"
| "json_depth _ = 0"

definition maxNestingDepth :: int where
  "maxNestingDepth = 10000"

definition scan_json :: "string \<Rightarrow> json scan" where
  "scan_json s =
     (case scan_value (Suc (2 * length s)) s of
        Scanned v r \<Rightarrow> if maxNestingDepth < int (json_depth v) then Scan_syntax else Scanned v r
      | x \<Rightarrow> x)"


section \<open>Assigning a value to a struct\<close>

text \<open>
  \<open>json.Unmarshal\<close> leaves a field alone for \<open>null\<close>, and reports a value of the wrong
  type as an error after it has filled in the rest; since every caller drops the struct on
  an error, \<open>None\<close> stands for it.
\<close>

definition dec_string :: "json \<Rightarrow> string \<Rightarrow> string option" where
  "dec_string v cur = (case v of JNull \<Rightarrow> Some cur | JStr s \<Rightarrow> Some s | _ \<Rightarrow> None)"

definition dec_bool :: "json \<Rightarrow> bool \<Rightarrow> bool option" where
  "dec_bool v cur = (case v of JNull \<Rightarrow> Some cur | JBool b \<Rightarrow> Some b | _ \<Rightarrow> None)"

text \<open>An \<open>int64\<close> (or \<open>int\<close>) field takes a literal without fraction or exponent that is in
  range.\<close>

definition dec_int64 :: "json \<Rightarrow> int \<Rightarrow> int option" where
  "dec_int64 v cur =
     (case v of JNull \<Rightarrow> Some cur
      | JNum lit \<Rightarrow> (case atoi lit of (n, ok) \<Rightarrow> if ok then Some n else None)
      | _ \<Rightarrow> None)"

definition dec_int32 :: "json \<Rightarrow> int \<Rightarrow> int option" where
  "dec_int32 v cur =
     (case dec_int64 v cur of Some n \<Rightarrow> if in32 n then Some n else None | None \<Rightarrow> None)"

text \<open>The rational a number literal denotes, and a \<open>float64\<close> field: the nearest
  \<open>float64\<close>, an error when it is too large for one.\<close>

definition num_rat :: "string \<Rightarrow> rat" where
  "num_rat lit =
     (let neg = has_prefix lit ''-'';
          body = (if neg then tl lit else lit);
          mant = takeWhile (\<lambda>c. c \<noteq> CHR ''e'' \<and> c \<noteq> CHR ''E'') body;
          ex = drop (Suc (length mant)) body;
          ip = takeWhile is_digit mant;
          fp = drop (Suc (length ip)) mant;
          v = of_nat (digits_val (ip @ fp)) * 10 powi (fst (atoi (if ex = [] then ''0'' else ex)) - int (length fp))
      in if neg then - v else v)"

definition dec_float64 :: "json \<Rightarrow> rat \<Rightarrow> rat option" where
  "dec_float64 v cur =
     (case v of JNull \<Rightarrow> Some cur
      | JNum lit \<Rightarrow> (let r = fl (num_rat lit) in if \<bar>r\<bar> < 2 ^ 1024 then Some r else None)
      | _ \<Rightarrow> None)"

text \<open>A slice: \<open>null\<close> is the nil slice; each element starts from the zero value.\<close>

fun dec_all :: "(json \<Rightarrow> 'a option) \<Rightarrow> json list \<Rightarrow> 'a list option" where
  "dec_all f [] = Some []"
| "dec_all f (v # vs) =
     (case f v of None \<Rightarrow> None
      | Some x \<Rightarrow> (case dec_all f vs of None \<Rightarrow> None | Some xs \<Rightarrow> Some (x # xs)))"

definition dec_list :: "(json \<Rightarrow> 'a option) \<Rightarrow> json \<Rightarrow> 'a list option" where
  "dec_list f v = (case v of JNull \<Rightarrow> Some [] | JArr vs \<Rightarrow> dec_all f vs | _ \<Rightarrow> None)"

text \<open>
  The key of a member is matched with the field names exactly, else ignoring case: ASCII
  letters fold to upper case, and the long s (U+017F) and the Kelvin sign (U+212A) to S
  and K; no other rune folds to a letter of a field name.
\<close>

fun fold_key :: "string \<Rightarrow> string" where
  "fold_key [] = []"
| "fold_key (c # s) =
     (if has_prefix (c # s) [byte_of 0xC5, byte_of 0xBF] then CHR ''S'' # fold_key (drop 1 s)
      else if has_prefix (c # s) [byte_of 0xE2, byte_of 0x84, byte_of 0xAA]
      then CHR ''K'' # fold_key (drop 2 s)
      else (let b = (of_char c :: nat) in
            (if 97 \<le> b \<and> b \<le> 122 then byte_of (b - 32) else c) # fold_key s))"

type_synonym 'r field = "string \<times> (json \<Rightarrow> 'r \<Rightarrow> 'r option)"

definition find_field :: "'r field list \<Rightarrow> string \<Rightarrow> (json \<Rightarrow> 'r \<Rightarrow> 'r option) option" where
  "find_field fs key =
     (case map_of fs key of
        Some f \<Rightarrow> Some f
      | None \<Rightarrow> map_of (map (\<lambda>(n, f). (fold_key n, f)) fs) (fold_key key))"

fun dec_members :: "'r field list \<Rightarrow> (string \<times> json) list \<Rightarrow> 'r \<Rightarrow> 'r option" where
  "dec_members fs [] r = Some r"
| "dec_members fs ((k, v) # ms) r =
     (case find_field fs k of
        None \<Rightarrow> dec_members fs ms r
      | Some f \<Rightarrow> (case f v r of None \<Rightarrow> None | Some r' \<Rightarrow> dec_members fs ms r'))"

definition dec_struct :: "'r field list \<Rightarrow> 'r \<Rightarrow> json \<Rightarrow> 'r option" where
  "dec_struct fs zero v =
     (case v of JNull \<Rightarrow> Some zero | JObj ms \<Rightarrow> dec_members fs ms zero | _ \<Rightarrow> None)"

text \<open>Fields of the basic types, given their selector and update.\<close>

definition int64_field ::
  "string \<Rightarrow> ('r \<Rightarrow> int) \<Rightarrow> ((int \<Rightarrow> int) \<Rightarrow> 'r \<Rightarrow> 'r) \<Rightarrow> 'r field" where
  "int64_field name get upd = (name, \<lambda>v r. map_option (\<lambda>n. upd (\<lambda>_. n) r) (dec_int64 v (get r)))"

definition int32_field ::
  "string \<Rightarrow> ('r \<Rightarrow> int) \<Rightarrow> ((int \<Rightarrow> int) \<Rightarrow> 'r \<Rightarrow> 'r) \<Rightarrow> 'r field" where
  "int32_field name get upd = (name, \<lambda>v r. map_option (\<lambda>n. upd (\<lambda>_. n) r) (dec_int32 v (get r)))"

definition string_field ::
  "string \<Rightarrow> ('r \<Rightarrow> string) \<Rightarrow> ((string \<Rightarrow> string) \<Rightarrow> 'r \<Rightarrow> 'r) \<Rightarrow> 'r field" where
  "string_field name get upd = (name, \<lambda>v r. map_option (\<lambda>s. upd (\<lambda>_. s) r) (dec_string v (get r)))"

definition bool_field ::
  "string \<Rightarrow> ('r \<Rightarrow> bool) \<Rightarrow> ((bool \<Rightarrow> bool) \<Rightarrow> 'r \<Rightarrow> 'r) \<Rightarrow> 'r field" where
  "bool_field name get upd = (name, \<lambda>v r. map_option (\<lambda>b. upd (\<lambda>_. b) r) (dec_bool v (get r)))"

definition float64_field ::
  "string \<Rightarrow> ('r \<Rightarrow> rat) \<Rightarrow> ((rat \<Rightarrow> rat) \<Rightarrow> 'r \<Rightarrow> 'r) \<Rightarrow> 'r field" where
  "float64_field name get upd = (name, \<lambda>v r. map_option (\<lambda>f. upd (\<lambda>_. f) r) (dec_float64 v (get r)))"


section \<open>The fuel of the scanner\<close>

text \<open>
  Every scanned value leaves less input than it got, so the fuel of \<open>scan_json\<close> is enough:
  more of it changes nothing.
\<close>

lemma skip_ws_Cons: "skip_ws s = c # t \<Longrightarrow> length t < length s"
  using length_dropWhile_le [of is_ws s] by (simp add: skip_ws_def)

lemma scan_raw_shorter: "scan_raw s = Scanned v r \<Longrightarrow> length r < length s"
  by (induction s arbitrary: v rule: scan_raw.induct) (auto split: scan.splits if_splits list.splits)

lemma scan_string_shorter: "scan_string s = Scanned v r \<Longrightarrow> length r < length s"
  by (auto simp: scan_string_def dest: scan_raw_shorter split: scan.splits option.splits)

lemma scan_digits_shorter: "scan_digits s = Scanned v r \<Longrightarrow> length r < length s"
  by (cases s) (auto simp: scan_digits_def less_Suc_eq_le length_dropWhile_le split: if_splits)

lemma scan_frac_shorter: "scan_frac s = Scanned v r \<Longrightarrow> length r \<le> length s"
  by (auto simp: scan_frac_def dest: scan_digits_shorter split: list.splits scan.splits if_splits)

lemma scan_exp_shorter: "scan_exp s = Scanned v r \<Longrightarrow> length r \<le> length s"
  by (auto simp: scan_exp_def Let_def dest!: scan_digits_shorter split: list.splits scan.splits if_splits)

lemma scan_number_shorter:
  assumes "scan_number s = Scanned v r" shows "length r < length s"
proof -
  define t where "t = drop (length (if has_prefix s ''-'' then ''-'' else [])) s"
  define i where "i = (if has_prefix t ''0'' then Scanned ''0'' (drop 1 t) else scan_digits t)"
  have t: "length t \<le> length s" by (simp add: t_def)
  from assms obtain d u f v1 e where p: "i = Scanned d u" "scan_frac u = Scanned f v1" "scan_exp v1 = Scanned e r"
    unfolding scan_number_def Let_def t_def [symmetric] i_def [symmetric] by (auto split: scan.splits)
  from p(1) have "length u < length t"
    by (auto simp: i_def has_prefix_iff dest: scan_digits_shorter split: if_splits)
  with t scan_frac_shorter [OF p(2)] scan_exp_shorter [OF p(3)] show ?thesis by linarith
qed

lemma scan_lit_shorter: "scan_lit lit v s = Scanned w r \<Longrightarrow> lit \<noteq> [] \<Longrightarrow> length r < length s"
  by (auto simp: scan_lit_def has_prefix_iff split: if_splits)

lemmas shorter = skip_ws_Cons scan_string_shorter scan_number_shorter

lemma scan_shorter:
  "scan_value k s = Scanned v r \<Longrightarrow> length r < length s"
  "scan_elems k s = Scanned vs r \<Longrightarrow> length r < length s"
  "scan_members k s = Scanned ms r \<Longrightarrow> length r < length s"
proof (induction k s and k s and k s arbitrary: v r and vs r and ms r rule: scan_value_scan_elems_scan_members.induct)
  case (2 k s)
  then obtain c t where c: "skip_ws s = c # t" by (cases "skip_ws s") auto
  have tl: "length (tl (skip_ws t)) \<le> length t" using length_dropWhile_le [of is_ws t] by (simp add: skip_ws_def)
  show ?case using 2 c skip_ws_Cons [OF c] tl
    by (fastforce dest: scan_string_shorter scan_number_shorter scan_lit_shorter split: if_splits scan.splits)
next
  case (4 k s)
  then show ?case by (fastforce dest: skip_ws_Cons split: scan.splits list.splits if_splits)
next
  case (6 k s)
  then show ?case by (fastforce dest: shorter split: scan.splits list.splits if_splits)
qed simp_all


text \<open>One more unit of fuel changes nothing, when it changes nothing for the shorter inputs that are
  left inside a list or an object.\<close>

lemma scan_fuel_elems:
  assumes val: "\<And>s'. 2 * length s' < k \<Longrightarrow> scan_value (Suc k) s' = scan_value k s'"
    and el: "\<And>s'. 2 * length s' + 1 < k \<Longrightarrow> scan_elems (Suc k) s' = scan_elems k s'"
    and that: "2 * length s + 1 < Suc k"
  shows "scan_elems (Suc (Suc k)) s = scan_elems (Suc k) s"
proof -
  have v: "scan_value (Suc k) s = scan_value k s" using that by (intro val) simp
  show ?thesis
  proof (cases "scan_value k s")
    case (Scanned x r)
    then show ?thesis
    proof (cases "skip_ws r")
      case (Cons c t)
      have "length t < length s" using skip_ws_Cons [OF Cons] scan_shorter(1) [OF Scanned] by linarith
      then have "2 * length t + 1 < k" using that by linarith
      from el [OF this] show ?thesis
        by (simp only: scan_elems.simps v Scanned scan.case Cons list.case)
    qed (simp only: scan_elems.simps v Scanned scan.case list.case)
  qed (simp_all only: scan_elems.simps v scan.case)
qed

lemma scan_fuel_members:
  assumes val: "\<And>s'. 2 * length s' < k \<Longrightarrow> scan_value (Suc k) s' = scan_value k s'"
    and el: "\<And>s'. 2 * length s' + 1 < k \<Longrightarrow> scan_members (Suc k) s' = scan_members k s'"
    and that: "2 * length s + 1 < Suc k"
  shows "scan_members (Suc (Suc k)) s = scan_members (Suc k) s"
proof (cases "\<exists>q s1 key s2 d s3. skip_ws s = q # s1 \<and> scan_string s1 = Scanned key s2 \<and> skip_ws s2 = d # s3")
  case True
  then obtain q s1 key s2 d s3 where p: "skip_ws s = q # s1" "scan_string s1 = Scanned key s2" "skip_ws s2 = d # s3"
    by blast
  have l: "length s3 < length s" using shorter(1) [OF p(1)] shorter(2) [OF p(2)] shorter(1) [OF p(3)] by linarith
  have v: "scan_value (Suc k) s3 = scan_value k s3" using that l by (intro val) linarith
  show ?thesis
  proof (cases "scan_value k s3")
    case (Scanned x s4)
    then show ?thesis
    proof (cases "skip_ws s4")
      case (Cons c t)
      have "length t < length s" using skip_ws_Cons [OF Cons] scan_shorter(1) [OF Scanned] l by linarith
      then have "2 * length t + 1 < k" using that by linarith
      from el [OF this] show ?thesis
        by (simp only: scan_members.simps p v Scanned scan.case Cons list.case)
    qed (simp only: scan_members.simps p v Scanned scan.case list.case)
  qed (simp_all only: scan_members.simps p v scan.case list.case)
next
  case False
  show ?thesis
  proof (cases "skip_ws s")
    case (Cons q s1)
    show ?thesis
    proof (cases "scan_string s1")
      case (Scanned key s2)
      then have "skip_ws s2 = []" using False Cons by (cases "skip_ws s2") auto
      then show ?thesis by (simp only: scan_members.simps Cons Scanned scan.case list.case)
    qed (simp_all only: scan_members.simps Cons scan.case list.case)
  qed (simp only: scan_members.simps list.case)
qed

lemma scan_fuel_step:
  "(2 * length s < k \<longrightarrow> scan_value (Suc k) s = scan_value k s) \<and>
   (2 * length s + 1 < k \<longrightarrow> scan_elems (Suc k) s = scan_elems k s \<and> scan_members (Suc k) s = scan_members k s)"
proof (induction k arbitrary: s)
  case (Suc k)
  have val: "scan_value (Suc k) s' = scan_value k s'" if "2 * length s' < k" for s' using Suc.IH that by blast
  have el: "scan_elems (Suc k) s' = scan_elems k s'" "scan_members (Suc k) s' = scan_members k s'"
    if "2 * length s' + 1 < k" for s' using Suc.IH that by blast+
  have "scan_value (Suc (Suc k)) s = scan_value (Suc k) s" if "2 * length s < Suc k"
  proof (cases "skip_ws s")
    case (Cons c t)
    then have "2 * length t + 1 < k" using skip_ws_Cons [OF Cons] that by linarith
    from el [OF this] Cons show ?thesis
      by (simp only: scan_value.simps list.case)
  qed simp
  moreover have "scan_elems (Suc (Suc k)) s = scan_elems (Suc k) s" if "2 * length s + 1 < Suc k"
    by (rule scan_fuel_elems [OF val el(1) that])
  moreover have "scan_members (Suc (Suc k)) s = scan_members (Suc k) s" if "2 * length s + 1 < Suc k"
    by (rule scan_fuel_members [OF val el(2) that])
  ultimately show ?case by blast
qed simp

lemma scan_fuel: "scan_value (Suc (2 * length s) + n) s = scan_value (Suc (2 * length s)) s"
proof (induction n)
  case (Suc n)
  have "scan_value (Suc (Suc (2 * length s) + n)) s = scan_value (Suc (2 * length s) + n) s"
    using scan_fuel_step [of s "Suc (2 * length s) + n"] by simp
  then show ?case using Suc by simp
qed simp

end
