(* ===== verification/Base64.thy ===== *)
theory Base64
  imports Prelude
begin

text \<open>
  Standard base64 with padding (encoding/base64, \<open>StdEncoding\<close>) and the streaming
  \<open>base64Reader\<close> of internal/adapters/nzbget.go, which encodes a payload one chunk at a
  time while the request body is sent.
\<close>

definition b64_digit :: "nat \<Rightarrow> char" where
  "b64_digit n =
     (if n < 26 then byte_of (65 + n) else if n < 52 then byte_of (71 + n)
      else if n < 62 then byte_of (n - 4) else if n = 62 then CHR ''+'' else CHR ''/'')"

fun b64_encode :: "bytes \<Rightarrow> string" where
  "b64_encode [] = []"
| "b64_encode [a] =
     (let x = of_char a in [b64_digit (x div 4), b64_digit (x mod 4 * 16), CHR ''='', CHR ''=''])"
| "b64_encode [a, b] =
     (let x = of_char a; y = of_char b in
      [b64_digit (x div 4), b64_digit (x mod 4 * 16 + y div 16), b64_digit (y mod 16 * 4), CHR ''=''])"
| "b64_encode (a # b # c # s) =
     (let x = of_char a; y = of_char b; z = of_char c in
      b64_digit (x div 4) # b64_digit (x mod 4 * 16 + y div 16)
      # b64_digit (y mod 16 * 4 + z div 64) # b64_digit (z mod 64) # b64_encode s)"

text \<open>\<open>StdEncoding.EncodedLen\<close>.\<close>

definition EncodedLen :: "nat \<Rightarrow> nat" where
  "EncodedLen n = (n + 2) div 3 * 4"


section \<open>The reader\<close>

record base64Reader =
  br_src :: bytes
  br_out :: string

definition base64Chunk :: nat where
  "base64Chunk = 48 * 1024"

text \<open>
  \<open>Read(p)\<close> for a buffer of \<open>p\<close> bytes: the bytes copied and the reader afterwards;
  \<open>None\<close> is \<open>io.EOF\<close>. The buffer \<open>buf\<close> of the struct is reused storage that holds
  nothing between calls but what \<open>out\<close> still points to.
\<close>

definition base64_Read :: "base64Reader \<Rightarrow> nat \<Rightarrow> string option \<times> base64Reader" where
  "base64_Read r p =
     (if br_out r = [] \<and> br_src r = [] then (None, r)
      else let r' = (if br_out r = []
                     then let n = min (length (br_src r)) base64Chunk in
                       r\<lparr>br_out := b64_encode (take n (br_src r)), br_src := drop n (br_src r)\<rparr>
                     else r)
           in (Some (take p (br_out r')), r'\<lparr>br_out := drop p (br_out r')\<rparr>))"

text \<open>A client that reads with buffers of the given sizes until it sees \<open>io.EOF\<close>: what it
  got, and whether it saw the end.\<close>

fun base64_drain :: "nat list \<Rightarrow> base64Reader \<Rightarrow> string \<times> bool" where
  "base64_drain [] r = ([], False)"
| "base64_drain (p # ps) r =
     (case base64_Read r p of
        (None, r') \<Rightarrow> ([], True)
      | (Some b, r') \<Rightarrow> (case base64_drain ps r' of (bs, eof) \<Rightarrow> (b @ bs, eof)))"


section \<open>Lemmas\<close>

lemma length_b64_encode: "length (b64_encode s) = EncodedLen (length s)"
proof (induction s rule: b64_encode.induct)
  case (4 a b c s)
  have "(length s + 5) div 3 = Suc ((length s + 2) div 3)" by presburger
  with "4" show ?case by (simp add: EncodedLen_def Let_def add.commute)
qed (auto simp: EncodedLen_def Let_def)

lemma b64_encode_eq_Nil [simp]: "b64_encode s = [] \<longleftrightarrow> s = []"
  by (induction s rule: b64_encode.induct) (auto simp: Let_def)

text \<open>Encoding splits at a multiple of three bytes.\<close>

lemma b64_encode_append:
  "3 dvd length s \<Longrightarrow> b64_encode (s @ t) = b64_encode s @ b64_encode t"
proof (induction s rule: b64_encode.induct)
  case (4 a b c s)
  from "4.prems" have "3 dvd length s" by simp presburger
  with "4.IH" show ?case by (simp add: Let_def)
next
  case (2 a)
  then show ?case by simp
next
  case (3 a b)
  then have False by simp presburger
  then show ?case ..
qed simp

definition br_rest :: "base64Reader \<Rightarrow> string" where
  "br_rest r = br_out r @ b64_encode (br_src r)"

lemma br_rest_Nil_iff: "br_rest r = [] \<longleftrightarrow> br_out r = [] \<and> br_src r = []"
  by (simp add: br_rest_def)

lemma b64_encode_chunk:
  "b64_encode (take (min (length s) base64Chunk) s)
     @ b64_encode (drop (min (length s) base64Chunk) s) = b64_encode s"
proof (cases "length s \<le> base64Chunk")
  case False
  then have "3 dvd length (take (min (length s) base64Chunk) s)"
    by (simp add: base64Chunk_def min_def)
  from b64_encode_append [OF this, of "drop (min (length s) base64Chunk) s"]
  show ?thesis by simp
qed simp

lemma base64_Read_None: "fst (base64_Read r p) = None \<longleftrightarrow> br_rest r = []"
  by (auto simp: base64_Read_def br_rest_Nil_iff Let_def)

lemma base64_Read_Some:
  "base64_Read r p = (Some b, r') \<Longrightarrow>
     br_rest r = b @ br_rest r' \<and> (0 < p \<longrightarrow> length (br_rest r') < length (br_rest r))"
proof -
  assume read: "base64_Read r p = (Some b, r')"
  define r1 where "r1 = (if br_out r = []
     then r\<lparr>br_out := b64_encode (take (min (length (br_src r)) base64Chunk) (br_src r)),
            br_src := drop (min (length (br_src r)) base64Chunk) (br_src r)\<rparr> else r)"
  from read have ne: "\<not> (br_out r = [] \<and> br_src r = [])"
    and b: "b = take p (br_out r1)" and r': "r' = r1\<lparr>br_out := drop p (br_out r1)\<rparr>"
    by (auto simp: base64_Read_def r1_def Let_def split: if_splits)
  have rest: "br_rest r1 = br_rest r"
    by (simp add: r1_def br_rest_def b64_encode_chunk)
  have "br_out r1 \<noteq> []" using ne by (auto simp: r1_def base64Chunk_def)
  then have "0 < length (br_out r1)" by simp
  have r1: "br_rest r1 = b @ br_rest r'"
    using b r' by (simp add: br_rest_def)
  moreover have "length (br_rest r') < length (br_rest r1)" if "0 < p"
    using \<open>0 < length (br_out r1)\<close> that r' by (simp add: br_rest_def)
  ultimately show ?thesis using rest by simp
qed


section \<open>Properties\<close>

lemma base64_drain_all:
  "list_all ((<) 0) ps \<Longrightarrow> length (br_rest r) < length ps \<Longrightarrow> base64_drain ps r = (br_rest r, True)"
proof (induction ps arbitrary: r)
  case (Cons p ps)
  show ?case
  proof (cases "base64_Read r p")
    case (Pair b r')
    show ?thesis
    proof (cases b)
      case None
      then have "br_rest r = []" using Pair base64_Read_None [of r p] by simp
      then show ?thesis using Pair None by simp
    next
      case (Some bs)
      then have *: "br_rest r = bs @ br_rest r'" "length (br_rest r') < length (br_rest r)"
        using Pair base64_Read_Some [of r p bs r'] Cons.prems(1) by auto
      have "length (br_rest r') < length ps" using Cons.prems(2) *(2) unfolding list.size by linarith
      with Cons have "base64_drain ps r' = (br_rest r', True)" by simp
      then show ?thesis using Pair Some * by simp
    qed
  qed
qed simp

text \<open>C34: Streaming the base64 of a payload is encoding it. However the HTTP client sizes its
  reads, as long as each has room for a byte, the reader hands out exactly the standard base64
  of the payload and then ends, after at most one read more than it has bytes.\<close>

theorem base64_stream:
  assumes "list_all ((<) 0) ps" "EncodedLen (length src) < length ps"
  shows "base64_drain ps \<lparr>br_src = src, br_out = ''''\<rparr> = (b64_encode src, True)"
  using base64_drain_all [OF assms(1), of "\<lparr>br_src = src, br_out = ''''\<rparr>"] assms(2)
  by (simp add: br_rest_def length_b64_encode)

theorem base64_stream_witness:
  "base64_drain [1, 7, 2, 1, 1, 1, 1, 1, 1] \<lparr>br_src = ''nzb!'', br_out = ''''\<rparr> = (''bnpiIQ=='', True)"
proof -
  have "b64_encode ''nzb!'' = ''bnpiIQ==''" by code_simp
  then show ?thesis using base64_stream [of "[1, 7, 2, 1, 1, 1, 1, 1, 1]" "''nzb!''"] by (simp add: EncodedLen_def)
qed


section \<open>Decoding\<close>

text \<open>
  \<open>StdEncoding.Decode\<close>, as encoding/json uses it for a \<open>[]byte\<close> field: line ends are skipped,
  groups of four digits are three bytes, the last group may end in one or two padding
  characters; bits that padding leaves over are not checked. \<open>None\<close> is a
  \<open>CorruptInputError\<close>.
\<close>

definition b64_val :: "char \<Rightarrow> nat option" where
  "b64_val c =
     (let b = (of_char c :: nat) in
      if 65 \<le> b \<and> b \<le> 90 then Some (b - 65)
      else if 97 \<le> b \<and> b \<le> 122 then Some (b - 71)
      else if 48 \<le> b \<and> b \<le> 57 then Some (b + 4)
      else if c = CHR ''+'' then Some 62
      else if c = CHR ''/'' then Some 63
      else None)"

fun b64_quanta :: "string \<Rightarrow> bytes option" where
  "b64_quanta [] = Some []"
| "b64_quanta [a, b, c, d] =
     (case (b64_val a, b64_val b, b64_val c, b64_val d) of
        (Some x, Some y, Some z, Some u) \<Rightarrow>
          Some [byte_of (x * 4 + y div 16), byte_of (y mod 16 * 16 + z div 4), byte_of (z mod 4 * 64 + u)]
      | (Some x, Some y, Some z, None) \<Rightarrow>
          if d = CHR ''='' then Some [byte_of (x * 4 + y div 16), byte_of (y mod 16 * 16 + z div 4)] else None
      | (Some x, Some y, None, None) \<Rightarrow>
          if c = CHR ''='' \<and> d = CHR ''='' then Some [byte_of (x * 4 + y div 16)] else None
      | _ \<Rightarrow> None)"
| "b64_quanta (a # b # c # d # s) =
     (case (b64_val a, b64_val b, b64_val c, b64_val d) of
        (Some x, Some y, Some z, Some u) \<Rightarrow>
          map_option (\<lambda>t. byte_of (x * 4 + y div 16) # byte_of (y mod 16 * 16 + z div 4)
                          # byte_of (z mod 4 * 64 + u) # t) (b64_quanta s)
      | _ \<Rightarrow> None)"
| "b64_quanta _ = None"

definition b64_decode :: "string \<Rightarrow> bytes option" where
  "b64_decode s = b64_quanta (filter (\<lambda>c. c \<noteq> byte_of 10 \<and> c \<noteq> byte_of 13) s)"

lemma b64_val_digit: "n < 64 \<Longrightarrow> b64_val (b64_digit n) = Some n"
  by (auto simp: b64_val_def b64_digit_def byte_of_def Let_def)

lemma b64_val_pad: "b64_val (CHR ''='') = None"
  by (simp add: b64_val_def)

lemma byte_parts:
  fixes x y z :: nat
  assumes "x < 256" "y < 256" "z < 256"
  shows "x div 4 * 4 + (x mod 4 * 16 + y div 16) div 16 = x"
    "(x mod 4 * 16 + y div 16) mod 16 * 16 + (y mod 16 * 4 + z div 64) div 4 = y"
    "(y mod 16 * 4 + z div 64) mod 4 * 64 + z mod 64 = z"
proof -
  have b: "y div 16 < 16" "z div 64 < 4" using assms by linarith+
  have "(x mod 4 * 16 + y div 16) div 16 = x mod 4" "(x mod 4 * 16 + y div 16) mod 16 = y div 16"
    "(y mod 16 * 4 + z div 64) div 4 = y mod 16" "(y mod 16 * 4 + z div 64) mod 4 = z div 64"
    using b by simp_all
  then show "x div 4 * 4 + (x mod 4 * 16 + y div 16) div 16 = x"
    "(x mod 4 * 16 + y div 16) mod 16 * 16 + (y mod 16 * 4 + z div 64) div 4 = y"
    "(y mod 16 * 4 + z div 64) mod 4 * 64 + z mod 64 = z"
    by (simp_all only: div_mult_mod_eq)
qed

lemma b64_small:
  fixes x y z :: nat
  assumes "x < 256" "y < 256" "z < 256"
  shows "x div 4 < 64" "x mod 4 * 16 < 64" "x mod 4 * 16 + y div 16 < 64" "y mod 16 * 4 < 64"
    "y mod 16 * 4 + z div 64 < 64" "z mod 64 < 64"
  using assms by linarith+

lemma byte_of_of_char [simp]: "byte_of (of_char c) = c"
  by (simp add: byte_of_def)

lemma of_char_256: "(of_char c :: nat) < 256"
  by simp

lemma b64_quanta_encode: "b64_quanta (b64_encode s) = Some s"
proof (induction s rule: b64_encode.induct)
  case (2 a)
  note small = b64_small [OF of_char_256 [of a] zero_less_numeral zero_less_numeral]
  show ?case
    using byte_parts(1) [OF of_char_256 [of a] zero_less_numeral, of 0] small
    by (simp add: Let_def b64_val_digit b64_val_pad)
next
  case (3 a b)
  note small = b64_small [OF of_char_256 [of a] of_char_256 [of b] zero_less_numeral]
  show ?case
    using byte_parts(1,2) [OF of_char_256 [of a] of_char_256 [of b], of 0] small
    by (simp add: Let_def b64_val_digit b64_val_pad)
next
  case (4 a b c s)
  note small = b64_small [OF of_char_256 [of a] of_char_256 [of b] of_char_256 [of c]]
    and parts = byte_parts [OF of_char_256 [of a] of_char_256 [of b] of_char_256 [of c]]
  show ?case
    using 4 small parts
    by (cases "b64_encode s") (simp_all add: Let_def b64_val_digit)
qed simp

lemma b64_encode_no_newline: "c \<in> set (b64_encode s) \<Longrightarrow> c \<noteq> byte_of 10 \<and> c \<noteq> byte_of 13"
proof -
  have d: "b64_digit n \<noteq> byte_of 10 \<and> b64_digit n \<noteq> byte_of 13" if "n < 64" for n
  proof -
    have "b64_val (byte_of 10) = None" "b64_val (byte_of 13) = None" by code_simp+
    then show ?thesis using b64_val_digit [OF that] by auto
  qed
  have p: "CHR ''='' \<noteq> byte_of 10" "CHR ''='' \<noteq> byte_of 13" by code_simp+
  show "c \<in> set (b64_encode s) \<Longrightarrow> ?thesis"
  proof (induction s rule: b64_encode.induct)
    case (2 a)
    then show ?case using d b64_small [OF of_char_256 [of a] zero_less_numeral zero_less_numeral] p
      by (auto simp: Let_def)
  next
    case (3 a b)
    then show ?case using d b64_small [OF of_char_256 [of a] of_char_256 [of b] zero_less_numeral] p
      by (auto simp: Let_def)
  next
    case (4 a b c s)
    then show ?case using d b64_small [OF of_char_256 [of a] of_char_256 [of b] of_char_256 [of c]] p
      by (auto simp: Let_def)
  qed simp
qed

lemma b64_decode_encode: "b64_decode (b64_encode s) = Some s"
proof -
  have "filter (\<lambda>c. c \<noteq> byte_of 10 \<and> c \<noteq> byte_of 13) (b64_encode s) = b64_encode s"
    using b64_encode_no_newline by (simp add: filter_id_conv)
  then show ?thesis by (simp add: b64_decode_def b64_quanta_encode)
qed

end
