(* ===== verification/Net.thy ===== *)
theory Net
  imports Url Json Base64
begin

text \<open>
  HTTP as the adapters use it, and the parameters of the model. Everything outside the
  repository that an adapter reaches is a field of the record \<open>ext\<close>: the exchange of one
  request for a response over the network, the cookie jar, the random source, the clock,
  and the texts of library errors. All act on an arbitrary state \<open>'w\<close> of the world.
\<close>

record http_client =
  hc_Timeout :: nat            \<comment> \<open>seconds\<close>
  hc_Jar :: "nat option"       \<comment> \<open>which cookie jar, if any\<close>
  hc_guarded :: bool           \<comment> \<open>pushedTransport and sameOrigin are installed (guard)\<close>

record http_request =
  rq_Method :: string
  rq_URL :: string
  rq_Header :: "(string \<times> string) list"
  rq_Body :: bytes
  rq_ContentLength :: int

record http_response =
  rs_StatusCode :: int
  rs_Body :: bytes

record 'w ext =
  x_Do :: "http_client \<Rightarrow> http_request \<Rightarrow> 'w \<Rightarrow> (go_error + http_response) \<times> 'w"
  x_NewJar :: "'w \<Rightarrow> nat \<times> 'w"
  x_Cookies :: "nat \<Rightarrow> string \<Rightarrow> 'w \<Rightarrow> (string \<times> string) list"
  x_Rand :: "nat \<Rightarrow> 'w \<Rightarrow> bytes option \<times> 'w"
  x_UnixNano :: "'w \<Rightarrow> int"
  x_Boundary :: "'w \<Rightarrow> string \<times> 'w"
  x_IsPrint :: "nat \<Rightarrow> bool"
  x_JsonErr :: "string \<Rightarrow> string"
  x_BytesRead :: "string \<Rightarrow> nat"
  x_RawText :: "json \<Rightarrow> string"
  x_UrlErr :: "string \<Rightarrow> string"
  x_Sha256 :: "bytes \<Rightarrow> bytes"

text \<open>\<open>http.NewRequestWithContext\<close> fails only when the URL does not parse.\<close>

definition NewRequest ::
  "'w ext \<Rightarrow> string \<Rightarrow> string \<Rightarrow> bytes \<Rightarrow> (string \<times> string) list \<Rightarrow> go_error + http_request" where
  "NewRequest x meth url body hdr =
     (case Parse url of
        None \<Rightarrow> Inl (UrlError ''parse'' url (ErrText (x_UrlErr x url)))
      | Some _ \<Rightarrow>
        Inr \<lparr>rq_Method = meth, rq_URL = url, rq_Header = hdr, rq_Body = body,
             rq_ContentLength = int (length body)\<rparr>)"

definition basic_auth :: "string \<Rightarrow> string \<Rightarrow> string \<times> string" where
  "basic_auth user pass = (''Authorization'', ''Basic '' @ b64_encode (user @ '':'' @ pass))"


section \<open>Response caps (responses.go)\<close>

definition maxResponse :: nat where
  "maxResponse = 2 ^ 20"

definition maxListResponse :: nat where
  "maxListResponse = 32 * 2 ^ 20"

text \<open>
  \<open>decodeCapped\<close> reads through an \<open>io.LimitedReader\<close> of \<open>limit + 1\<close> bytes, so the decoder
  sees at most those. When it fails, the error is the cap if the reader is exhausted
  (\<open>lr.N <= 0\<close>): after an input that ended inside the value the whole reader has been
  consumed, and otherwise as many bytes as the decoder had buffered (\<open>x_BytesRead\<close>).
\<close>

definition decodeCapped ::
  "'w ext \<Rightarrow> bytes \<Rightarrow> nat \<Rightarrow> (json \<Rightarrow> 'a option) \<Rightarrow> go_error + 'a" where
  "decodeCapped x body limit dec =
     (let seen = take (limit + 1) body;
          over = ErrText (''response exceeds '' @ itoa (int (limit div 2 ^ 20)) @ '' MiB'');
          bad = (if limit < min (x_BytesRead x body) (length seen) then over
                 else ErrText (x_JsonErr x seen))
      in case scan_json seen of
           Scanned v _ \<Rightarrow> (case dec v of Some r \<Rightarrow> Inr r | None \<Rightarrow> Inl bad)
         | Scan_eof \<Rightarrow> Inl (if limit < length seen then over else ErrText (x_JsonErr x seen))
         | Scan_syntax \<Rightarrow> Inl bad)"

text \<open>\<open>json.Unmarshal\<close> of a \<open>json.RawMessage\<close> taken from a response: \<open>None\<close> is the empty
  message of a missing member, which is no JSON at all.\<close>

definition unmarshal_raw :: "'w ext \<Rightarrow> json option \<Rightarrow> (json \<Rightarrow> 'a option) \<Rightarrow> go_error + 'a" where
  "unmarshal_raw x res dec =
     (case res of
        None \<Rightarrow> Inl (ErrText (x_JsonErr x ''''))
      | Some v \<Rightarrow>
        (case dec v of Some r \<Rightarrow> Inr r | None \<Rightarrow> Inl (ErrText (x_JsonErr x (x_RawText x v)))))"


section \<open>Lemmas\<close>

lemma decodeCapped_prefix:
  "decodeCapped x body limit dec = Inr r \<Longrightarrow>
     \<exists>v rest. scan_json (take (limit + 1) body) = Scanned v rest \<and> dec v = Some r"
  by (auto simp: decodeCapped_def Let_def split: scan.splits option.splits)


section \<open>A concrete environment\<close>

text \<open>An instance of the parameters to evaluate the model on: a network that refuses every
  request, and the identity in place of SHA-256.\<close>

definition demo_ext :: "unit ext" where
  "demo_ext = \<lparr>x_Do = (\<lambda>c rq w. (Inl (ErrText ''offline''), w)), x_NewJar = (\<lambda>w. (0, w)),
     x_Cookies = (\<lambda>j u w. []), x_Rand = (\<lambda>n w. (Some (replicate n (CHR ''r'')), w)),
     x_UnixNano = (\<lambda>w. 0), x_Boundary = (\<lambda>w. (''boundary'', w)), x_IsPrint = (\<lambda>n. True),
     x_JsonErr = (\<lambda>s. ''invalid JSON''), x_BytesRead = length, x_RawText = (\<lambda>j. ''''),
     x_UrlErr = (\<lambda>s. ''invalid URL''), x_Sha256 = (\<lambda>bs. bs)\<rparr>"

end
