(* ===== verification/Nzbget.thy ===== *)
theory Nzbget
  imports Adapters Net
begin

text \<open>
  The NZBGet adapter (internal/adapters/nzbget.go): JSON-RPC over one endpoint, an NZB
  added by content or by URL, and the fold of the queue (\<open>listgroups\<close>) and the
  \<open>history\<close> into a \<open>JobView\<close>.
\<close>

unbundle bit_operations_syntax

record NZBGet =
  nz_BaseURL :: string
  nz_Username :: string
  nz_Password :: string
  nz_Category :: string
  nz_HTTP :: http_client

definition NewNZBGet :: "string \<Rightarrow> string \<Rightarrow> string \<Rightarrow> string \<Rightarrow> NZBGet" where
  "NewNZBGet baseURL user pass category =
     \<lparr>nz_BaseURL = trim_right baseURL ''/'', nz_Username = user, nz_Password = pass,
      nz_Category = category,
      nz_HTTP = \<lparr>hc_Timeout = 30, hc_Jar = None, hc_guarded = False\<rparr>\<rparr>"


section \<open>JSON-RPC\<close>

record rpc =
  rpc_Result :: "json option"
  rpc_Error :: "string option"

definition rpc_fields :: "rpc field list" where
  "rpc_fields =
     [(''result'', \<lambda>v r. Some (r\<lparr>rpc_Result := Some v\<rparr>)),
      (''error'', \<lambda>v r.
         (case v of
            JNull \<Rightarrow> Some (r\<lparr>rpc_Error := None\<rparr>)
          | _ \<Rightarrow> map_option (\<lambda>m. r\<lparr>rpc_Error := Some m\<rparr>)
                 (dec_struct [(''message'', dec_string)]
                    (case rpc_Error r of None \<Rightarrow> '''' | Some m \<Rightarrow> m) v)))]"

definition dec_rpc :: "json \<Rightarrow> rpc option" where
  "dec_rpc v = dec_struct rpc_fields \<lparr>rpc_Result = None, rpc_Error = None\<rparr> v"

text \<open>\<open>send\<close>: the request with a body of exactly \<open>len\<close> bytes; the answer is the raw
  \<open>result\<close> member.\<close>

definition NZBGet_send ::
  "'w ext \<Rightarrow> NZBGet \<Rightarrow> string \<Rightarrow> int \<Rightarrow> bytes \<Rightarrow> 'w \<Rightarrow> (go_error + json option) \<times> 'w" where
  "NZBGet_send x n meth len body w =
     (case NewRequest x ''POST'' (nz_BaseURL n @ ''/jsonrpc'') body
             ((''Content-Type'', ''application/json'')
              # (if nz_Username n \<noteq> '''' then [basic_auth (nz_Username n) (nz_Password n)] else [])) of
        Inl e \<Rightarrow> (Inl e, w)
      | Inr req \<Rightarrow>
        (case x_Do x (nz_HTTP n) (req\<lparr>rq_ContentLength := len\<rparr>) w of
           (Inl e, w') \<Rightarrow> (Inl e, w')
         | (Inr resp, w') \<Rightarrow>
           if rs_StatusCode resp \<noteq> 200
           then (Inl (newStatusError (''nzbget '' @ meth) (rs_StatusCode resp) (rs_Body resp)), w')
           else
             (case decodeCapped x (rs_Body resp)
                     (if meth = ''listgroups'' \<or> meth = ''history'' then maxListResponse else maxResponse)
                     dec_rpc of
                Inl e \<Rightarrow> (Inl e, w')
              | Inr r \<Rightarrow>
                (case rpc_Error r of
                   Some m \<Rightarrow>
                     (Inl (ErrText (''nzbget '' @ meth @ '': '' @ truncate_utf8 m maxErrorDetail)), w')
                 | None \<Rightarrow> (Inr (rpc_Result r), w')))))"

text \<open>The request \<open>call\<close> marshals: a map, so its keys are sorted; \<open>params\<close> without
  arguments is the nil slice, which is encoded as null.\<close>

definition call_body :: "string \<Rightarrow> json list \<Rightarrow> json" where
  "call_body meth params =
     JObj [(''id'', JInt 1), (''method'', JStr meth),
           (''params'', if params = [] then JNull else JArr params)]"

definition NZBGet_call ::
  "'w ext \<Rightarrow> NZBGet \<Rightarrow> string \<Rightarrow> json list \<Rightarrow> 'w \<Rightarrow> (go_error + json option) \<times> 'w" where
  "NZBGet_call x n meth params w =
     (let body = marshal (call_body meth params)
      in NZBGet_send x n meth (int (length body)) body w)"


section \<open>Add\<close>

text \<open>The body \<open>appendContent\<close> streams: a head, the content in base64, and an end cut from
  the marshalled remaining parameters.\<close>

definition append_head :: "string \<Rightarrow> string" where
  \<open>append_head filename = ''{"id":1,"method":"append","params":['' @ marshal (JStr filename) @ '',"''\<close>

definition append_end :: "json list \<Rightarrow> string" where
  \<open>append_end rest = ''",'' @ tl (marshal (JArr rest)) @ ''}''\<close>

definition append_body :: "string \<Rightarrow> bytes \<Rightarrow> json list \<Rightarrow> string" where
  "append_body filename content rest =
     append_head filename
     @ fst (base64_drain (replicate (EncodedLen (length content) + 1) (32 * 1024))
              \<lparr>br_src = content, br_out = []\<rparr>)
     @ append_end rest"

definition append_length :: "string \<Rightarrow> bytes \<Rightarrow> json list \<Rightarrow> int" where
  "append_length filename content rest =
     int (length (append_head filename) + EncodedLen (length content) + length (append_end rest))"

definition NZBGet_appendContent ::
  "'w ext \<Rightarrow> NZBGet \<Rightarrow> string \<Rightarrow> bytes \<Rightarrow> json list \<Rightarrow> 'w \<Rightarrow> (go_error + json option) \<times> 'w" where
  "NZBGet_appendContent x n filename content rest w =
     NZBGet_send x n ''append'' (append_length filename content rest)
       (append_body filename content rest) w"

definition append_rest :: "string \<Rightarrow> json list" where
  "append_rest category =
     [JStr category, JInt 0, JBool False, JBool False, JStr '''', JInt 0, JStr ''FORCE'']"

definition NZBGet_Add :: "'w ext \<Rightarrow> NZBGet \<Rightarrow> Job \<Rightarrow> 'w \<Rightarrow> (go_error + string) \<times> 'w" where
  "NZBGet_Add x n j w =
     (let name = trim_space (job_Title j);
          name = (if name = '''' then ''download'' else name);
          category = (if job_Category j = '''' then nz_Category n else job_Category j);
          rest = append_rest category
      in case (if job_Payload j \<noteq> []
               then NZBGet_appendContent x n (payloadFileName (job_PayloadName j) name ''.nzb'')
                      (job_Payload j) rest w
               else NZBGet_call x n ''append'' (JStr (name @ ''.nzb'') # JStr (job_Source j) # rest) w) of
           (Inl e, w') \<Rightarrow> (Inl e, w')
         | (Inr res, w') \<Rightarrow>
           (case unmarshal_raw x res (\<lambda>v. dec_int64 v 0) of
              Inl e \<Rightarrow>
                (Inl (ErrText (''nzbget append: bad result ''
                   @ (case res of None \<Rightarrow> '''' | Some v \<Rightarrow> x_RawText x v))), w')
            | Inr nzbID \<Rightarrow>
              if nzbID \<le> 0
              then (Inl (ErrText (''nzbget append rejected the source (id='' @ itoa nzbID @ '')'')), w')
              else (Inr (itoa nzbID), w')))"


section \<open>Folding the queue and the history\<close>

record nzbGroup =
  g_NZBID :: int
  g_NZBName :: string
  g_Status :: string
  g_FileSizeMB :: int
  g_FileSizeLo :: int
  g_FileSizeHi :: int
  g_DownloadedSizeMB :: int
  g_DownloadedSizeLo :: int
  g_DownloadedSizeHi :: int
  g_RemainingSizeMB :: int
  g_RemainingSizeLo :: int
  g_RemainingSizeHi :: int
  g_DownloadRate :: int
  g_Health :: int
  g_CriticalHealth :: int
  g_PostStageProgress :: int

definition zero_nzbGroup :: nzbGroup where
  "zero_nzbGroup = \<lparr>g_NZBID = 0, g_NZBName = '''', g_Status = '''', g_FileSizeMB = 0,
     g_FileSizeLo = 0, g_FileSizeHi = 0, g_DownloadedSizeMB = 0, g_DownloadedSizeLo = 0,
     g_DownloadedSizeHi = 0, g_RemainingSizeMB = 0, g_RemainingSizeLo = 0, g_RemainingSizeHi = 0,
     g_DownloadRate = 0, g_Health = 0, g_CriticalHealth = 0, g_PostStageProgress = 0\<rparr>"

definition nzbGroup_fields :: "nzbGroup field list" where
  "nzbGroup_fields =
     [int64_field ''NZBID'' g_NZBID g_NZBID_update,
      string_field ''NZBName'' g_NZBName g_NZBName_update,
      string_field ''Status'' g_Status g_Status_update,
      int64_field ''FileSizeMB'' g_FileSizeMB g_FileSizeMB_update,
      int64_field ''FileSizeLo'' g_FileSizeLo g_FileSizeLo_update,
      int64_field ''FileSizeHi'' g_FileSizeHi g_FileSizeHi_update,
      int64_field ''DownloadedSizeMB'' g_DownloadedSizeMB g_DownloadedSizeMB_update,
      int64_field ''DownloadedSizeLo'' g_DownloadedSizeLo g_DownloadedSizeLo_update,
      int64_field ''DownloadedSizeHi'' g_DownloadedSizeHi g_DownloadedSizeHi_update,
      int64_field ''RemainingSizeMB'' g_RemainingSizeMB g_RemainingSizeMB_update,
      int64_field ''RemainingSizeLo'' g_RemainingSizeLo g_RemainingSizeLo_update,
      int64_field ''RemainingSizeHi'' g_RemainingSizeHi g_RemainingSizeHi_update,
      int64_field ''DownloadRate'' g_DownloadRate g_DownloadRate_update,
      int32_field ''Health'' g_Health g_Health_update,
      int32_field ''CriticalHealth'' g_CriticalHealth g_CriticalHealth_update,
      int32_field ''PostStageProgress'' g_PostStageProgress g_PostStageProgress_update]"

definition exact64 :: "int \<Rightarrow> int \<Rightarrow> int \<Rightarrow> int" where
  "exact64 lo hi mb =
     (let v = wrap64 (push_bit 32 hi) OR (lo AND 0xFFFFFFFF)
      in if 0 < v then v else wrap64 (mb * 1024 * 1024))"

record nzbHistory =
  h_NZBID :: int
  h_Name :: string
  h_Status :: string
  h_DestDir :: string
  h_FileSizeMB :: int

definition zero_nzbHistory :: nzbHistory where
  "zero_nzbHistory = \<lparr>h_NZBID = 0, h_Name = '''', h_Status = '''', h_DestDir = '''', h_FileSizeMB = 0\<rparr>"

definition nzbHistory_fields :: "nzbHistory field list" where
  "nzbHistory_fields =
     [int64_field ''NZBID'' h_NZBID h_NZBID_update,
      string_field ''Name'' h_Name h_Name_update,
      string_field ''Status'' h_Status h_Status_update,
      string_field ''DestDir'' h_DestDir h_DestDir_update,
      int64_field ''FileSizeMB'' h_FileSizeMB h_FileSizeMB_update]"

definition foldNZBGroup :: "nzbGroup \<Rightarrow> JobView" where
  "foldNZBGroup g =
     (let remaining = exact64 (g_RemainingSizeLo g) (g_RemainingSizeHi g) (g_RemainingSizeMB g)
      in NewJobView\<lparr>
        jv_Title := g_NZBName g,
        jv_NativeState := g_Status g,
        jv_BytesDone := exact64 (g_DownloadedSizeLo g) (g_DownloadedSizeHi g) (g_DownloadedSizeMB g),
        jv_BytesTotal := exact64 (g_FileSizeLo g) (g_FileSizeHi g) (g_FileSizeMB g),
        jv_SpeedBps := g_DownloadRate g,
        jv_Health := g_Health g,
        jv_EtaSec := (if 0 < g_DownloadRate g then go_quot remaining (g_DownloadRate g) else -1),
        jv_State := (if g_Status g = ''QUEUED'' \<or> g_Status g = ''PAUSED''
                     then StatusQueued else StatusDownloading)\<rparr>)"

definition foldNZBHistory :: "nzbHistory \<Rightarrow> JobView" where
  "foldNZBHistory h =
     (let v = NewJobView\<lparr>jv_Title := h_Name h, jv_NativeState := h_Status h,
                jv_BytesTotal := wrap64 (h_FileSizeMB h * 1024 * 1024)\<rparr>
      in if has_prefix (h_Status h) ''SUCCESS'' then
           v\<lparr>jv_State := StatusCompleted, jv_BytesDone := jv_BytesTotal v,
             jv_Files := (if h_DestDir h \<noteq> '''' then Some [h_DestDir h] else None)\<rparr>
         else if has_prefix (h_Status h) ''DELETED'' then
           v\<lparr>jv_State := StatusFailed, jv_Message := ''removed: '' @ h_Status h\<rparr>
         else v\<lparr>jv_State := StatusFailed, jv_Message := ''nzbget: '' @ h_Status h\<rparr>)"


section \<open>Describe, control, status, adoption, removal\<close>

text \<open>The groups of the queue and the entries of the history, as the client lists them.\<close>

definition NZBGet_list ::
  "'w ext \<Rightarrow> NZBGet \<Rightarrow> string \<Rightarrow> json \<Rightarrow> (json \<Rightarrow> 'a option) \<Rightarrow> 'w \<Rightarrow> (go_error + 'a list) \<times> 'w" where
  "NZBGet_list x n meth arg dec w =
     (case NZBGet_call x n meth [arg] w of
        (Inl e, w') \<Rightarrow> (Inl e, w')
      | (Inr res, w') \<Rightarrow> (unmarshal_raw x res (dec_list dec), w'))"

definition NZBGet_groups :: "'w ext \<Rightarrow> NZBGet \<Rightarrow> 'w \<Rightarrow> (go_error + nzbGroup list) \<times> 'w" where
  "NZBGet_groups x n w =
     NZBGet_list x n ''listgroups'' (JInt 0) (dec_struct nzbGroup_fields zero_nzbGroup) w"

definition NZBGet_history :: "'w ext \<Rightarrow> NZBGet \<Rightarrow> 'w \<Rightarrow> (go_error + nzbHistory list) \<times> 'w" where
  "NZBGet_history x n w =
     NZBGet_list x n ''history'' (JBool False) (dec_struct nzbHistory_fields zero_nzbHistory) w"

definition NZBGet_Describe ::
  "'w ext \<Rightarrow> NZBGet \<Rightarrow> string \<Rightarrow> 'w \<Rightarrow> (go_error + JobView) \<times> 'w" where
  "NZBGet_Describe x n jid w =
     (let want = fst (atoi jid) in
      case NZBGet_groups x n w of
        (queue, w1) \<Rightarrow>
          (case (case queue of Inr gs \<Rightarrow> find (\<lambda>g. g_NZBID g = want) gs | Inl _ \<Rightarrow> None) of
             Some g \<Rightarrow> (Inr (foldNZBGroup g), w1)
           | None \<Rightarrow>
             (case NZBGet_history x n w1 of
                (hist, w2) \<Rightarrow>
                  (case (case hist of Inr hs \<Rightarrow> find (\<lambda>h. h_NZBID h = want) hs | Inl _ \<Rightarrow> None) of
                     Some h \<Rightarrow> (Inr (foldNZBHistory h), w2)
                   | None \<Rightarrow>
                     (case (queue, hist) of
                        (Inl e, _) \<Rightarrow> (Inl (Wrapped (''nzbget describe '' @ jid @ '': '') e), w2)
                      | (Inr _, Inl e) \<Rightarrow> (Inl (Wrapped (''nzbget describe '' @ jid @ '': '') e), w2)
                      | (Inr _, Inr _) \<Rightarrow> (Inr not_found_view, w2))))))"

definition editqueue_args :: "string \<Rightarrow> int \<Rightarrow> json list" where
  "editqueue_args command want = [JStr command, JInt 0, JStr '''', JArr [JInt want]]"

definition NZBGet_edit ::
  "'w ext \<Rightarrow> NZBGet \<Rightarrow> string \<Rightarrow> string \<Rightarrow> 'w \<Rightarrow> go_error option \<times> 'w" where
  "NZBGet_edit x n jid command w =
     (case atoi jid of
        (want, False) \<Rightarrow>
          (Some (ErrText (''nzbget '' @ command @ '': bad id '' @ go_quote (x_IsPrint x) jid)), w)
      | (want, True) \<Rightarrow>
        (case NZBGet_call x n ''editqueue'' (editqueue_args command want) w of
           (Inl e, w') \<Rightarrow> (Some e, w')
         | (Inr _, w') \<Rightarrow> (None, w')))"

definition NZBGet_Pause :: "'w ext \<Rightarrow> NZBGet \<Rightarrow> string \<Rightarrow> 'w \<Rightarrow> go_error option \<times> 'w" where
  "NZBGet_Pause x n jid w = NZBGet_edit x n jid ''GroupPause'' w"

definition NZBGet_Resume :: "'w ext \<Rightarrow> NZBGet \<Rightarrow> string \<Rightarrow> 'w \<Rightarrow> go_error option \<times> 'w" where
  "NZBGet_Resume x n jid w = NZBGet_edit x n jid ''GroupResume'' w"

definition NZBGet_Probe :: "'w ext \<Rightarrow> NZBGet \<Rightarrow> 'w \<Rightarrow> (go_error + string) \<times> 'w" where
  "NZBGet_Probe x n w =
     (case NZBGet_call x n ''version'' [] w of
        (Inl e, w') \<Rightarrow> (Inl e, w')
      | (Inr res, w') \<Rightarrow>
        (case unmarshal_raw x res (\<lambda>v. dec_string v '''') of
           Inr version \<Rightarrow>
             if version = '''' \<or> 32 < length version
                \<or> list_ex (\<lambda>c. (of_char c :: nat) \<le> 32 \<or> c \<in> set ''<>{'') version
             then (Inl (ErrText ''nzbget version: the endpoint did not answer like NZBGet''), w')
             else (Inr version, w')
         | Inl _ \<Rightarrow>
             (Inl (ErrText ''nzbget version: the endpoint did not answer like NZBGet''), w')))"

record nzbStatus =
  st_DownloadRate :: int
  st_ServerPaused :: bool
  st_Download2Paused :: bool
  st_FreeDiskSpaceLo :: int
  st_FreeDiskSpaceHi :: int
  st_FreeDiskSpaceMB :: int
  st_RemainingSizeMB :: int
  st_PostJobCount :: int
  st_ArticleCacheMB :: int
  st_QuotaReached :: bool
  st_NewsServers :: "bool list"   \<comment> \<open>the Active flag of each server\<close>

definition zero_nzbStatus :: nzbStatus where
  "zero_nzbStatus = \<lparr>st_DownloadRate = 0, st_ServerPaused = False, st_Download2Paused = False,
     st_FreeDiskSpaceLo = 0, st_FreeDiskSpaceHi = 0, st_FreeDiskSpaceMB = 0, st_RemainingSizeMB = 0,
     st_PostJobCount = 0, st_ArticleCacheMB = 0, st_QuotaReached = False, st_NewsServers = []\<rparr>"

definition news_server_fields :: "(int \<times> bool) field list" where
  "news_server_fields =
     [int64_field ''ID'' fst (\<lambda>f (i, a). (f i, a)),
      bool_field ''Active'' snd (\<lambda>f (i, a). (i, f a))]"

definition nzbStatus_fields :: "nzbStatus field list" where
  "nzbStatus_fields =
     [int64_field ''DownloadRate'' st_DownloadRate st_DownloadRate_update,
      bool_field ''ServerPaused'' st_ServerPaused st_ServerPaused_update,
      bool_field ''Download2Paused'' st_Download2Paused st_Download2Paused_update,
      int64_field ''FreeDiskSpaceLo'' st_FreeDiskSpaceLo st_FreeDiskSpaceLo_update,
      int64_field ''FreeDiskSpaceHi'' st_FreeDiskSpaceHi st_FreeDiskSpaceHi_update,
      int64_field ''FreeDiskSpaceMB'' st_FreeDiskSpaceMB st_FreeDiskSpaceMB_update,
      int64_field ''RemainingSizeMB'' st_RemainingSizeMB st_RemainingSizeMB_update,
      int32_field ''PostJobCount'' st_PostJobCount st_PostJobCount_update,
      int64_field ''ArticleCacheMB'' st_ArticleCacheMB st_ArticleCacheMB_update,
      bool_field ''QuotaReached'' st_QuotaReached st_QuotaReached_update,
      (''NewsServers'', \<lambda>v r. map_option (\<lambda>ss. r\<lparr>st_NewsServers := map snd ss\<rparr>)
         (dec_list (dec_struct news_server_fields (0, False)) v))]"

definition NZBGet_ClientStatus :: "'w ext \<Rightarrow> NZBGet \<Rightarrow> 'w \<Rightarrow> ClientStatus \<times> 'w" where
  "NZBGet_ClientStatus x n w =
     (let cs = NamedStatus ''nzbget'' in
      case NZBGet_call x n ''status'' [] w of
        (Inl e, w') \<Rightarrow> (cs\<lparr>cs_Error := PublicError (x_IsPrint x) (Some e)\<rparr>, w')
      | (Inr res, w') \<Rightarrow>
        (case unmarshal_raw x res (dec_struct nzbStatus_fields zero_nzbStatus) of
           Inl e \<Rightarrow> (cs\<lparr>cs_Error := Error (x_IsPrint x) e\<rparr>, w')
         | Inr st \<Rightarrow>
           (let active = length (filter (\<lambda>a. a) (st_NewsServers st)) in
            (cs\<lparr>cs_Reachable := True,
                cs_DownBps := st_DownloadRate st,
                cs_Paused := (st_ServerPaused st \<or> st_Download2Paused st),
                cs_FreeDisk := Some (exact64 (st_FreeDiskSpaceLo st) (st_FreeDiskSpaceHi st)
                                       (st_FreeDiskSpaceMB st)),
                cs_Detail :=
                  [(''news_servers_active'',
                    itoa (int active) @ ''/'' @ itoa (int (length (st_NewsServers st)))),
                   (''post_jobs'', itoa (st_PostJobCount st))]
                  @ (if st_QuotaReached st then [(''quota'', ''reached'')] else [])\<rparr>, w'))))"

record nzbAdoptGroup =
  ag_NZBID :: int
  ag_NZBName :: string
  ag_Category :: string

definition nzbAdoptGroup_fields :: "nzbAdoptGroup field list" where
  "nzbAdoptGroup_fields =
     [int64_field ''NZBID'' ag_NZBID ag_NZBID_update,
      string_field ''NZBName'' ag_NZBName ag_NZBName_update,
      string_field ''Category'' ag_Category ag_Category_update]"

definition NZBGet_Adopt :: "'w ext \<Rightarrow> NZBGet \<Rightarrow> 'w \<Rightarrow> (go_error + AdoptedJob list) \<times> 'w" where
  "NZBGet_Adopt x n w =
     (if nz_Category n = '''' then (Inr [], w)
      else
        (case NZBGet_list x n ''listgroups'' (JInt 0)
                (dec_struct nzbAdoptGroup_fields \<lparr>ag_NZBID = 0, ag_NZBName = '''', ag_Category = ''''\<rparr>)
                w of
           (Inl e, w') \<Rightarrow> (Inl e, w')
         | (Inr gs, w') \<Rightarrow>
           (Inr (map (\<lambda>g. \<lparr>aj_ClientJobID = itoa (ag_NZBID g), aj_Title = ag_NZBName g\<rparr>)
                  (filter (\<lambda>g. ag_Category g = nz_Category n) gs)), w')))"

definition NZBGet_Remove :: "'w ext \<Rightarrow> NZBGet \<Rightarrow> string \<Rightarrow> 'w \<Rightarrow> go_error option \<times> 'w" where
  "NZBGet_Remove x n jid w =
     (case atoi jid of
        (want, False) \<Rightarrow>
          (Some (ErrText (''nzbget remove: bad id '' @ go_quote (x_IsPrint x) jid)), w)
      | (want, True) \<Rightarrow>
        (case NZBGet_call x n ''editqueue'' (editqueue_args ''GroupFinalDelete'' want) w of
           (Inr _, w') \<Rightarrow> (None, w')
         | (Inl _, w') \<Rightarrow>
           (case NZBGet_call x n ''editqueue'' (editqueue_args ''HistoryDelete'' want) w' of
              (Inl e, w'') \<Rightarrow> (Some e, w'')
            | (Inr _, w'') \<Rightarrow> (None, w''))))"

text \<open>The methods as an interface value.\<close>

definition nzbget_adapter :: "'w ext \<Rightarrow> NZBGet \<Rightarrow> 'w Adapter" where
  "nzbget_adapter x n =
     \<lparr>ad_Name = ''nzbget'',
      ad_Add = NZBGet_Add x n,
      ad_Status = status_of_describe (NZBGet_Describe x n),
      ad_Describe = NZBGet_Describe x n,
      ad_Remove = NZBGet_Remove x n,
      ad_Controller = Some \<lparr>ctl_Pause = NZBGet_Pause x n, ctl_Resume = NZBGet_Resume x n\<rparr>,
      ad_Reporter = Some (NZBGet_ClientStatus x n),
      ad_Rehydrator = Some (NZBGet_Adopt x n),
      ad_Prober = Some (NZBGet_Probe x n)\<rparr>"


section \<open>Properties\<close>

text \<open>Base64 text needs no JSON escaping.\<close>

definition json_plain :: "char \<Rightarrow> bool" where
  "json_plain c \<longleftrightarrow> (let b = (of_char c :: nat) in 0x20 \<le> b \<and> b < 0x80 \<and> b \<noteq> 34 \<and> b \<noteq> 92 \<and>
     b \<noteq> 0x3C \<and> b \<noteq> 0x3E \<and> b \<noteq> 0x26)"

lemma marshal_plain: "list_all json_plain s \<Longrightarrow> concat (map marshal_chunk (chunks s)) = s"
proof (induction s)
  case (Cons c s)
  then have c: "json_plain c" and IH: "concat (map marshal_chunk (chunks s)) = s" by auto
  from c have w: "rune_width (c # s) = 1"
    by (simp add: rune_width_def first_byte_def json_plain_def Let_def)
  have "marshal_rune [c] = [c]"
    using c by (auto simp: marshal_rune_def codepoint_def json_plain_def Let_def)
  with w IH show ?case by (simp add: chunks.simps(2))
qed simp

lemma b64_digit_plain: "n < 64 \<Longrightarrow> json_plain (b64_digit n)"
  by (auto simp: b64_digit_def json_plain_def byte_of_def Let_def)

lemma b64_encode_plain: "list_all json_plain (b64_encode s)"
proof (induction s rule: b64_encode.induct)
  case (2 a)
  have "(of_char a :: nat) < 256" by simp
  then have "of_char a div 4 < (64::nat)" "of_char a mod 4 * 16 < (64::nat)" by linarith+
  then show ?case by (auto simp: Let_def intro!: b64_digit_plain) (auto simp: json_plain_def)
next
  case (3 a b)
  have "(of_char a :: nat) < 256" "(of_char b :: nat) < 256" by simp_all
  then have "of_char a div 4 < (64::nat)" "of_char a mod 4 * 16 + of_char b div 16 < (64::nat)"
    "of_char b mod 16 * 4 < (64::nat)" by linarith+
  then show ?case by (auto simp: Let_def intro!: b64_digit_plain) (auto simp: json_plain_def)
next
  case (4 a b c s)
  have "(of_char a :: nat) < 256" "(of_char b :: nat) < 256" "(of_char c :: nat) < 256" by simp_all
  then have "of_char a div 4 < (64::nat)" "of_char a mod 4 * 16 + of_char b div 16 < (64::nat)"
    "of_char b mod 16 * 4 + of_char c div 64 < (64::nat)" "of_char c mod 64 < (64::nat)" by linarith+
  with 4 show ?case by (auto simp: Let_def intro!: b64_digit_plain)
qed simp

lemma marshal_string_plain: "list_all json_plain s \<Longrightarrow> marshal_string s = CHR 0x22 # s @ [CHR 0x22]"
  by (simp add: marshal_string_def marshal_plain)

lemma append_body_eq:
  "append_body filename content rest = append_head filename @ b64_encode content @ append_end rest"
proof -
  have "base64_drain (replicate (EncodedLen (length content) + 1) (32 * 1024)) \<lparr>br_src = content, br_out = []\<rparr>
      = (b64_encode content, True)"
    by (subst base64_drain_all) (auto simp: br_rest_def length_b64_encode list_all_iff)
  then show ?thesis unfolding append_body_def by (simp only: fst_conv)
qed

lemma append_body_marshal:
  "rest \<noteq> [] \<Longrightarrow> append_body filename content rest =
     marshal (call_body ''append'' (JStr filename # JStr (b64_encode content) # rest))"
proof -
  assume "rest \<noteq> []"
  then obtain r rs where rest: "rest = r # rs" by (cases rest) auto
  have keys: "list_all json_plain ''id''" "list_all json_plain ''method''"
    "list_all json_plain ''append''" "list_all json_plain ''params''"
    by (simp_all add: json_plain_def)
  have one: "itoa 1 = ''1''" by code_simp
  show ?thesis
    by (simp add: append_body_eq append_head_def append_end_def call_body_def rest JInt_def one
        marshal_string_plain [OF keys(1)] marshal_string_plain [OF keys(2)]
        marshal_string_plain [OF keys(3)] marshal_string_plain [OF keys(4)]
        marshal_string_plain [OF b64_encode_plain])
qed

lemma exact64_exact:
  assumes "0 < v" "v < 2 ^ 63" "lo mod 2 ^ 32 = v mod 2 ^ 32"
  shows "exact64 lo (v div 2 ^ 32) mb = v"
proof -
  have lo: "lo AND 0xFFFFFFFF = take_bit 32 v"
  proof -
    have "lo AND 0xFFFFFFFF = take_bit 32 lo" by (simp add: take_bit_eq_mask mask_eq_exp_minus_1)
    with assms(3) show ?thesis by (simp add: take_bit_eq_mod)
  qed
  have hi: "push_bit 32 (v div 2 ^ 32) = v - v mod 2 ^ 32"
    by (simp add: push_bit_eq_mult minus_mod_eq_div_mult [symmetric])
  have "in64 (v - v mod 2 ^ 32)"
    using assms(1,2) pos_mod_sign [of "2 ^ 32" v] zmod_le_nonneg_dividend [of v "2 ^ 32"]
    by (auto simp: in64_def min_int64_def max_int64_def)
  then have "wrap64 (push_bit 32 (v div 2 ^ 32)) = push_bit 32 (v div 2 ^ 32)"
    unfolding hi by simp
  moreover have "push_bit 32 (v div 2 ^ 32) OR take_bit 32 v = v"
    using concat_bit_eq [of 32 v "v div 2 ^ 32"] 
    by (simp add: concat_bit_def or.commute push_bit_eq_mult take_bit_eq_mod)
  ultimately show ?thesis using assms(1) by (simp add: exact64_def lo)
qed

text \<open>An endpoint that answers every call with the given body.\<close>

definition demo_answers :: "string \<Rightarrow> unit ext" where
  "demo_answers body = demo_ext\<lparr>x_Do := \<lambda>c rq w. (Inr \<lparr>rs_StatusCode = 200, rs_Body = body\<rparr>, w)\<rparr>"


definition demo_nzbget :: NZBGet where
  "demo_nzbget = NewNZBGet ''http://n'' '''' '''' ''tv''"

lemma demo_parse: "Parse ''http://n/jsonrpc'' \<noteq> None"
  by code_simp

lemma demo_call:
  assumes "length body < 2 ^ 20" "scan_json body = Scanned v rest" "dec_rpc v = Some r" "rpc_Error r = None"
  shows "NZBGet_call (demo_answers body) demo_nzbget meth params w = (Inr (rpc_Result r), w)"
proof -
  have "nz_BaseURL demo_nzbget @ ''/jsonrpc'' = ''http://n/jsonrpc''" by code_simp
  moreover have "take (maxResponse + 1) body = body" "take (maxListResponse + 1) body = body"
    using assms(1) by (simp_all add: maxResponse_def maxListResponse_def)
  ultimately show ?thesis
    using assms(2-4) demo_parse
    by (auto simp: NZBGet_call_def NZBGet_send_def NewRequest_def demo_answers_def decodeCapped_def Let_def
        split: option.splits)
qed

text \<open>C33: The streamed add is the add that would be marshalled. The body sent for an NZB
  payload, assembled from a literal head, the base64 stream and a tail, is byte for byte the
  JSON-RPC call with the base64 text as its second parameter, and the declared Content-Length
  is its length.\<close>

theorem append_streams_call:
  "append_body filename content (append_rest category) =
     marshal (call_body ''append'' (JStr filename # JStr (b64_encode content) # append_rest category)) \<and>
   append_length filename content (append_rest category) =
     int (length (append_body filename content (append_rest category)))"
proof
  show "append_body filename content (append_rest category) =
      marshal (call_body ''append'' (JStr filename # JStr (b64_encode content) # append_rest category))"
    by (rule append_body_marshal) (simp add: append_rest_def)
  show "append_length filename content (append_rest category) =
      int (length (append_body filename content (append_rest category)))"
    by (simp add: append_length_def append_body_eq length_b64_encode)
qed

text \<open>The 64-bit sizes NZBGet splits into two 32-bit halves are put together exactly,
  whether the low half arrives as an unsigned or as a negative (signed) number.\<close>

theorem exact64_reassembles:
  assumes "0 < v" "v < 2 ^ 63" "lo mod 2 ^ 32 = v mod 2 ^ 32"
  shows "exact64 lo (v div 2 ^ 32) mb = v"
  using assms by (rule exact64_exact)

theorem exact64_reassembles_witness:
  "exact64 (-1) 1 7 = 2 ^ 33 - 1 \<and> exact64 (2 ^ 32 - 1) 1 7 = 2 ^ 33 - 1"
  using exact64_reassembles [of "2 ^ 33 - 1" "- 1" 7] exact64_reassembles [of "2 ^ 33 - 1" "2 ^ 32 - 1" 7]
  by simp

lemma NZBGet_Describe_cases:
  assumes "NZBGet_Describe x n jid w = (res, w')"
  obtains (queue) gs w1 g where "NZBGet_groups x n w = (Inr gs, w1)"
      "find (\<lambda>g. g_NZBID g = fst (atoi jid)) gs = Some g" "res = Inr (foldNZBGroup g)"
  | (history) q w1 hs h where "NZBGet_groups x n w = (q, w1)" "NZBGet_history x n w1 = (Inr hs, w')"
      "find (\<lambda>h. h_NZBID h = fst (atoi jid)) hs = Some h" "res = Inr (foldNZBHistory h)"
  | (outage) e where "res = Inl (Wrapped (''nzbget describe '' @ jid @ '': '') e)"
  | (absent) gs w1 hs where "NZBGet_groups x n w = (Inr gs, w1)" "NZBGet_history x n w1 = (Inr hs, w')"
      "find (\<lambda>g. g_NZBID g = fst (atoi jid)) gs = None" "find (\<lambda>h. h_NZBID h = fst (atoi jid)) hs = None"
      "res = Inr not_found_view"
  using assms
  by (auto simp: NZBGet_Describe_def Let_def split: prod.splits option.splits sum.splits)

text \<open>C32: What NZBGet says about a job is never made up. A snapshot is the fold of the queue
  group or of the history entry with the job's id; the answer that the job is unknown is given
  only when both lists were read and neither has the id. So an outage is an error, never the
  answer that makes the gateway give up on a live download.\<close>

theorem NZBGet_Describe_sound:
  assumes "NZBGet_Describe x n jid w = (Inr v, w')"
  shows "(\<exists>gs w1 g. NZBGet_groups x n w = (Inr gs, w1) \<and> g \<in> set gs \<and> g_NZBID g = fst (atoi jid) \<and>
            v = foldNZBGroup g) \<or>
         (\<exists>q w1 hs h. NZBGet_groups x n w = (q, w1) \<and> NZBGet_history x n w1 = (Inr hs, w') \<and>
            h \<in> set hs \<and> h_NZBID h = fst (atoi jid) \<and> v = foldNZBHistory h) \<or>
         (\<exists>gs w1 hs. NZBGet_groups x n w = (Inr gs, w1) \<and> NZBGet_history x n w1 = (Inr hs, w') \<and>
            list_all (\<lambda>g. g_NZBID g \<noteq> fst (atoi jid)) gs \<and> list_all (\<lambda>h. h_NZBID h \<noteq> fst (atoi jid)) hs \<and>
            v = not_found_view)"
  using assms
proof (cases rule: NZBGet_Describe_cases)
  case (queue gs w1 g)
  with find_SomeD [OF queue(2)] show ?thesis by blast
next
  case (history q w1 hs h)
  with find_SomeD [OF history(3)] show ?thesis by blast
next
  case (absent gs w1 hs)
  then show ?thesis by (auto simp: find_None_iff list_all_iff)
qed simp

theorem NZBGet_Describe_sound_witness:
  \<open>NZBGet_Describe (demo_answers ''{"result":[]}'') demo_nzbget ''5'' () = (Inr not_found_view, ()) \<and>
   (\<exists>gs w1. NZBGet_groups (demo_answers ''{"result":[]}'') demo_nzbget () = (Inr gs, w1))\<close>
proof -
  have \<open>scan_json ''{"result":[]}'' = Scanned (JObj [(''result'', JArr [])]) []\<close>
    \<open>dec_rpc (JObj [(''result'', JArr [])]) = Some \<lparr>rpc_Result = Some (JArr []), rpc_Error = None\<rparr>\<close>
    by code_simp+
  note call = demo_call [OF _ this, simplified]
  have d: \<open>NZBGet_Describe (demo_answers ''{"result":[]}'') demo_nzbget ''5'' () = (Inr not_found_view, ())\<close>
    by (simp add: NZBGet_Describe_def NZBGet_groups_def NZBGet_history_def NZBGet_list_def call
        unmarshal_raw_def dec_list_def)
  have "not_found_view \<noteq> foldNZBHistory h" for h
    by (auto simp: not_found_view_def foldNZBHistory_def Let_def NewJobView_def)
  then show ?thesis using NZBGet_Describe_sound [OF d] d by auto
qed

text \<open>The queue never ends a job and the history always does: a group folds to queued or
  downloading, a history entry to completed exactly when its status begins with SUCCESS and to
  failed otherwise.\<close>

theorem NZBGet_fold_states:
  "jv_State (foldNZBGroup g) = (if g_Status g \<in> {''QUEUED'', ''PAUSED''} then StatusQueued else StatusDownloading) \<and>
   jv_State (foldNZBHistory h) = (if has_prefix (h_Status h) ''SUCCESS'' then StatusCompleted else StatusFailed)"
  by (auto simp: foldNZBGroup_def foldNZBHistory_def Let_def)

end
