(* ===== verification/Qbittorrent.thy ===== *)
theory Qbittorrent
  imports Adapters Net
begin

text \<open>
  The qBittorrent adapter (internal/adapters/qbittorrent.go) over the WebUI API v2: a
  session cookie that is minted on demand and again after a 403, torrents found by the
  unique tag given at add time, and the fold of a torrent into a \<open>JobView\<close>.
\<close>

record QBittorrent =
  qb_BaseURL :: string
  qb_Username :: string
  qb_Password :: string
  qb_Category :: string
  qb_HTTP :: http_client

definition NewQBittorrent ::
  "'w ext \<Rightarrow> string \<Rightarrow> string \<Rightarrow> string \<Rightarrow> 'w \<Rightarrow> QBittorrent \<times> 'w" where
  "NewQBittorrent x baseURL user pass w =
     (case x_NewJar x w of
        (jar, w') \<Rightarrow>
          (\<lparr>qb_BaseURL = trim_right baseURL ''/'', qb_Username = user, qb_Password = pass,
            qb_Category = '''',
            qb_HTTP = \<lparr>hc_Timeout = 30, hc_Jar = Some jar, hc_guarded = False\<rparr>\<rparr>, w'))"


section \<open>Requests\<close>

text \<open>\<open>url.Values\<close> holds a list of values per key, here one each; \<open>Encode\<close> sorts by key.\<close>

type_synonym form = "(string \<times> string) list"

definition form_Encode :: "form \<Rightarrow> string" where
  "form_Encode f =
     join (map (\<lambda>(k, v). QueryEscape k @ ''='' @ QueryEscape v) (sort_key fst f)) ''&''"

definition QB_postBody ::
  "'w ext \<Rightarrow> QBittorrent \<Rightarrow> string \<Rightarrow> bytes \<Rightarrow> string \<Rightarrow> 'w \<Rightarrow> (go_error + http_response) \<times> 'w" where
  "QB_postBody x q path body contentType w =
     (case NewRequest x ''POST'' (qb_BaseURL q @ path) body
             [(''Content-Type'', contentType), (''Referer'', qb_BaseURL q)] of
        Inl e \<Rightarrow> (Inl e, w)
      | Inr req \<Rightarrow> x_Do x (qb_HTTP q) req w)"

definition QB_post ::
  "'w ext \<Rightarrow> QBittorrent \<Rightarrow> string \<Rightarrow> form \<Rightarrow> 'w \<Rightarrow> (go_error + http_response) \<times> 'w" where
  "QB_post x q path f w =
     QB_postBody x q path (form_Encode f) ''application/x-www-form-urlencoded'' w"

definition QB_get ::
  "'w ext \<Rightarrow> QBittorrent \<Rightarrow> string \<Rightarrow> form \<Rightarrow> 'w \<Rightarrow> (go_error + http_response) \<times> 'w" where
  "QB_get x q path query w =
     (let u = qb_BaseURL q @ path;
          u = (if query \<noteq> [] then u @ ''?'' @ form_Encode query else u)
      in case NewRequest x ''GET'' u [] [(''Referer'', qb_BaseURL q)] of
           Inl e \<Rightarrow> (Inl e, w)
         | Inr req \<Rightarrow> x_Do x (qb_HTTP q) req w)"


section \<open>The multipart upload\<close>

definition crlf :: string where
  "crlf = [byte_of 13, byte_of 10]"

definition tspecials :: "char list" where
  "tspecials = ''()<>@,;:/[]?='' @ [CHR 0x5C, CHR 0x22]"

definition is_token_byte :: "char \<Rightarrow> bool" where
  "is_token_byte c \<longleftrightarrow>
     32 < (of_char c :: nat) \<and> (of_char c :: nat) < 127 \<and> c \<notin> set tspecials"

text \<open>A parameter value of \<open>mime.FormatMediaType\<close>: RFC 2231 when it is not printable
  ASCII, a token as it is, else a quoted string.\<close>

definition media_param :: "string \<Rightarrow> string \<Rightarrow> string" where
  "media_param attr val =
     ''; '' @ attr
     @ (if list_ex (\<lambda>c. ((of_char c :: nat) < 32 \<or> 126 < (of_char c :: nat)) \<and> c \<noteq> byte_of 9) val then
          ''*=utf-8'' @ [CHR 0x27, CHR 0x27]
          @ concat (map (\<lambda>c. if is_token_byte c \<and> c \<notin> {CHR ''*'', CHR 0x27, CHR ''%''} then [c]
                             else [CHR ''%'', upper_hex (of_char c div 16), upper_hex (of_char c mod 16)]) val)
        else if val \<noteq> [] \<and> list_all is_token_byte val then ''='' @ val
        else ''='' @ [CHR 0x22]
             @ concat (map (\<lambda>c. if c = CHR 0x22 \<or> c = CHR 0x5C then [CHR 0x5C, c] else [c]) val)
             @ [CHR 0x22])"

text \<open>A form field part; the keys are the fixed names below and need no escaping.\<close>

definition field_header :: "string \<Rightarrow> string" where
  "field_header key =
     ''Content-Disposition: form-data; name='' @ [CHR 0x22] @ key @ [CHR 0x22] @ crlf"

definition torrent_header :: "string \<Rightarrow> string" where
  "torrent_header filename =
     ''Content-Disposition: form-data'' @ media_param ''filename'' filename
     @ media_param ''name'' ''torrents'' @ crlf
     @ ''Content-Type: application/x-bittorrent'' @ crlf"

fun multipart_parts :: "string \<Rightarrow> (string \<times> bytes) list \<Rightarrow> bytes" where
  "multipart_parts b [] = ''''"
| "multipart_parts b ((hdr, content) # ps) =
     ''--'' @ b @ crlf @ hdr @ crlf @ content @ crlf @ multipart_parts b ps"

definition torrentUpload ::
  "'w ext \<Rightarrow> form \<Rightarrow> string \<Rightarrow> bytes \<Rightarrow> 'w \<Rightarrow> (bytes \<times> string) \<times> 'w" where
  "torrentUpload x f filename content w =
     (case x_Boundary x w of
        (b, w') \<Rightarrow>
          ((multipart_parts b (map (\<lambda>(k, v). (field_header k, v)) f
                               @ [(torrent_header filename, content)]) @ ''--'' @ b @ ''--'' @ crlf,
            ''multipart/form-data; boundary='' @ b), w'))"


section \<open>Sessions\<close>

definition QB_login :: "'w ext \<Rightarrow> QBittorrent \<Rightarrow> 'w \<Rightarrow> go_error option \<times> 'w" where
  "QB_login x q w =
     (case QB_post x q ''/api/v2/auth/login''
             [(''username'', qb_Username q), (''password'', qb_Password q)] w of
        (Inl e, w') \<Rightarrow> (Some (Wrapped ''qbittorrent login: '' e), w')
      | (Inr resp, w') \<Rightarrow>
        if rs_StatusCode resp < 200 \<or> 300 \<le> rs_StatusCode resp
        then (Some (newStatusError ''qbittorrent login failed'' (rs_StatusCode resp) (rs_Body resp)), w')
        else (None, w'))"

definition QB_hasSession :: "'w ext \<Rightarrow> QBittorrent \<Rightarrow> 'w \<Rightarrow> bool" where
  "QB_hasSession x q w =
     (case (Parse (qb_BaseURL q), hc_Jar (qb_HTTP q)) of
        (Some _, Some jar) \<Rightarrow>
          list_ex (\<lambda>(name, val). name = ''SID'' \<and> val \<noteq> '''') (x_Cookies x jar (qb_BaseURL q) w)
      | _ \<Rightarrow> False)"

definition QB_authed ::
  "'w ext \<Rightarrow> QBittorrent \<Rightarrow> ('w \<Rightarrow> (go_error + http_response) \<times> 'w) \<Rightarrow>
     'w \<Rightarrow> (go_error + http_response) \<times> 'w" where
  "QB_authed x q fn w =
     (case (if QB_hasSession x q w then (None, w) else QB_login x q w) of
        (Some e, w1) \<Rightarrow> (Inl e, w1)
      | (None, w1) \<Rightarrow>
        (case fn w1 of
           (Inl e, w2) \<Rightarrow> (Inl e, w2)
         | (Inr resp, w2) \<Rightarrow>
           if rs_StatusCode resp = 403 then
             (case QB_login x q w2 of
                (Some e, w3) \<Rightarrow> (Inl e, w3)
              | (None, w3) \<Rightarrow> fn w3)
           else (Inr resp, w2)))"


section \<open>Add\<close>

definition jobTagPrefix :: string where
  "jobTagPrefix = ''dlg-''"

fun hex_encode :: "bytes \<Rightarrow> string" where
  "hex_encode [] = []"
| "hex_encode (c # s) = hex_digit (of_char c div 16) # hex_digit (of_char c mod 16) # hex_encode s"

text \<open>The verb \<open>%x\<close> on a positive integer.\<close>

fun hex_nat :: "nat \<Rightarrow> string" where
  "hex_nat n = (if n < 16 then [hex_digit n] else hex_nat (n div 16) @ [hex_digit (n mod 16)])"

declare hex_nat.simps [simp del]

definition newJobTag :: "'w ext \<Rightarrow> 'w \<Rightarrow> string \<times> 'w" where
  "newJobTag x w =
     (case x_Rand x 8 w of
        (None, w') \<Rightarrow> (jobTagPrefix @ hex_nat (nat (x_UnixNano x w')), w')
      | (Some b, w') \<Rightarrow> (jobTagPrefix @ hex_encode b, w'))"

definition QB_add_form :: "QBittorrent \<Rightarrow> Job \<Rightarrow> string \<Rightarrow> form" where
  "QB_add_form q j tag =
     (let category = (if job_Category j = '''' then qb_Category q else job_Category j)
      in [(''tags'', tag)]
         @ (if job_SavePath j \<noteq> '''' then [(''savepath'', job_SavePath j), (''autoTMM'', ''false'')] else [])
         @ (if category \<noteq> '''' then [(''category'', category)] else []))"

definition QB_Add :: "'w ext \<Rightarrow> QBittorrent \<Rightarrow> Job \<Rightarrow> 'w \<Rightarrow> (go_error + string) \<times> 'w" where
  "QB_Add x q j w =
     (case newJobTag x w of
        (tag, w0) \<Rightarrow>
          (let f = QB_add_form q j tag in
           case (if job_Payload j \<noteq> [] then
                   (case torrentUpload x f (payloadFileName (job_PayloadName j) (job_Title j) ''.torrent'')
                           (job_Payload j) w0 of
                      ((body, contentType), w1) \<Rightarrow>
                        QB_authed x q (QB_postBody x q ''/api/v2/torrents/add'' body contentType) w1)
                 else QB_authed x q
                        (QB_post x q ''/api/v2/torrents/add'' (f @ [(''urls'', job_Source j)])) w0) of
             (Inl e, w2) \<Rightarrow> (Inl e, w2)
           | (Inr resp, w2) \<Rightarrow>
             (let body = trim_space (take maxErrorDetail (rs_Body resp)) in
              if rs_StatusCode resp \<noteq> 200
              then (Inl (StatusError ''qbittorrent add'' (rs_StatusCode resp) body), w2)
              else if body = ''Fails.''
              then (Inl (ErrText ''qbittorrent add rejected the source''), w2)
              else (Inr tag, w2))))"


section \<open>Torrents\<close>

record qbTorrent =
  t_Hash :: string
  t_Name :: string
  t_State :: string
  t_Progress :: rat
  t_DlSpeed :: int
  t_Eta :: int
  t_Size :: int
  t_Completed :: int
  t_ContentPath :: string
  t_SavePath :: string
  t_NumSeeds :: int
  t_NumLeechs :: int
  t_Tags :: string
  t_Category :: string

definition zero_qbTorrent :: qbTorrent where
  "zero_qbTorrent = \<lparr>t_Hash = '''', t_Name = '''', t_State = '''', t_Progress = 0, t_DlSpeed = 0,
     t_Eta = 0, t_Size = 0, t_Completed = 0, t_ContentPath = '''', t_SavePath = '''', t_NumSeeds = 0,
     t_NumLeechs = 0, t_Tags = '''', t_Category = ''''\<rparr>"

definition qbTorrent_fields :: "qbTorrent field list" where
  "qbTorrent_fields =
     [string_field ''hash'' t_Hash t_Hash_update,
      string_field ''name'' t_Name t_Name_update,
      string_field ''state'' t_State t_State_update,
      float64_field ''progress'' t_Progress t_Progress_update,
      int64_field ''dlspeed'' t_DlSpeed t_DlSpeed_update,
      int64_field ''eta'' t_Eta t_Eta_update,
      int64_field ''size'' t_Size t_Size_update,
      int64_field ''completed'' t_Completed t_Completed_update,
      string_field ''content_path'' t_ContentPath t_ContentPath_update,
      string_field ''save_path'' t_SavePath t_SavePath_update,
      int32_field ''num_seeds'' t_NumSeeds t_NumSeeds_update,
      int32_field ''num_leechs'' t_NumLeechs t_NumLeechs_update,
      string_field ''tags'' t_Tags t_Tags_update,
      string_field ''category'' t_Category t_Category_update]"

definition contentFiles :: "qbTorrent \<Rightarrow> string list option" where
  "contentFiles t =
     (if t_ContentPath t \<noteq> '''' then Some [t_ContentPath t]
      else if t_SavePath t \<noteq> '''' then Some [t_SavePath t]
      else None)"

definition foldQB :: "qbTorrent \<Rightarrow> JobView" where
  "foldQB t =
     (let v = NewJobView\<lparr>jv_Title := t_Name t, jv_NativeState := t_State t,
                jv_BytesDone := t_Completed t, jv_BytesTotal := t_Size t,
                jv_SpeedBps := t_DlSpeed t,
                jv_EtaSec := (if 8640000 \<le> t_Eta t \<or> t_Eta t < 0 then -1 else t_Eta t),
                jv_Seeders := t_NumSeeds t, jv_Leechers := t_NumLeechs t\<rparr>
      in if t_State t \<in> {''error'', ''missingFiles''} then
           v\<lparr>jv_State := StatusFailed, jv_Message := ''qbittorrent state: '' @ t_State t\<rparr>
         else if t_State t \<in> {''uploading'', ''pausedUP'', ''queuedUP'', ''stalledUP'', ''checkingUP'', ''forcedUP''}
         then v\<lparr>jv_State := StatusCompleted, jv_Files := contentFiles t\<rparr>
         else if 1 \<le> t_Progress t then v\<lparr>jv_State := StatusCompleted, jv_Files := contentFiles t\<rparr>
         else v\<lparr>jv_State := StatusDownloading\<rparr>)"

text \<open>The torrents \<open>torrents/info\<close> lists for a query. The error of an undecodable answer is
  left to the caller, which wraps it or not.\<close>

definition QB_info ::
  "'w ext \<Rightarrow> QBittorrent \<Rightarrow> form \<Rightarrow> (go_error \<Rightarrow> go_error) \<Rightarrow> 'w \<Rightarrow> (go_error + qbTorrent list) \<times> 'w" where
  "QB_info x q query wrap w =
     (case QB_authed x q (QB_get x q ''/api/v2/torrents/info'' query) w of
        (Inl e, w') \<Rightarrow> (Inl e, w')
      | (Inr resp, w') \<Rightarrow>
        if rs_StatusCode resp \<noteq> 200
        then (Inl (newStatusError ''qbittorrent info'' (rs_StatusCode resp) (rs_Body resp)), w')
        else
          (case decodeCapped x (rs_Body resp) maxListResponse
                  (dec_list (dec_struct qbTorrent_fields zero_qbTorrent)) of
             Inl e \<Rightarrow> (Inl (wrap e), w')
           | Inr ts \<Rightarrow> (Inr ts, w')))"

definition QB_byTag ::
  "'w ext \<Rightarrow> QBittorrent \<Rightarrow> string \<Rightarrow> 'w \<Rightarrow> (go_error + qbTorrent option) \<times> 'w" where
  "QB_byTag x q tag w =
     (case QB_info x q [(''tag'', tag)] (Wrapped ''qbittorrent info decode: '') w of
        (Inl e, w') \<Rightarrow> (Inl e, w')
      | (Inr [], w') \<Rightarrow> (Inr None, w')
      | (Inr (t # _), w') \<Rightarrow> (Inr (Some t), w'))"

definition QB_Describe ::
  "'w ext \<Rightarrow> QBittorrent \<Rightarrow> string \<Rightarrow> 'w \<Rightarrow> (go_error + JobView) \<times> 'w" where
  "QB_Describe x q tag w =
     (case QB_byTag x q tag w of
        (Inl e, w') \<Rightarrow> (Inl e, w')
      | (Inr None, w') \<Rightarrow> (Inr not_found_view, w')
      | (Inr (Some t), w') \<Rightarrow> (Inr (foldQB t), w'))"

definition QB_delete_form :: "string \<Rightarrow> form" where
  "QB_delete_form hash = [(''hashes'', hash), (''deleteFiles'', ''false'')]"

definition QB_Remove :: "'w ext \<Rightarrow> QBittorrent \<Rightarrow> string \<Rightarrow> 'w \<Rightarrow> go_error option \<times> 'w" where
  "QB_Remove x q tag w =
     (case QB_byTag x q tag w of
        (Inl e, w') \<Rightarrow> (Some e, w')
      | (Inr None, w') \<Rightarrow> (None, w')
      | (Inr (Some t), w') \<Rightarrow>
        (case QB_authed x q (QB_post x q ''/api/v2/torrents/delete'' (QB_delete_form (t_Hash t))) w' of
           (Inl e, w'') \<Rightarrow> (Some e, w'')
         | (Inr resp, w'') \<Rightarrow>
           if rs_StatusCode resp \<noteq> 200
           then (Some (newStatusError ''qbittorrent delete'' (rs_StatusCode resp) (rs_Body resp)), w'')
           else (None, w'')))"

text \<open>The verbs are tried in order; the last error is reported.\<close>

fun QB_try_verbs ::
  "'w ext \<Rightarrow> QBittorrent \<Rightarrow> string \<Rightarrow> string list \<Rightarrow> go_error option \<Rightarrow> 'w \<Rightarrow> go_error option \<times> 'w" where
  "QB_try_verbs x q hash [] lastErr w = (lastErr, w)"
| "QB_try_verbs x q hash (verb # verbs) lastErr w =
     (case QB_authed x q (QB_post x q (''/api/v2/torrents/'' @ verb) [(''hashes'', hash)]) w of
        (Inl e, w') \<Rightarrow> QB_try_verbs x q hash verbs (Some e) w'
      | (Inr resp, w') \<Rightarrow>
        if 200 \<le> rs_StatusCode resp \<and> rs_StatusCode resp < 300 then (None, w')
        else QB_try_verbs x q hash verbs
               (Some (newStatusError (''qbittorrent '' @ verb) (rs_StatusCode resp) (rs_Body resp))) w')"

definition QB_control ::
  "'w ext \<Rightarrow> QBittorrent \<Rightarrow> string \<Rightarrow> string list \<Rightarrow> 'w \<Rightarrow> go_error option \<times> 'w" where
  "QB_control x q tag verbs w =
     (case QB_byTag x q tag w of
        (Inl e, w') \<Rightarrow> (Some e, w')
      | (Inr None, w') \<Rightarrow> (Some (ErrText (''qbittorrent: no torrent for job '' @ tag)), w')
      | (Inr (Some t), w') \<Rightarrow> QB_try_verbs x q (t_Hash t) verbs None w')"

definition QB_Pause :: "'w ext \<Rightarrow> QBittorrent \<Rightarrow> string \<Rightarrow> 'w \<Rightarrow> go_error option \<times> 'w" where
  "QB_Pause x q tag w = QB_control x q tag [''stop'', ''pause''] w"

definition QB_Resume :: "'w ext \<Rightarrow> QBittorrent \<Rightarrow> string \<Rightarrow> 'w \<Rightarrow> go_error option \<times> 'w" where
  "QB_Resume x q tag w = QB_control x q tag [''start'', ''resume''] w"

definition QB_Probe :: "'w ext \<Rightarrow> QBittorrent \<Rightarrow> 'w \<Rightarrow> (go_error + string) \<times> 'w" where
  "QB_Probe x q w =
     (case QB_authed x q (QB_get x q ''/api/v2/app/version'' []) w of
        (Inl e, w') \<Rightarrow> (Inl e, w')
      | (Inr resp, w') \<Rightarrow>
        (let version = trim_space (take maxErrorDetail (rs_Body resp)) in
         if rs_StatusCode resp \<noteq> 200
         then (Inl (StatusError ''qbittorrent version'' (rs_StatusCode resp) version), w')
         else if version = '''' \<or> 32 < length version
                 \<or> contains_any version ([CHR '' '', byte_of 9, byte_of 13, byte_of 10] @ ''<>{'')
         then (Inl (ErrText ''qbittorrent version: the endpoint did not answer like a qBittorrent WebUI''), w')
         else (Inr version, w')))"

record qbTransferInfo =
  ti_DlSpeed :: int
  ti_UpSpeed :: int
  ti_ConnectionStatus :: string

definition qbTransferInfo_fields :: "qbTransferInfo field list" where
  "qbTransferInfo_fields =
     [int64_field ''dl_info_speed'' ti_DlSpeed ti_DlSpeed_update,
      int64_field ''up_info_speed'' ti_UpSpeed ti_UpSpeed_update,
      string_field ''connection_status'' ti_ConnectionStatus ti_ConnectionStatus_update]"

definition QB_ClientStatus :: "'w ext \<Rightarrow> QBittorrent \<Rightarrow> 'w \<Rightarrow> ClientStatus \<times> 'w" where
  "QB_ClientStatus x q w =
     (let cs = NamedStatus ''qbittorrent'' in
      case QB_authed x q (QB_get x q ''/api/v2/transfer/info'' []) w of
        (Inl e, w') \<Rightarrow> (cs\<lparr>cs_Error := PublicError (x_IsPrint x) (Some e)\<rparr>, w')
      | (Inr resp, w') \<Rightarrow>
        if rs_StatusCode resp \<noteq> 200
        then (cs\<lparr>cs_Error := ''transfer/info: '' @ itoa (rs_StatusCode resp)\<rparr>, w')
        else
          (case decodeCapped x (rs_Body resp) maxResponse
                  (dec_struct qbTransferInfo_fields
                     \<lparr>ti_DlSpeed = 0, ti_UpSpeed = 0, ti_ConnectionStatus = ''''\<rparr>) of
             Inl e \<Rightarrow> (cs\<lparr>cs_Error := PublicError (x_IsPrint x) (Some e)\<rparr>, w')
           | Inr info \<Rightarrow>
             (cs\<lparr>cs_Reachable := True, cs_DownBps := ti_DlSpeed info, cs_UpBps := ti_UpSpeed info,
                 cs_Detail := (if ti_ConnectionStatus info \<noteq> ''''
                               then [(''connection'', truncate_utf8 (ti_ConnectionStatus info) 32)]
                               else [])\<rparr>, w')))"

text \<open>The job a torrent is adopted as, if any: the first of its tags that is ours.\<close>

definition QB_adopts :: "QBittorrent \<Rightarrow> qbTorrent \<Rightarrow> AdoptedJob option" where
  "QB_adopts q t =
     (if jv_State (foldQB t) = StatusCompleted \<or> jv_State (foldQB t) = StatusFailed then None
      else if qb_Category q \<noteq> '''' \<and> t_Category t \<noteq> '''' \<and> t_Category t \<noteq> qb_Category q then None
      else map_option (\<lambda>tag. \<lparr>aj_ClientJobID = tag, aj_Title = t_Name t\<rparr>)
             (find (\<lambda>tag. has_prefix tag jobTagPrefix)
                (map trim_space (split_on (CHR '','') (t_Tags t)))))"

definition QB_Adopt :: "'w ext \<Rightarrow> QBittorrent \<Rightarrow> 'w \<Rightarrow> (go_error + AdoptedJob list) \<times> 'w" where
  "QB_Adopt x q w =
     (case QB_info x q [] (\<lambda>e. e) w of
        (Inl e, w') \<Rightarrow> (Inl e, w')
      | (Inr ts, w') \<Rightarrow> (Inr (List.map_filter (QB_adopts q) ts), w'))"

definition QB_Status ::
  "'w ext \<Rightarrow> QBittorrent \<Rightarrow> string \<Rightarrow> 'w \<Rightarrow> (go_error + Status) \<times> 'w" where
  "QB_Status x q tag w = status_of_describe (QB_Describe x q) tag w"

definition qbittorrent_adapter :: "'w ext \<Rightarrow> QBittorrent \<Rightarrow> 'w Adapter" where
  "qbittorrent_adapter x q =
     \<lparr>ad_Name = ''qbittorrent'',
      ad_Add = QB_Add x q,
      ad_Status = QB_Status x q,
      ad_Describe = QB_Describe x q,
      ad_Remove = QB_Remove x q,
      ad_Controller = Some \<lparr>ctl_Pause = QB_Pause x q, ctl_Resume = QB_Resume x q\<rparr>,
      ad_Reporter = Some (QB_ClientStatus x q),
      ad_Rehydrator = Some (QB_Adopt x q),
      ad_Prober = Some (QB_Probe x q)\<rparr>"


section \<open>Properties\<close>

text \<open>C35: qBittorrent is only ever spoken to with a session. An authenticated call that gets an
  answer first logs in, successfully, exactly when the cookie jar holds no session; then it sends
  its request once, and that answer stands unless it is a 403; after a 403 it logs in once more,
  successfully, and sends the request a second and last time, and this answer stands whatever it
  is. The states of the world show that nothing else is sent in between.\<close>

theorem QB_authed_session:
  assumes "QB_authed x q fn w = (Inr resp, w')"
  shows "\<exists>w1. (if QB_hasSession x q w then w1 = w else QB_login x q w = (None, w1)) \<and>
    (fn w1 = (Inr resp, w') \<and> rs_StatusCode resp \<noteq> 403 \<or>
     (\<exists>resp0 w2 w3. fn w1 = (Inr resp0, w2) \<and> rs_StatusCode resp0 = 403 \<and>
        QB_login x q w2 = (None, w3) \<and> fn w3 = (Inr resp, w')))"
  using assms by (auto simp: QB_authed_def split: if_splits prod.splits option.splits sum.splits)

text \<open>A client whose jar holds a session.\<close>

definition demo_session :: "unit ext" where
  "demo_session = demo_ext\<lparr>x_Cookies := \<lambda>j u w. [(''SID'', ''abc'')]\<rparr>"

definition demo_qb :: QBittorrent where
  "demo_qb = fst (NewQBittorrent demo_session ''http://q'' ''u'' ''p'' ())"

theorem QB_authed_session_witness:
  "QB_authed demo_session demo_qb (\<lambda>w. (Inr \<lparr>rs_StatusCode = 200, rs_Body = ''''\<rparr>, w)) ()
     = (Inr \<lparr>rs_StatusCode = 200, rs_Body = ''''\<rparr>, ()) \<and> QB_hasSession demo_session demo_qb ()"
proof -
  have s: "QB_hasSession demo_session demo_qb ()" by code_simp
  then have a: "QB_authed demo_session demo_qb (\<lambda>w. (Inr \<lparr>rs_StatusCode = 200, rs_Body = ''''\<rparr>, w)) ()
     = (Inr \<lparr>rs_StatusCode = 200, rs_Body = ''''\<rparr>, ())" by (simp add: QB_authed_def)
  from QB_authed_session [OF a] a s show ?thesis by blast
qed

text \<open>The bytes of a job tag: printable, and no comma.\<close>

definition tag_byte :: "char \<Rightarrow> bool" where
  "tag_byte c \<longleftrightarrow> graphic c \<and> c \<noteq> CHR '',''"

lemma hex_digit_tag: "n < 16 \<Longrightarrow> tag_byte (hex_digit n)"
proof -
  assume "n < 16"
  then have n: "(of_char (hex_digit n) :: nat) = (if n < 10 then 48 + n else 87 + n)"
    by (simp add: hex_digit_def byte_of_def)
  then have "hex_digit n \<noteq> CHR '',''" by (auto split: if_splits)
  with n \<open>n < 16\<close> show ?thesis by (auto simp: tag_byte_def graphic_def Let_def)
qed

lemma hex_encode_tag: "list_all tag_byte (hex_encode s)"
  by (induction s) (auto intro!: hex_digit_tag nibbles)

lemma hex_nat_tag: "list_all tag_byte (hex_nat n)"
proof (induction n rule: hex_nat.induct)
  case (1 n)
  then show ?case by (subst hex_nat.simps) (auto intro!: hex_digit_tag)
qed

lemma newJobTag_tag:
  "list_all tag_byte (fst (newJobTag x w)) \<and> has_prefix (fst (newJobTag x w)) jobTagPrefix"
proof -
  have "list_all tag_byte jobTagPrefix" by code_simp
  then show ?thesis
    using hex_encode_tag hex_nat_tag
    by (auto simp: newJobTag_def has_prefix_iff split: prod.splits option.splits)
qed

lemma trim_space_tag: "list_all tag_byte s \<Longrightarrow> trim_space s = s"
proof -
  assume s: "list_all tag_byte s"
  have "s = [] \<or> graphic (hd s) \<and> graphic (last s)"
  proof (cases "s = []")
    case False
    with s have "tag_byte (hd s)" "tag_byte (last s)" by (simp_all add: list_all_iff)
    then show ?thesis by (simp add: tag_byte_def)
  qed simp
  then show ?thesis by (simp only: trim_space_graphic [of s] if_True)
qed

text \<open>C36: A restart finds the torrents again. The tag under which a torrent was added is
  recognised as the gateway's own and is the job id it is adopted under, as long as the torrent
  is not finished or failed and belongs to the client's category; a finished or failed torrent
  is never adopted, so its event is not replayed.\<close>

theorem QB_adopts_added:
  assumes "t_Tags t = fst (newJobTag x w)"
  shows "QB_adopts q t =
    (if jv_State (foldQB t) \<in> {StatusCompleted, StatusFailed} \<or>
        qb_Category q \<noteq> '''' \<and> t_Category t \<noteq> '''' \<and> t_Category t \<noteq> qb_Category q
     then None else Some \<lparr>aj_ClientJobID = t_Tags t, aj_Title = t_Name t\<rparr>)"
proof -
  have tag: "list_all tag_byte (t_Tags t)" "has_prefix (t_Tags t) jobTagPrefix"
    using newJobTag_tag [of x w] assms by simp_all
  from tag(1) have "CHR '','' \<notin> set (t_Tags t)" by (auto simp: list_all_iff tag_byte_def)
  then have "split_on (CHR '','') (t_Tags t) = [t_Tags t]" by (rule split_on_absent)
  with tag show ?thesis by (simp add: QB_adopts_def trim_space_tag)
qed

theorem QB_adopts_added_witness:
  "QB_adopts demo_qb (zero_qbTorrent\<lparr>t_Tags := ''dlg-7272727272727272'', t_Name := ''n'', t_State := ''downloading''\<rparr>)
     = Some \<lparr>aj_ClientJobID = ''dlg-7272727272727272'', aj_Title = ''n''\<rparr>"
proof -
  have "fst (newJobTag demo_ext ()) = ''dlg-7272727272727272''" by code_simp
  then show ?thesis
    using QB_adopts_added [of "zero_qbTorrent\<lparr>t_Tags := ''dlg-7272727272727272'', t_Name := ''n'', t_State := ''downloading''\<rparr>"
        demo_ext "()" demo_qb]
    by (simp add: zero_qbTorrent_def foldQB_def Let_def)
qed

text \<open>How a torrent's state is read: failed in the two error states, completed when seeding
  or fully downloaded, downloading otherwise; a completed torrent reports where its content is,
  and the placeholder qBittorrent gives for an unknown remaining time is never reported.\<close>

theorem foldQB_spec:
  "jv_State (foldQB t) =
     (if t_State t \<in> {''error'', ''missingFiles''} then StatusFailed
      else if t_State t \<in> {''uploading'', ''pausedUP'', ''queuedUP'', ''stalledUP'', ''checkingUP'', ''forcedUP''}
              \<or> 1 \<le> t_Progress t then StatusCompleted
      else StatusDownloading) \<and>
   (jv_State (foldQB t) = StatusCompleted \<and> (t_ContentPath t \<noteq> '''' \<or> t_SavePath t \<noteq> '''') \<longrightarrow>
      jv_Files (foldQB t) = Some [if t_ContentPath t \<noteq> '''' then t_ContentPath t else t_SavePath t]) \<and>
   jv_EtaSec (foldQB t) < 8640000 \<and> - 1 \<le> jv_EtaSec (foldQB t)"
  by (auto simp: foldQB_def contentFiles_def NewJobView_def Let_def)

theorem foldQB_spec_witness:
  "jv_Files (foldQB (zero_qbTorrent\<lparr>t_State := ''stalledUP'', t_SavePath := ''/d''\<rparr>)) = Some [''/d'']"
  using foldQB_spec [of "zero_qbTorrent\<lparr>t_State := ''stalledUP'', t_SavePath := ''/d''\<rparr>"]
  by (simp add: zero_qbTorrent_def)

end
