(* ===== verification/Odownloader.thy ===== *)
theory Odownloader
  imports Adapters Net
begin

text \<open>
  The oDownloader adapter (internal/adapters/odownloader.go): one add is one package of
  links, and \<open>foldODL\<close> folds the links of a package into one \<open>JobView\<close>. The JDownloader
  stub (jdownloader.go) stands at the end.
\<close>

record ODownloader =
  od_BaseURL :: string
  od_Token :: string
  od_HTTP :: http_client

definition NewODownloader :: "string \<Rightarrow> string \<Rightarrow> ODownloader" where
  "NewODownloader baseURL token =
     \<lparr>od_BaseURL = baseURL, od_Token = token,
      od_HTTP = \<lparr>hc_Timeout = 20, hc_Jar = None, hc_guarded = False\<rparr>\<rparr>"

text \<open>\<open>do\<close>: a request with an optional JSON body.\<close>

definition OD_do ::
  "'w ext \<Rightarrow> ODownloader \<Rightarrow> string \<Rightarrow> string \<Rightarrow> json option \<Rightarrow> 'w \<Rightarrow> (go_error + http_response) \<times> 'w" where
  "OD_do x od meth path body w =
     (case NewRequest x meth (od_BaseURL od @ path)
             (case body of None \<Rightarrow> [] | Some b \<Rightarrow> marshal b)
             ((case body of None \<Rightarrow> [] | Some _ \<Rightarrow> [(''Content-Type'', ''application/json'')])
              @ (if od_Token od \<noteq> '''' then [(''Authorization'', ''Bearer '' @ od_Token od)] else [])
              @ [(''Accept'', ''application/json'')]) of
        Inl e \<Rightarrow> (Inl e, w)
      | Inr req \<Rightarrow> x_Do x (od_HTTP od) req w)"

text \<open>\<open>resp.StatusCode/100 == 2\<close>.\<close>

definition is_2xx :: "http_response \<Rightarrow> bool" where
  "is_2xx resp \<longleftrightarrow> go_quot (rs_StatusCode resp) 100 = 2"


section \<open>Links and packages\<close>

record odlDownloadView =
  l_ID :: string
  l_PackageID :: string
  l_Name :: string
  l_BytesDone :: int
  l_BytesTotal :: int
  l_Speed :: int
  l_EtaSeconds :: "int option"
  l_State :: string
  l_Message :: string
  l_OutputPath :: string

definition zero_odlDownloadView :: odlDownloadView where
  "zero_odlDownloadView = \<lparr>l_ID = '''', l_PackageID = '''', l_Name = '''', l_BytesDone = 0,
     l_BytesTotal = 0, l_Speed = 0, l_EtaSeconds = None, l_State = '''', l_Message = '''',
     l_OutputPath = ''''\<rparr>"

definition odlDownloadView_fields :: "odlDownloadView field list" where
  "odlDownloadView_fields =
     [string_field ''id'' l_ID l_ID_update,
      string_field ''packageId'' l_PackageID l_PackageID_update,
      string_field ''name'' l_Name l_Name_update,
      int64_field ''bytesDone'' l_BytesDone l_BytesDone_update,
      int64_field ''bytesTotal'' l_BytesTotal l_BytesTotal_update,
      int64_field ''speedBytesPerSecond'' l_Speed l_Speed_update,
      (''etaSeconds'', \<lambda>v r.
         (case v of
            JNull \<Rightarrow> Some (r\<lparr>l_EtaSeconds := None\<rparr>)
          | _ \<Rightarrow> map_option (\<lambda>n. r\<lparr>l_EtaSeconds := Some n\<rparr>) (dec_int64 v 0))),
      string_field ''state'' l_State l_State_update,
      string_field ''message'' l_Message l_Message_update,
      string_field ''outputPath'' l_OutputPath l_OutputPath_update]"

definition dec_odlPage :: "json \<Rightarrow> odlDownloadView list option" where
  "dec_odlPage v =
     dec_struct
       [(''content'', \<lambda>c r. dec_list (dec_struct odlDownloadView_fields zero_odlDownloadView) c)] [] v"

text \<open>The loop of \<open>foldODL\<close>: the view, the four flags and the files collected so far.\<close>

record odl_acc =
  oa_view :: JobView
  oa_allFinished :: bool
  oa_anyRunning :: bool
  oa_anyFailed :: bool
  oa_anyStarted :: bool
  oa_files :: "string list"

definition odl_step :: "odl_acc \<Rightarrow> odlDownloadView \<Rightarrow> odl_acc" where
  "odl_step a l =
     (let jv = oa_view a;
          jv' = jv\<lparr>
            jv_BytesDone := wrap64 (jv_BytesDone jv + l_BytesDone l),
            jv_BytesTotal := wrap64 (jv_BytesTotal jv + l_BytesTotal l),
            jv_SpeedBps := wrap64 (jv_SpeedBps jv + l_Speed l),
            jv_Title := (if jv_Title jv = '''' then l_Name l else jv_Title jv),
            jv_Message := (if l_Message l \<noteq> '''' then l_Message l else jv_Message jv),
            jv_NativeState := (if jv_NativeState jv = '''' then l_State l else jv_NativeState jv)\<rparr>;
          a' = a\<lparr>oa_view := jv',
                 oa_files := (if l_OutputPath l \<noteq> '''' then oa_files a @ [l_OutputPath l] else oa_files a)\<rparr>
      in if l_State l = ''FINISHED'' then a'\<lparr>oa_anyStarted := True\<rparr>
         else if l_State l \<in> {''RUNNING'', ''PAUSED'', ''WAITING_FOR_CHALLENGE''}
         then a'\<lparr>oa_allFinished := False, oa_anyRunning := True, oa_anyStarted := True\<rparr>
         else if l_State l \<in> {''FAILED'', ''CANCELLED''}
         then a'\<lparr>oa_allFinished := False, oa_anyFailed := True\<rparr>
         else a'\<lparr>oa_allFinished := False\<rparr>)"

definition odl_start :: odl_acc where
  "odl_start = \<lparr>oa_view = NewJobView, oa_allFinished = True, oa_anyRunning = False,
     oa_anyFailed = False, oa_anyStarted = False, oa_files = []\<rparr>"

definition foldODL :: "odlDownloadView list \<Rightarrow> JobView" where
  "foldODL links =
     (if links = [] then not_found_view
      else let a = foldl odl_step odl_start links; jv = oa_view a in
        if oa_allFinished a then jv\<lparr>jv_State := StatusCompleted, jv_Files := Some (oa_files a)\<rparr>
        else if oa_anyFailed a \<and> \<not> oa_anyRunning a then jv\<lparr>jv_State := StatusFailed\<rparr>
        else if oa_anyStarted a then jv\<lparr>jv_State := StatusDownloading\<rparr>
        else jv\<lparr>jv_State := StatusQueued\<rparr>)"


section \<open>Methods\<close>

definition OD_Probe :: "'w ext \<Rightarrow> ODownloader \<Rightarrow> 'w \<Rightarrow> (go_error + string) \<times> 'w" where
  "OD_Probe x od w =
     (case OD_do x od ''GET'' ''/api/v1/downloads?size=1'' None w of
        (Inl e, w') \<Rightarrow> (Inl e, w')
      | (Inr resp, w') \<Rightarrow>
        if \<not> is_2xx resp
        then (Inl (newStatusError ''odownloader probe'' (rs_StatusCode resp) (rs_Body resp)), w')
        else (case decodeCapped x (rs_Body resp) maxResponse dec_odlPage of
                Inl _ \<Rightarrow> (Inl (ErrText ''odownloader probe: the endpoint did not answer like the daemon API''), w')
              | Inr _ \<Rightarrow> (Inr '''', w')))"

definition odlAddRequest :: "Job \<Rightarrow> json" where
  "odlAddRequest j =
     JObj ([(''urls'', JArr [JStr (job_Source j)])]
           @ (if job_Title j \<noteq> '''' then [(''packageName'', JStr (job_Title j))] else [])
           @ [(''autostart'', JBool True)])"

record odlAddResult =
  ar_PackageID :: string
  ar_DownloadIDs :: "string list"
  ar_Rejected :: "string list"

definition odlAddResult_fields :: "odlAddResult field list" where
  "odlAddResult_fields =
     [string_field ''packageId'' ar_PackageID ar_PackageID_update,
      (''downloadIds'', \<lambda>v r. map_option (\<lambda>ss. r\<lparr>ar_DownloadIDs := ss\<rparr>) (dec_list (\<lambda>s. dec_string s '''') v)),
      (''rejected'', \<lambda>v r. map_option (\<lambda>ss. r\<lparr>ar_Rejected := ss\<rparr>) (dec_list (\<lambda>s. dec_string s '''') v))]"

definition OD_Add :: "'w ext \<Rightarrow> ODownloader \<Rightarrow> Job \<Rightarrow> 'w \<Rightarrow> (go_error + string) \<times> 'w" where
  "OD_Add x od j w =
     (if job_Payload j \<noteq> [] then (Inl ErrPayloadUnsupported, w)
      else
        (case OD_do x od ''POST'' ''/api/v1/links/add'' (Some (odlAddRequest j)) w of
           (Inl e, w') \<Rightarrow> (Inl e, w')
         | (Inr resp, w') \<Rightarrow>
           if \<not> is_2xx resp
           then (Inl (newStatusError ''odownloader add'' (rs_StatusCode resp) (rs_Body resp)), w')
           else
             (case decodeCapped x (rs_Body resp) maxResponse
                     (dec_struct odlAddResult_fields
                        \<lparr>ar_PackageID = '''', ar_DownloadIDs = [], ar_Rejected = []\<rparr>) of
                Inl e \<Rightarrow> (Inl e, w')
              | Inr out \<Rightarrow>
                if ar_PackageID out = ''''
                then (Inl (ErrText (''odownloader add: empty packageId (rejected=[''
                        @ join (ar_Rejected out) '' '' @ ''])'')), w')
                else (Inr (ar_PackageID out), w'))))"

definition describe_path :: "string \<Rightarrow> string" where
  "describe_path packageID =
     ''/api/v1/downloads?packageId='' @ QueryEscape packageID @ ''&size=1000''"

definition OD_Describe ::
  "'w ext \<Rightarrow> ODownloader \<Rightarrow> string \<Rightarrow> 'w \<Rightarrow> (go_error + JobView) \<times> 'w" where
  "OD_Describe x od packageID w =
     (case OD_do x od ''GET'' (describe_path packageID) None w of
        (Inl e, w') \<Rightarrow> (Inl e, w')
      | (Inr resp, w') \<Rightarrow>
        if \<not> is_2xx resp
        then (Inl (newStatusError ''odownloader describe'' (rs_StatusCode resp) (rs_Body resp)), w')
        else (case decodeCapped x (rs_Body resp) maxListResponse dec_odlPage of
                Inl e \<Rightarrow> (Inl e, w')
              | Inr links \<Rightarrow> (Inr (foldODL links), w')))"

definition remove_path :: "string \<Rightarrow> string" where
  "remove_path packageID = ''/api/v1/packages/'' @ PathEscape packageID"

definition OD_Remove :: "'w ext \<Rightarrow> ODownloader \<Rightarrow> string \<Rightarrow> 'w \<Rightarrow> go_error option \<times> 'w" where
  "OD_Remove x od packageID w =
     (case OD_do x od ''DELETE'' (remove_path packageID) None w of
        (Inl e, w') \<Rightarrow> (Some e, w')
      | (Inr resp, w') \<Rightarrow>
        if \<not> is_2xx resp \<and> rs_StatusCode resp \<noteq> 404
        then (Some (newStatusError ''odownloader remove'' (rs_StatusCode resp) (rs_Body resp)), w')
        else (None, w'))"

definition OD_Status ::
  "'w ext \<Rightarrow> ODownloader \<Rightarrow> string \<Rightarrow> 'w \<Rightarrow> (go_error + Status) \<times> 'w" where
  "OD_Status x od packageID w = status_of_describe (OD_Describe x od) packageID w"

definition odownloader_adapter :: "'w ext \<Rightarrow> ODownloader \<Rightarrow> 'w Adapter" where
  "odownloader_adapter x od =
     \<lparr>ad_Name = ''odownloader'',
      ad_Add = OD_Add x od,
      ad_Status = OD_Status x od,
      ad_Describe = OD_Describe x od,
      ad_Remove = OD_Remove x od,
      ad_Controller = None,
      ad_Reporter = None,
      ad_Rehydrator = None,
      ad_Prober = Some (OD_Probe x od)\<rparr>"


section \<open>The JDownloader stub\<close>

definition JD_Add :: "Job \<Rightarrow> 'w \<Rightarrow> (go_error + string) \<times> 'w" where
  "JD_Add j w = (Inr (''stub-'' @ job_ID j), w)"

definition JD_Status :: "string \<Rightarrow> 'w \<Rightarrow> (go_error + Status) \<times> 'w" where
  "JD_Status jid w = (Inr StatusQueued, w)"

text \<open>Its view is built without \<open>NewJobView\<close>, so the counts are 0, not "not reported".\<close>

definition JD_Describe :: "string \<Rightarrow> 'w \<Rightarrow> (go_error + JobView) \<times> 'w" where
  "JD_Describe jid w =
     (Inr (NewJobView\<lparr>jv_State := StatusQueued, jv_Seeders := 0, jv_Leechers := 0, jv_Health := 0\<rparr>), w)"

definition JD_Remove :: "string \<Rightarrow> 'w \<Rightarrow> go_error option \<times> 'w" where
  "JD_Remove jid w = (None, w)"

definition jdownloader_adapter :: "'w Adapter" where
  "jdownloader_adapter =
     \<lparr>ad_Name = ''jdownloader'', ad_Add = JD_Add, ad_Status = JD_Status, ad_Describe = JD_Describe,
      ad_Remove = JD_Remove, ad_Controller = None, ad_Reporter = None, ad_Rehydrator = None,
      ad_Prober = None\<rparr>"


section \<open>Properties\<close>

text \<open>The classes of link states the fold distinguishes.\<close>

definition running :: "odlDownloadView \<Rightarrow> bool" where
  "running l \<longleftrightarrow> l_State l \<in> {''RUNNING'', ''PAUSED'', ''WAITING_FOR_CHALLENGE''}"

definition broken :: "odlDownloadView \<Rightarrow> bool" where
  "broken l \<longleftrightarrow> l_State l \<in> {''FAILED'', ''CANCELLED''}"

definition finished :: "odlDownloadView \<Rightarrow> bool" where
  "finished l \<longleftrightarrow> l_State l = ''FINISHED''"

lemmas odl_states = running_def broken_def finished_def

lemma odl_step_flags:
  "oa_allFinished (odl_step a l) = (oa_allFinished a \<and> finished l)"
  "oa_anyRunning (odl_step a l) = (oa_anyRunning a \<or> running l)"
  "oa_anyFailed (odl_step a l) = (oa_anyFailed a \<or> broken l)"
  "oa_anyStarted (odl_step a l) = (oa_anyStarted a \<or> finished l \<or> running l)"
  "oa_files (odl_step a l) = oa_files a @ filter (\<lambda>p. p \<noteq> '''') [l_OutputPath l]"
  by (simp_all add: odl_step_def odl_states Let_def)

lemma odl_step_bytes:
  "jv_BytesDone (oa_view (odl_step a l)) = wrap64 (jv_BytesDone (oa_view a) + l_BytesDone l)"
  "jv_BytesTotal (oa_view (odl_step a l)) = wrap64 (jv_BytesTotal (oa_view a) + l_BytesTotal l)"
  by (simp_all add: odl_step_def Let_def)

lemma wrap64_add: "wrap64 (wrap64 m + n) = wrap64 (m + n)"
  using mod_add_left_eq [of "m + 2 ^ 63" "2 ^ 64" n] by (simp add: wrap64_def algebra_simps)

lemma foldl_odl_flags:
  "oa_allFinished (foldl odl_step a ls) = (oa_allFinished a \<and> list_all finished ls)"
  "oa_anyRunning (foldl odl_step a ls) = (oa_anyRunning a \<or> list_ex running ls)"
  "oa_anyFailed (foldl odl_step a ls) = (oa_anyFailed a \<or> list_ex broken ls)"
  "oa_anyStarted (foldl odl_step a ls) = (oa_anyStarted a \<or> list_ex (\<lambda>l. finished l \<or> running l) ls)"
  "oa_files (foldl odl_step a ls) = oa_files a @ filter (\<lambda>p. p \<noteq> '''') (map l_OutputPath ls)"
  by (induction ls arbitrary: a) (auto simp: odl_step_flags)

lemma foldl_odl_bytes:
  "jv_BytesDone (oa_view (foldl odl_step a ls)) =
     (if ls = [] then jv_BytesDone (oa_view a) else wrap64 (jv_BytesDone (oa_view a) + sum_list (map l_BytesDone ls)))"
  "jv_BytesTotal (oa_view (foldl odl_step a ls)) =
     (if ls = [] then jv_BytesTotal (oa_view a) else wrap64 (jv_BytesTotal (oa_view a) + sum_list (map l_BytesTotal ls)))"
  by (induction ls arbitrary: a) (auto simp: odl_step_bytes wrap64_add add.assoc)

text \<open>C38: The state of an oDownloader package, from the states of its links. It is completed
  exactly when every link is finished, and then its files are the links' output paths; it has
  failed when a link failed or was cancelled and none is still running; it is downloading when
  a link has started; otherwise it is queued. A package without links is reported as unknown.
  Byte counts are the sums over the links (as 64-bit integers).\<close>

theorem foldODL_spec:
  "foldODL [] = not_found_view \<and>
   (links \<noteq> [] \<longrightarrow>
      jv_State (foldODL links) =
        (if list_all finished links then StatusCompleted
         else if list_ex broken links \<and> \<not> list_ex running links then StatusFailed
         else if list_ex (\<lambda>l. finished l \<or> running l) links then StatusDownloading
         else StatusQueued) \<and>
      (list_all finished links \<longrightarrow> jv_Files (foldODL links) = Some (filter (\<lambda>p. p \<noteq> '''') (map l_OutputPath links))) \<and>
      jv_BytesDone (foldODL links) = wrap64 (sum_list (map l_BytesDone links)) \<and>
      jv_BytesTotal (foldODL links) = wrap64 (sum_list (map l_BytesTotal links)))"
  by (auto simp: foldODL_def Let_def foldl_odl_flags foldl_odl_bytes odl_start_def NewJobView_def)

theorem foldODL_spec_witness:
  "jv_State (foldODL [zero_odlDownloadView\<lparr>l_State := ''FINISHED''\<rparr>, zero_odlDownloadView\<lparr>l_State := ''FAILED''\<rparr>])
     = StatusFailed"
  using foldODL_spec [of "[zero_odlDownloadView\<lparr>l_State := ''FINISHED''\<rparr>, zero_odlDownloadView\<lparr>l_State := ''FAILED''\<rparr>]"]
  by (simp add: odl_states)

text \<open>A package id reaches oDownloader as one value. In the query it has no separator and
  reads back as the id, so it adds no parameter of its own; in the path it is one segment.\<close>

theorem package_id_one_value:
  "list_all (\<lambda>c. c \<notin> set ''&=#?/'') (QueryEscape jid) \<and> unescape (QueryEscape jid) EncodeQueryComponent = Some jid \<and>
   list_all (\<lambda>c. c \<notin> set ''/?#'') (PathEscape jid) \<and> unescape (PathEscape jid) EncodePathSegment = Some jid \<and>
   describe_path jid = ''/api/v1/downloads?packageId='' @ QueryEscape jid @ ''&size=1000'' \<and>
   remove_path jid = ''/api/v1/packages/'' @ PathEscape jid"
proof -
  have "c \<notin> set ''&=#?/''" if "c \<in> set (escape jid EncodeQueryComponent)" for c
    using escape_bytes [OF that] by (auto simp: is_hex_def shouldEscape_def is_alpha_def is_digit_def)
  moreover have "c \<notin> set ''/?#''" if "c \<in> set (escape jid EncodePathSegment)" for c
    using escape_bytes [OF that] by (auto simp: is_hex_def shouldEscape_def is_alpha_def is_digit_def)
  ultimately show ?thesis
    unfolding QueryEscape_def PathEscape_def list_all_iff describe_path_def remove_path_def
    by (simp only: unescape_escape insert_iff simp_thms) blast
qed

end
