(* ===== verification/Endpoint.thy ===== *)
theory Endpoint
  imports Net "HOL-Library.Word"
begin

text \<open>
  The endpoint policy of pushed clients (internal/adapters/endpoint.go): the addresses
  they must never connect to, checked on the address being dialled, and the redirects
  they follow. An address is netip's \<open>Addr\<close>: an IPv4 address, or an IPv6 address with an
  optional zone.
\<close>

unbundle bit_operations_syntax

datatype Addr = IPv4 "32 word" | IPv6 "128 word" string

text \<open>\<open>Addr.Unmap\<close>: an IPv4-mapped IPv6 address (\<open>::ffff:a.b.c.d\<close>) is the IPv4 address.\<close>

fun Unmap :: "Addr \<Rightarrow> Addr" where
  "Unmap (IPv4 a) = IPv4 a"
| "Unmap (IPv6 a z) = (if drop_bit 32 a = 0xFFFF then IPv4 (ucast a) else IPv6 a z)"

text \<open>\<open>Prefix.Contains\<close>: an address with a zone is in no prefix, and the families must
  agree.\<close>

fun contains4 :: "32 word \<Rightarrow> nat \<Rightarrow> Addr \<Rightarrow> bool" where
  "contains4 p bits (IPv4 a) \<longleftrightarrow> drop_bit (32 - bits) a = drop_bit (32 - bits) p"
| "contains4 p bits (IPv6 a z) \<longleftrightarrow> False"

fun contains6 :: "128 word \<Rightarrow> nat \<Rightarrow> Addr \<Rightarrow> bool" where
  "contains6 p bits (IPv4 a) \<longleftrightarrow> False"
| "contains6 p bits (IPv6 a z) \<longleftrightarrow> z = '''' \<and> drop_bit (128 - bits) a = drop_bit (128 - bits) p"

text \<open>169.254.0.0/16 and fe80::/10.\<close>

definition linkLocal4 :: "Addr \<Rightarrow> bool" where
  "linkLocal4 = contains4 0xA9FE0000 16"

definition linkLocal6 :: "Addr \<Rightarrow> bool" where
  "linkLocal6 = contains6 0xFE800000000000000000000000000000 10"

text \<open>100.100.100.200 and fd00:ec2::254.\<close>

definition metadataAddrs :: "Addr list" where
  "metadataAddrs = [IPv4 0x646464C8, IPv6 0xFD000EC2000000000000000000000254 '''']"

definition RefusedAddr :: "Addr \<Rightarrow> bool" where
  "RefusedAddr a0 =
     (let a = Unmap a0 in linkLocal4 a \<or> linkLocal6 a \<or> a \<in> set metadataAddrs)"

text \<open>
  The dialer's \<open>Control\<close> hook. \<open>split\<close> is \<open>net.SplitHostPort\<close> reduced to the host (\<open>None\<close>
  for an error) and \<open>parse_addr\<close> is \<open>netip.ParseAddr\<close>; the answer is whether the dial is
  refused.
\<close>

definition refuseDial ::
  "(string \<Rightarrow> string option) \<Rightarrow> (string \<Rightarrow> Addr option) \<Rightarrow> string \<Rightarrow> bool" where
  "refuseDial split parse_addr address =
     (let host = (case split address of None \<Rightarrow> address | Some h \<Rightarrow> h)
      in case parse_addr host of None \<Rightarrow> False | Some a \<Rightarrow> RefusedAddr a)"


section \<open>Redirects\<close>

datatype redirect = Follow | Stop_after_10 | Redirect_refused

text \<open>
  \<open>sameOrigin(req, via)\<close>: \<open>via\<close> are the requests already made, the first one first; net/http
  never calls it with an empty list. \<open>eq_fold\<close> is \<open>strings.EqualFold\<close>, equality under
  Unicode case folding, whose tables the model leaves open. A request is its scheme and
  its host, port included.
\<close>

definition sameOrigin ::
  "(string \<Rightarrow> string \<Rightarrow> bool) \<Rightarrow> string \<times> string \<Rightarrow> (string \<times> string) list \<Rightarrow> redirect" where
  "sameOrigin eq_fold req via =
     (if 10 \<le> length via then Stop_after_10
      else (case via of
              [] \<Rightarrow> Redirect_refused
            | first # _ \<Rightarrow>
              if \<not> eq_fold (fst req) (fst first) \<or> \<not> eq_fold (snd req) (snd first)
              then Redirect_refused else Follow))"

text \<open>\<open>guard\<close> installs the dialer and the redirect check, keeping timeout and jar.\<close>

definition guard :: "http_client \<Rightarrow> http_client" where
  "guard c = c\<lparr>hc_guarded := True\<rparr>"

text \<open>
  The requests a guarded client makes for one call: the first, then every redirect target
  the check lets it follow, in order.
\<close>

fun follow_redirects ::
  "(string \<Rightarrow> string \<Rightarrow> bool) \<Rightarrow> (string \<times> string) list \<Rightarrow> (string \<times> string) list \<Rightarrow> (string \<times> string) list" where
  "follow_redirects eq_fold via [] = via"
| "follow_redirects eq_fold via (target # targets) =
     (if sameOrigin eq_fold target via = Follow
      then follow_redirects eq_fold (via @ [target]) targets
      else via)"


section \<open>Properties\<close>

lemma link_local_prefixes:
  "drop_bit 16 (0xA9FE0000 :: 32 word) = 0xA9FE"
  "drop_bit 118 (0xFE800000000000000000000000000000 :: 128 word) = 0x3FA"
  by code_simp+

lemma mapped_drop: "drop_bit 32 (ucast (a :: 32 word) OR 0xFFFF00000000 :: 128 word) = 0xFFFF"
proof -
  have "drop_bit 32 (ucast a :: 128 word) = 0"
    by (rule bit_word_eqI) (auto simp: bit_simps dest: bit_imp_le_length)
  moreover have "drop_bit 32 (0xFFFF00000000 :: 128 word) = 0xFFFF" by code_simp
  ultimately show ?thesis by simp
qed

lemma mapped_ucast: "ucast (ucast (a :: 32 word) OR 0xFFFF00000000 :: 128 word) = a"
proof -
  have "ucast (0xFFFF00000000 :: 128 word) = (0 :: 32 word)" by code_simp
  moreover have "ucast (ucast a :: 128 word) = a" by (rule bit_word_eqI) (simp add: bit_simps)
  ultimately show ?thesis by (simp only: unsigned_or_eq or.right_neutral)
qed

text \<open>C30: The addresses a pushed client never connects to. An IPv4 address is refused exactly
  in 169.254.0.0/16 and at 100.100.100.200, whether it is written as IPv4 or mapped into IPv6;
  any other IPv6 address exactly in fe80::/10 and at fd00:ec2::254, and only without a
  zone: fe80::1\<open>%\<close>eth0 passes although fe80::/10 is refused.\<close>

theorem RefusedAddr_spec:
  "(RefusedAddr (IPv4 a) \<longleftrightarrow> drop_bit 16 a = 0xA9FE \<or> a = 0x646464C8) \<and>
   RefusedAddr (IPv6 (ucast a OR 0xFFFF00000000) z) = RefusedAddr (IPv4 a) \<and>
   (drop_bit 32 b \<noteq> 0xFFFF \<longrightarrow>
      (RefusedAddr (IPv6 b y) \<longleftrightarrow> y = '''' \<and> (drop_bit 118 b = 0x3FA \<or> b = 0xFD000EC2000000000000000000000254)))"
  using mapped_drop [of a] mapped_ucast [of a]
  by (auto simp: RefusedAddr_def Let_def linkLocal4_def linkLocal6_def metadataAddrs_def link_local_prefixes)

theorem RefusedAddr_spec_witness:
  "RefusedAddr (IPv4 0xA9FEA9FE) \<and> RefusedAddr (IPv6 0xFE800000000000000000000000000001 '''') \<and>
   \<not> RefusedAddr (IPv6 0xFE800000000000000000000000000001 ''eth0'')"
proof -
  have "drop_bit 32 (0xFE800000000000000000000000000001 :: 128 word) \<noteq> 0xFFFF"
    "drop_bit 118 (0xFE800000000000000000000000000001 :: 128 word) = 0x3FA"
    "drop_bit 16 (0xA9FEA9FE :: 32 word) = 0xA9FE" by code_simp+
  then show ?thesis
    using RefusedAddr_spec [of "0xA9FEA9FE" "''''" "0xFE800000000000000000000000000001" "''''"]
      RefusedAddr_spec [of "0xA9FEA9FE" "''''" "0xFE800000000000000000000000000001" "''eth0''"] by simp
qed

lemma follow_redirects_inv:
  assumes "via \<noteq> []" "length via \<le> 10" "list_all (\<lambda>r. eq (fst r) (fst (hd via)) \<and> eq (snd r) (snd (hd via))) (tl via)"
  shows "let out = follow_redirects eq via targets in
    length out \<le> 10 \<and> hd out = hd via \<and>
    list_all (\<lambda>r. eq (fst r) (fst (hd via)) \<and> eq (snd r) (snd (hd via))) (tl out)"
  using assms
proof (induction eq via targets rule: follow_redirects.induct)
  case (2 eq via target targets)
  show ?case
  proof (cases "sameOrigin eq target via = Follow")
    case True
    then have "length via < 10" "eq (fst target) (fst (hd via)) \<and> eq (snd target) (snd (hd via))"
      using 2(2) by (auto simp: sameOrigin_def split: if_splits list.splits)
    with 2(1) [OF True] 2(2-4) True show ?thesis by (simp add: Let_def)
  qed (use 2 in \<open>simp add: Let_def\<close>)
qed (simp add: Let_def)

text \<open>C31: A guarded client makes at most ten requests for one call, and each goes to the scheme
  and host of the first one, whatever redirects the endpoint answers with.\<close>

theorem redirects_stay:
  "length (follow_redirects eq_fold [first] targets) \<le> 10 \<and>
   list_all (\<lambda>r. eq_fold (fst r) (fst first) \<and> eq_fold (snd r) (snd first)) (tl (follow_redirects eq_fold [first] targets))"
  using follow_redirects_inv [of "[first]" eq_fold targets] by (simp add: Let_def)

end
