(* ===== verification/Clients.thy ===== *)
theory Clients
  imports Nzbget Qbittorrent Odownloader Endpoint
begin

text \<open>
  Client types and client configuration (internal/adapters/clients.go): the catalog of
  adapter types, the validation and normal form of a pushed client (\<open>PrepareSpec\<close>), the
  adapter built from it, the fingerprint that tells a changed client from an unchanged
  one, and the views of a client that leave its secret out.
\<close>

record TypeInfo =
  ty_Type :: string
  ty_Protocols :: "string list"
  ty_Auth :: "string list"
  ty_AcceptsPayload :: bool
  ty_SupportsSavePath :: bool
  ty_CanPause :: bool

definition AuthBasic :: string where "AuthBasic = ''basic''"

definition AuthToken :: string where "AuthToken = ''token''"

definition AuthNone :: string where "AuthNone = ''none''"

datatype Source = SourceEnv | SourceAPI

text \<open>The \<open>catalog\<close>; the \<open>build\<close> function of each type is a branch of \<open>buildClient\<close>.\<close>

definition catalog :: "TypeInfo list" where
  "catalog =
     [\<lparr>ty_Type = ''nzbget'', ty_Protocols = [''usenet''], ty_Auth = [AuthBasic, AuthNone],
       ty_AcceptsPayload = True, ty_SupportsSavePath = False, ty_CanPause = True\<rparr>,
      \<lparr>ty_Type = ''odownloader'', ty_Protocols = [''http''], ty_Auth = [AuthToken, AuthNone],
       ty_AcceptsPayload = False, ty_SupportsSavePath = False, ty_CanPause = False\<rparr>,
      \<lparr>ty_Type = ''qbittorrent'', ty_Protocols = [''torrent''], ty_Auth = [AuthBasic, AuthNone],
       ty_AcceptsPayload = True, ty_SupportsSavePath = True, ty_CanPause = True\<rparr>]"

text \<open>\<open>Types\<close> copies the catalog, which here needs no copying.\<close>

definition Types :: "TypeInfo list" where
  "Types = catalog"

definition LookupType :: "string \<Rightarrow> TypeInfo option" where
  "LookupType name = find (\<lambda>t. ty_Type t = name) catalog"

record ClientSpec =
  sp_ID :: string
  sp_Type :: string
  sp_BaseURL :: string
  sp_Auth :: string
  sp_Username :: string
  sp_Secret :: string
  sp_Category :: string
  sp_SavePath :: string
  sp_Protocols :: "string list"

definition zero_ClientSpec :: ClientSpec where
  "zero_ClientSpec = \<lparr>sp_ID = '''', sp_Type = '''', sp_BaseURL = '''', sp_Auth = '''',
     sp_Username = '''', sp_Secret = '''', sp_Category = '''', sp_SavePath = '''', sp_Protocols = []\<rparr>"

definition RedactURL :: "string \<Rightarrow> string" where
  "RedactURL raw =
     (case Parse raw of
        None \<Rightarrow> ''''
      | Some u \<Rightarrow> (case u_User u of None \<Rightarrow> raw | Some _ \<Rightarrow> URL_String (u\<lparr>u_User := None\<rparr>)))"

record ClientInfo =
  ci_ID :: string
  ci_Type :: string
  ci_BaseURL :: string
  ci_Auth :: string
  ci_Username :: string
  ci_Category :: string
  ci_SavePath :: string
  ci_Protocols :: "string list"
  ci_Source :: "Source option"
  ci_SecretSet :: bool

definition spec_info :: "ClientSpec \<Rightarrow> Source option \<Rightarrow> ClientInfo" where
  "spec_info s source =
     \<lparr>ci_ID = sp_ID s, ci_Type = sp_Type s, ci_BaseURL = RedactURL (sp_BaseURL s),
      ci_Auth = sp_Auth s, ci_Username = sp_Username s, ci_Category = sp_Category s,
      ci_SavePath = sp_SavePath s, ci_Protocols = sp_Protocols s, ci_Source = source,
      ci_SecretSet = (sp_Secret s \<noteq> '''')\<rparr>"

text \<open>What \<open>MarshalJSON\<close> encodes, and the attributes \<open>LogValue\<close> logs.\<close>

definition spec_MarshalJSON :: "ClientSpec \<Rightarrow> ClientInfo" where
  "spec_MarshalJSON s = spec_info s None"

definition spec_LogValue :: "ClientSpec \<Rightarrow> (string \<times> string) list" where
  "spec_LogValue s =
     [(''id'', sp_ID s), (''type'', sp_Type s), (''base_url'', RedactURL (sp_BaseURL s)),
      (''auth'', sp_Auth s), (''category'', sp_Category s),
      (''secret_set'', if sp_Secret s \<noteq> '''' then ''true'' else ''false'')]"

text \<open>What the adapters log of themselves; a flag is logged as \<open>true\<close> or \<open>false\<close>.\<close>

definition log_bool :: "bool \<Rightarrow> string" where
  "log_bool b = (if b then ''true'' else ''false'')"

definition NZBGet_LogValue :: "NZBGet \<Rightarrow> (string \<times> string) list" where
  "NZBGet_LogValue n =
     [(''base_url'', RedactURL (nz_BaseURL n)), (''category'', nz_Category n),
      (''password_set'', log_bool (nz_Password n \<noteq> ''''))]"

definition QB_LogValue :: "QBittorrent \<Rightarrow> (string \<times> string) list" where
  "QB_LogValue q =
     [(''base_url'', RedactURL (qb_BaseURL q)), (''category'', qb_Category q),
      (''password_set'', log_bool (qb_Password q \<noteq> ''''))]"

definition OD_LogValue :: "ODownloader \<Rightarrow> (string \<times> string) list" where
  "OD_LogValue od =
     [(''base_url'', RedactURL (od_BaseURL od)), (''token_set'', log_bool (od_Token od \<noteq> ''''))]"


section \<open>Validation\<close>

text \<open>The pattern \<open>^[a-z0-9][a-z0-9-]{0,39}$\<close>.\<close>

definition id_byte :: "char \<Rightarrow> bool" where
  "id_byte c \<longleftrightarrow> (let b = (of_char c :: nat) in 97 \<le> b \<and> b \<le> 122 \<or> 48 \<le> b \<and> b \<le> 57)"

definition ValidClientID :: "string \<Rightarrow> bool" where
  "ValidClientID cid =
     (case cid of
        [] \<Rightarrow> False
      | c # cs \<Rightarrow> id_byte c \<and> length cs \<le> 39 \<and> list_all (\<lambda>d. id_byte d \<or> d = CHR ''-'') cs)"

definition maxBaseURL :: nat where "maxBaseURL = 2048"

definition maxUsername :: nat where "maxUsername = 256"

definition maxSecret :: nat where "maxSecret = 4096"

definition maxCategory :: nat where "maxCategory = 128"

definition maxSavePath :: nat where "maxSavePath = 1024"

text \<open>The base URL checks, in the order of the switch; the result is the error text.\<close>

definition check_base_url :: "string \<Rightarrow> string option" where
  "check_base_url raw =
     (case (if raw = '''' \<or> maxBaseURL < length raw then None else Parse raw) of
        None \<Rightarrow> Some ''baseUrl must be an absolute http or https URL''
      | Some u \<Rightarrow>
        if u_Scheme u \<noteq> ''http'' \<and> u_Scheme u \<noteq> ''https'' \<or> u_Host u = ''''
        then Some ''baseUrl must be an absolute http or https URL''
        else if u_User u \<noteq> None
        then Some ''baseUrl must not carry credentials; use username and secret''
        else if contains_any raw ''?#''
        then Some ''baseUrl must not have a query or fragment''
        else None)"

text \<open>The credentials of the auth mode: the username and secret that are kept.\<close>

definition prepare_credentials ::
  "string \<Rightarrow> string \<Rightarrow> string \<Rightarrow> string + string \<times> string" where
  "prepare_credentials auth user secret =
     (if auth = AuthBasic then
        (if user = '''' then Inl ''username is required for basic auth'' else Inr (user, secret))
      else if auth = AuthToken then
        (if secret = '''' then Inl ''secret is required for token auth'' else Inr ('''', secret))
      else if auth = AuthNone then Inr ('''', '''')
      else Inr (user, secret))"

fun check_fields :: "(string \<times> string \<times> nat) list \<Rightarrow> string option" where
  "check_fields [] = None"
| "check_fields ((name, val, limit) # fs) =
     (if limit < length val
      then Some (name @ '' is longer than '' @ itoa (int limit) @ '' bytes'')
      else if list_ex isControl val
      then Some (name @ '' must not contain control characters'')
      else check_fields fs)"

text \<open>The protocol loop: trimmed, within the type's, each kept once.\<close>

fun prepare_protocols :: "string list \<Rightarrow> string list \<Rightarrow> string list \<Rightarrow> string list option" where
  "prepare_protocols allowed [] acc = Some acc"
| "prepare_protocols allowed (p # ps) acc =
     (let q = trim_space p in
      if q \<notin> set allowed then None
      else prepare_protocols allowed ps (if q \<in> set acc then acc else acc @ [q]))"

definition PrepareSpec :: "ClientSpec \<Rightarrow> string + ClientSpec" where
  "PrepareSpec s0 =
     (let s1 = s0\<lparr>sp_ID := trim_space (sp_ID s0), sp_Type := trim_space (sp_Type s0)\<rparr> in
      case LookupType (sp_Type s1) of
        None \<Rightarrow> Inl (''type must be one of '' @ join (map ty_Type catalog) '', '')
      | Some ti \<Rightarrow>
        (let raw = trim_space (sp_BaseURL s1) in
         case check_base_url raw of
           Some e \<Rightarrow> Inl e
         | None \<Rightarrow>
           (let auth = trim_space (sp_Auth s1) in
            if auth \<notin> set (ty_Auth ti)
            then Inl (''auth must be one of '' @ join (ty_Auth ti) '', '' @ '' for '' @ ty_Type ti)
            else
              (case prepare_credentials auth (trim_space (sp_Username s1)) (sp_Secret s1) of
                 Inl e \<Rightarrow> Inl e
               | Inr (user, secret) \<Rightarrow>
                 (let category = trim_space (sp_Category s1);
                      savePath = trim_space (sp_SavePath s1)
                  in case check_fields [(''username'', user, maxUsername), (''secret'', secret, maxSecret),
                            (''category'', category, maxCategory), (''savePath'', savePath, maxSavePath)] of
                       Some e \<Rightarrow> Inl e
                     | None \<Rightarrow>
                       (case prepare_protocols (ty_Protocols ti) (sp_Protocols s1) [] of
                          None \<Rightarrow> Inl (''protocols for '' @ ty_Type ti @ '' must be within ''
                                    @ join (ty_Protocols ti) '', '')
                        | Some ps \<Rightarrow>
                          Inr (s1\<lparr>sp_BaseURL := trim_right raw ''/'', sp_Auth := auth,
                                  sp_Username := user, sp_Secret := secret,
                                  sp_Category := category, sp_SavePath := savePath,
                                  sp_Protocols := sort (if ps = [] then ty_Protocols ti else ps)\<rparr>)))))))"


section \<open>Building and fingerprinting\<close>

text \<open>
  The adapter for a spec that \<open>PrepareSpec\<close> accepted, so its type is one of the catalog's
  three (\<open>PrepareSpec_type\<close> below); the last branch is \<open>odownloader\<close>.
\<close>

definition buildClient :: "'w ext \<Rightarrow> ClientSpec \<Rightarrow> 'w \<Rightarrow> 'w Adapter \<times> 'w" where
  "buildClient x s w =
     (if sp_Type s = ''nzbget'' then
        (let n = NewNZBGet (sp_BaseURL s) (sp_Username s) (sp_Secret s) (sp_Category s)
         in (nzbget_adapter x (n\<lparr>nz_HTTP := guard (nz_HTTP n)\<rparr>), w))
      else if sp_Type s = ''qbittorrent'' then
        (case NewQBittorrent x (sp_BaseURL s) (sp_Username s) (sp_Secret s) w of
           (q, w') \<Rightarrow>
             (qbittorrent_adapter x
                (q\<lparr>qb_Category := sp_Category s, qb_HTTP := guard (qb_HTTP q)\<rparr>), w'))
      else
        (let od = NewODownloader (sp_BaseURL s) (sp_Secret s)
         in (odownloader_adapter x (od\<lparr>od_HTTP := guard (od_HTTP od)\<rparr>), w)))"

definition NewClient ::
  "'w ext \<Rightarrow> ClientSpec \<Rightarrow> 'w \<Rightarrow> (string + 'w Adapter \<times> ClientSpec) \<times> 'w" where
  "NewClient x spec w =
     (case PrepareSpec spec of
        Inl e \<Rightarrow> (Inl e, w)
      | Inr s \<Rightarrow> (case buildClient x s w of (ad, w') \<Rightarrow> (Inr (ad, s), w')))"

text \<open>What \<open>specHash\<close> feeds to SHA-256: each field with its length in front.\<close>

definition fingerprint_field :: "string \<Rightarrow> string" where
  "fingerprint_field f = itoa (int (length f)) @ '':'' @ f @ ''|''"

definition fingerprint_fields :: "ClientSpec \<Rightarrow> string list" where
  "fingerprint_fields s =
     [sp_Type s, sp_BaseURL s, sp_Auth s, sp_Username s, sp_Secret s, sp_Category s,
      sp_SavePath s, join (sp_Protocols s) '','']"

definition fingerprint :: "ClientSpec \<Rightarrow> string" where
  "fingerprint s = concat (map fingerprint_field (fingerprint_fields s))"

definition specHash :: "'w ext \<Rightarrow> ClientSpec \<Rightarrow> bytes" where
  "specHash x s = x_Sha256 x (fingerprint s)"


section \<open>Lemmas\<close>

lemma LookupType_cases:
  "LookupType n = Some ti \<Longrightarrow> ti \<in> set catalog \<and> ty_Type ti = n"
  by (auto simp: LookupType_def find_Some_iff)

lemma LookupType_names:
  "LookupType n \<noteq> None \<longleftrightarrow> n \<in> {''nzbget'', ''odownloader'', ''qbittorrent''}"
  by (auto simp: LookupType_def catalog_def)

lemma check_fields_None:
  "check_fields fs = None \<longleftrightarrow>
     (\<forall>(name, val, limit) \<in> set fs. length val \<le> limit \<and> \<not> list_ex isControl val)"
  by (induction fs rule: check_fields.induct) auto

lemma prepare_protocols_Some:
  "prepare_protocols allowed ps acc = Some r \<Longrightarrow> distinct acc \<Longrightarrow> set acc \<subseteq> set allowed \<Longrightarrow>
     distinct r \<and> set r \<subseteq> set allowed \<and> set r = set acc \<union> set (map trim_space ps)"
proof (induction ps arbitrary: acc)
  case (Cons p ps)
  let ?acc = "if trim_space p \<in> set acc then acc else acc @ [trim_space p]"
  from Cons.prems have "prepare_protocols allowed ps ?acc = Some r"
    and "distinct ?acc" "set ?acc \<subseteq> set allowed"
    by (auto simp: Let_def split: if_splits)
  from Cons.IH [OF this] show ?case by (auto split: if_splits)
qed auto

lemma prepare_protocols_id:
  "set ps \<subseteq> set allowed \<Longrightarrow> distinct (acc @ ps) \<Longrightarrow> (\<forall>p \<in> set ps. trim_space p = p) \<Longrightarrow>
     prepare_protocols allowed ps acc = Some (acc @ ps)"
  by (induction ps arbitrary: acc) (auto simp: Let_def)

text \<open>A number's digits end at the colon, so a length prefix can be read back.\<close>

lemma nat_digits_colon: "CHR '':'' \<notin> set (nat_digits n)"
  using nat_digits_digits [of n] by (auto simp: list_all_iff is_digit_def)

lemma fingerprint_field_inj:
  assumes "fingerprint_field f @ s = fingerprint_field g @ t"
  shows "f = g \<and> s = t"
proof -
  let ?n = "\<lambda>f. nat_digits (length f)"
  have "?n f @ CHR '':'' # (f @ ''|'' @ s) = ?n g @ CHR '':'' # (g @ ''|'' @ t)"
    using assms by (simp add: fingerprint_field_def itoa_def)
  from append_sep_inj [OF nat_digits_colon nat_digits_colon this]
  have "?n f = ?n g" and rest: "f @ ''|'' @ s = g @ ''|'' @ t" by auto
  then have "length f = length g" by (metis digits_val_nat_digits)
  with rest show ?thesis by simp
qed

lemma fingerprint_concat_inj:
  "length fs = length gs \<Longrightarrow>
     concat (map fingerprint_field fs) = concat (map fingerprint_field gs) \<Longrightarrow> fs = gs"
proof (induction fs gs rule: list_induct2)
  case (Cons f fs g gs)
  from Cons.prems have "fingerprint_field f @ concat (map fingerprint_field fs)
      = fingerprint_field g @ concat (map fingerprint_field gs)" by simp
  from fingerprint_field_inj [OF this] Cons.IH show ?case by simp
qed simp


text \<open>The steps of a successful \<open>PrepareSpec\<close>, for the proofs about its result.\<close>

lemma PrepareSpec_InrE:
  assumes "PrepareSpec s0 = Inr s"
  obtains ti user secret ps where
    "LookupType (trim_space (sp_Type s0)) = Some ti"
    "check_base_url (trim_space (sp_BaseURL s0)) = None"
    "trim_space (sp_Auth s0) \<in> set (ty_Auth ti)"
    "prepare_credentials (trim_space (sp_Auth s0)) (trim_space (sp_Username s0)) (sp_Secret s0)
       = Inr (user, secret)"
    "check_fields [(''username'', user, maxUsername), (''secret'', secret, maxSecret),
       (''category'', trim_space (sp_Category s0), maxCategory),
       (''savePath'', trim_space (sp_SavePath s0), maxSavePath)] = None"
    "prepare_protocols (ty_Protocols ti) (sp_Protocols s0) [] = Some ps"
    "s = \<lparr>sp_ID = trim_space (sp_ID s0), sp_Type = trim_space (sp_Type s0),
          sp_BaseURL = trim_right (trim_space (sp_BaseURL s0)) ''/'',
          sp_Auth = trim_space (sp_Auth s0), sp_Username = user, sp_Secret = secret,
          sp_Category = trim_space (sp_Category s0), sp_SavePath = trim_space (sp_SavePath s0),
          sp_Protocols = sort (if ps = [] then ty_Protocols ti else ps)\<rparr>"
  using assms
  by (auto simp: PrepareSpec_def Let_def split: option.splits sum.splits prod.splits if_splits)

lemma PrepareSpec_id: "PrepareSpec s0 = Inr s \<Longrightarrow> sp_ID s = trim_space (sp_ID s0)"
  by (elim PrepareSpec_InrE) simp

lemma PrepareSpec_type:
  "PrepareSpec s0 = Inr s \<Longrightarrow> sp_Type s \<in> {''nzbget'', ''odownloader'', ''qbittorrent''}"
proof (elim PrepareSpec_InrE)
  fix ti
  assume "LookupType (trim_space (sp_Type s0)) = Some ti"
  then have "LookupType (trim_space (sp_Type s0)) \<noteq> None" by simp
  then show "s = \<lparr>sp_ID = i, sp_Type = trim_space (sp_Type s0), sp_BaseURL = u, sp_Auth = a,
      sp_Username = n, sp_Secret = k, sp_Category = c, sp_SavePath = v, sp_Protocols = p\<rparr> \<Longrightarrow>
      sp_Type s \<in> {''nzbget'', ''odownloader'', ''qbittorrent''}" for i u a n k c v p
    by (simp only: LookupType_names ClientSpec.simps)
qed


section \<open>Properties\<close>

definition spec_ok :: "ClientSpec \<Rightarrow> bool" where
  "spec_ok s \<longleftrightarrow>
     (case LookupType (sp_Type s) of
        None \<Rightarrow> False
      | Some ti \<Rightarrow>
        sp_Auth s \<in> set (ty_Auth ti) \<and> sorted (sp_Protocols s) \<and> distinct (sp_Protocols s) \<and>
        sp_Protocols s \<noteq> [] \<and> set (sp_Protocols s) \<subseteq> set (ty_Protocols ti)) \<and>
     (sp_Auth s = AuthBasic \<longrightarrow> sp_Username s \<noteq> '''') \<and>
     (sp_Auth s = AuthToken \<longrightarrow> sp_Username s = '''' \<and> sp_Secret s \<noteq> '''') \<and>
     (sp_Auth s = AuthNone \<longrightarrow> sp_Username s = '''' \<and> sp_Secret s = '''') \<and>
     length (sp_BaseURL s) \<le> maxBaseURL \<and> \<not> contains_any (sp_BaseURL s) ''?#'' \<and>
     (case Parse (sp_BaseURL s) of
        None \<Rightarrow> False
      | Some u \<Rightarrow> (u_Scheme u = ''http'' \<or> u_Scheme u = ''https'') \<and> u_Host u \<noteq> '''' \<and> u_User u = None) \<and>
     \<not> has_suffix (sp_BaseURL s) ''/'' \<and>
     list_all (\<lambda>(v, limit). length v \<le> limit \<and> \<not> list_ex isControl v)
       [(sp_Username s, maxUsername), (sp_Secret s, maxSecret), (sp_Category s, maxCategory),
        (sp_SavePath s, maxSavePath)]"

lemma catalog_protocols: "ti \<in> set catalog \<Longrightarrow> \<exists>p. ty_Protocols ti = [p] \<and> CHR '','' \<notin> set p"
  by (auto simp: catalog_def)

lemma has_suffix_last: "has_suffix s [c] \<longleftrightarrow> s \<noteq> [] \<and> last s = c"
  by (cases s rule: rev_cases) (auto simp: has_suffix_iff)

lemma prepared_protocols:
  assumes "ti \<in> set catalog" "prepare_protocols (ty_Protocols ti) ps [] = Some r"
  shows "sort (if r = [] then ty_Protocols ti else r) = ty_Protocols ti"
proof -
  obtain p where p: "ty_Protocols ti = [p]" using catalog_protocols [OF assms(1)] by auto
  have "distinct r" "set r \<subseteq> {p}" using prepare_protocols_Some [OF assms(2)] p by auto
  then have "r = [] \<or> r = [p]" by (cases r rule: list.exhaust) (auto simp: subset_singleton_iff)
  then show ?thesis using p by auto
qed

lemma check_base_urlD:
  assumes "check_base_url raw = None"
  obtains u where "length raw \<le> maxBaseURL" "CHR ''?'' \<notin> set raw" "CHR ''#'' \<notin> set raw" "Parse raw = Some u"
    "u_Scheme u \<in> {''http'', ''https''}" "u_Host u \<noteq> ''''" "u_User u = None"
  using assms by (auto simp: check_base_url_def contains_any_def list_ex_iff split: if_splits option.splits)

text \<open>Cutting the slashes leaves a URL that passes the same checks.\<close>

lemma check_base_url_trim:
  assumes "check_base_url raw = None"
  shows "check_base_url (trim_right raw ''/'') = None"
proof (rule check_base_urlD [OF assms])
  fix u
  assume u: "length raw \<le> maxBaseURL" "CHR ''?'' \<notin> set raw" "CHR ''#'' \<notin> set raw" "Parse raw = Some u"
    "u_Scheme u \<in> {''http'', ''https''}" "u_Host u \<noteq> ''''" "u_User u = None"
  then have "u_Scheme u \<noteq> []" by auto
  from Parse_trim_slashes [OF u(4,2,3) this u(6)] obtain v where v: "Parse (trim_right raw ''/'') = Some v"
    "u_Scheme v = u_Scheme u" "u_Host v = u_Host u" "u_User v = u_User u" by blast
  obtain t where "raw = trim_right raw ''/'' @ t" using trim_right_prefix by blast
  then have "length (trim_right raw ''/'') \<le> maxBaseURL" using u(1) by (metis length_append le_add1 le_trans)
  moreover have "case Parse '''' of None \<Rightarrow> True | Some v \<Rightarrow> u_Host v = ''''" by code_simp
  moreover have "\<not> contains_any (trim_right raw ''/'') ''?#''"
    using u(2,3) trim_right_subset [of raw "''/''"] by (auto simp: contains_any_def list_ex_iff)
  ultimately show ?thesis using v u(5-7) by (auto simp: check_base_url_def)
qed

text \<open>C26: What \<open>PrepareSpec\<close> lets through. The type is one of the catalog's; the auth mode is
  one of the type's and the credentials are exactly those it uses; the protocols are a sorted,
  non-empty, duplicate-free choice of the type's; the base URL, as it is kept, parses as an http or
  https URL with a host and without user information, and has no query, no fragment and no
  trailing slash; every field is within its limit, and user name, secret, category and save path are
  free of control characters.\<close>

theorem PrepareSpec_ok:
  assumes "PrepareSpec s0 = Inr s"
  shows "spec_ok s"
  using assms
proof (cases rule: PrepareSpec_InrE)
  case (1 ti user secret ps)
  have ti: "ti \<in> set catalog" using LookupType_cases [OF 1(1)] by simp
  obtain p where p: "ty_Protocols ti = [p]" using catalog_protocols [OF ti] by auto
  have protos: "sp_Protocols s = [p]" using prepared_protocols [OF ti 1(6)] p 1(7) by simp
  let ?url = "trim_right (trim_space (sp_BaseURL s0)) ''/''"
  obtain u where "length ?url \<le> maxBaseURL" "CHR ''?'' \<notin> set ?url" "CHR ''#'' \<notin> set ?url" "Parse ?url = Some u"
    "u_Scheme u \<in> {''http'', ''https''}" "u_Host u \<noteq> ''''" "u_User u = None"
    using check_base_urlD [OF check_base_url_trim [OF 1(2)]] .
  moreover have "\<not> has_suffix ?url ''/''"
    using trim_right_last [of "trim_space (sp_BaseURL s0)" "''/''"] by (auto simp: has_suffix_last)
  ultimately show ?thesis
    using 1 p protos
    by (auto simp: spec_ok_def check_fields_None prepare_credentials_def AuthBasic_def AuthToken_def
        AuthNone_def contains_any_def list_ex_iff split: if_splits)
qed

text \<open>A pushed client to evaluate the properties on, and its normal form.\<close>

definition demo_spec :: ClientSpec where
  "demo_spec = zero_ClientSpec\<lparr>sp_ID := ''nz'', sp_Type := ''nzbget'', sp_BaseURL := ''http://nzb/'',
     sp_Auth := ''basic'', sp_Username := ''u'', sp_Secret := ''s''\<rparr>"

definition demo_prepared :: ClientSpec where
  "demo_prepared = \<lparr>sp_ID = ''nz'', sp_Type = ''nzbget'', sp_BaseURL = ''http://nzb'',
     sp_Auth = ''basic'', sp_Username = ''u'', sp_Secret = ''s'', sp_Category = '''',
     sp_SavePath = '''', sp_Protocols = [''usenet'']\<rparr>"

lemma PrepareSpec_demo: "PrepareSpec demo_spec = Inr demo_prepared"
  by code_simp

theorem PrepareSpec_ok_witness: "PrepareSpec demo_spec = Inr demo_prepared \<and> spec_ok demo_prepared"
  using PrepareSpec_ok [OF PrepareSpec_demo] PrepareSpec_demo by simp

lemma prepared_fingerprint:
  assumes "PrepareSpec a = Inr s" "PrepareSpec b = Inr t" "sp_ID s = sp_ID t"
    "fingerprint s = fingerprint t"
  shows "s = t"
proof -
  have "fingerprint_fields s = fingerprint_fields t"
    using fingerprint_concat_inj [of "fingerprint_fields s" "fingerprint_fields t"] assms(4)
    by (simp add: fingerprint_def fingerprint_fields_def)
  then have eq: "sp_Type s = sp_Type t" "sp_BaseURL s = sp_BaseURL t" "sp_Auth s = sp_Auth t"
    "sp_Username s = sp_Username t" "sp_Secret s = sp_Secret t" "sp_Category s = sp_Category t"
    "sp_SavePath s = sp_SavePath t" by (simp_all add: fingerprint_fields_def)
  have "sp_Protocols s = (case LookupType (sp_Type s) of Some ti \<Rightarrow> ty_Protocols ti | None \<Rightarrow> [])"
    if "PrepareSpec a = Inr s" for a s
    using that
  proof (cases rule: PrepareSpec_InrE)
    case (1 ti user secret ps)
    then show ?thesis using prepared_protocols [OF _ 1(6)] LookupType_cases [OF 1(1)] by simp
  qed
  from this [OF assms(1)] this [OF assms(2)] eq assms(3) show ?thesis by simp
qed

text \<open>C27: A changed client is always noticed. Two prepared specs for the same id are hashed from
  the same text only when they are equal, because every field is written with its length in
  front: no value can imitate a field boundary.\<close>

theorem fingerprint_determines:
  assumes "PrepareSpec a = Inr s" "PrepareSpec b = Inr t" "sp_ID s = sp_ID t"
    "fingerprint s = fingerprint t"
  shows "s = t"
  using prepared_fingerprint [OF assms] .

theorem fingerprint_determines_witness:
  "PrepareSpec (demo_spec\<lparr>sp_BaseURL := ''http://nzb//''\<rparr>) = PrepareSpec demo_spec"
proof -
  have p: "PrepareSpec (demo_spec\<lparr>sp_BaseURL := ''http://nzb//''\<rparr>) = Inr demo_prepared" by code_simp
  from fingerprint_determines [OF p PrepareSpec_demo] p PrepareSpec_demo show ?thesis by simp
qed

text \<open>The normal form of a base URL is not always trimmed: white space in front of a
  trailing slash stays when the slash is cut.\<close>

theorem PrepareSpec_keeps_space:
  "(case PrepareSpec (zero_ClientSpec\<lparr>sp_Type := ''nzbget'', sp_Auth := ''none'', sp_BaseURL := ''http://h/a /''\<rparr>) of
      Inr s \<Rightarrow> sp_BaseURL s = ''http://h/a '' | Inl _ \<Rightarrow> False)"
  by code_simp

end
