(* ===== verification/Registry.thy ===== *)
theory Registry
  imports Clients
begin

text \<open>
  The registry of clients (internal/adapters/registry.go): environment clients added at
  boot, pushed clients replaced as a set by \<open>Apply\<close>, leases that keep a client from being
  dropped while an add is in flight, and \<open>Reap\<close>, which drops the clients that have
  drained. Every operation holds the registry lock throughout, so each is one function on
  the registry's state.
\<close>

record 'w Client =
  cl_ID :: string
  cl_Type :: string
  cl_Source :: Source
  cl_Category :: string
  cl_SavePath :: string
  cl_Adapter :: "'w Adapter"

record 'w entry =
  e_spec :: ClientSpec
  e_secretSet :: bool
  e_source :: Source
  e_adapter :: "'w Adapter"
  e_hash :: bytes
  e_draining :: bool

definition entry_client :: "'w entry \<Rightarrow> 'w Client" where
  "entry_client e =
     \<lparr>cl_ID = sp_ID (e_spec e), cl_Type = sp_Type (e_spec e), cl_Source = e_source e,
      cl_Category = sp_Category (e_spec e), cl_SavePath = sp_SavePath (e_spec e),
      cl_Adapter = e_adapter e\<rparr>"

record 'w Registry =
  r_clients :: "(string \<times> 'w entry) list"
  r_leases :: "(string \<times> int) list"
  r_revision :: int

definition empty_Registry :: "'w Registry" where
  "empty_Registry = \<lparr>r_clients = [], r_leases = [], r_revision = 0\<rparr>"

text \<open>The zero value of the hash array, which environment clients keep.\<close>

definition zero_hash :: bytes where
  "zero_hash = replicate 32 (byte_of 0)"


section \<open>Registration and lookup\<close>

text \<open>The defaults \<open>AddEnv\<close> fills in; a nil adapter is \<open>None\<close> and is not registered.\<close>

definition env_spec :: "ClientSpec \<Rightarrow> 'w Adapter \<Rightarrow> ClientSpec" where
  "env_spec spec ad =
     (let s = (if sp_ID spec = '''' then spec\<lparr>sp_ID := ad_Name ad\<rparr> else spec);
          s = (if sp_Type s = '''' then s\<lparr>sp_Type := ad_Name ad\<rparr> else s);
          s = (if sp_Protocols s = []
               then (case LookupType (sp_Type s) of
                       Some ti \<Rightarrow> s\<lparr>sp_Protocols := ty_Protocols ti\<rparr> | None \<Rightarrow> s)
               else s)
      in s)"

definition AddEnv :: "ClientSpec \<Rightarrow> 'w Adapter option \<Rightarrow> 'w Registry \<Rightarrow> 'w Registry" where
  "AddEnv spec adapter r =
     (case adapter of
        None \<Rightarrow> r
      | Some ad \<Rightarrow>
        (let s = env_spec spec ad;
             e = \<lparr>e_spec = s\<lparr>sp_Secret := ''''\<rparr>, e_secretSet = (sp_Secret s \<noteq> ''''), e_source = SourceEnv,
                  e_adapter = ad, e_hash = zero_hash, e_draining = False\<rparr>
         in r\<lparr>r_clients := AList.update (sp_ID s) e (r_clients r)\<rparr>))"

definition NewRegistry :: "'w Adapter option list \<Rightarrow> 'w Registry" where
  "NewRegistry ads = foldl (\<lambda>r ad. AddEnv zero_ClientSpec ad r) empty_Registry ads"

definition Get :: "'w Registry \<Rightarrow> string \<Rightarrow> 'w Adapter option" where
  "Get r cid = (case map_of (r_clients r) cid of Some e \<Rightarrow> Some (e_adapter e) | None \<Rightarrow> None)"

definition Lookup :: "'w Registry \<Rightarrow> string \<Rightarrow> 'w Client option" where
  "Lookup r cid = map_option entry_client (map_of (r_clients r) cid)"

text \<open>The lease count of a client: 0 when the map has no entry.\<close>

definition lease_count :: "'w Registry \<Rightarrow> string \<Rightarrow> int" where
  "lease_count r cid = (case map_of (r_leases r) cid of Some n \<Rightarrow> n | None \<Rightarrow> 0)"

definition Lease :: "string \<Rightarrow> 'w Registry \<Rightarrow> (go_error + 'w Client) \<times> 'w Registry" where
  "Lease cid r =
     (case map_of (r_clients r) cid of
        None \<Rightarrow> (Inl ErrUnknownClient, r)
      | Some e \<Rightarrow>
        if e_draining e then (Inl ErrClientDraining, r)
        else (Inr (entry_client e),
              r\<lparr>r_leases := AList.update cid (lease_count r cid + 1) (r_leases r)\<rparr>))"

text \<open>The release function \<open>Lease\<close> returns; \<open>sync.Once\<close> makes every call after the first one
  do nothing, so it is applied once per lease.\<close>

definition release :: "string \<Rightarrow> 'w Registry \<Rightarrow> 'w Registry" where
  "release cid r =
     (let n = lease_count r cid - 1
      in if n \<le> 0 then r\<lparr>r_leases := AList.delete cid (r_leases r)\<rparr>
         else r\<lparr>r_leases := AList.update cid n (r_leases r)\<rparr>)"

definition Active :: "'w Registry \<Rightarrow> 'w Client list" where
  "Active r =
     sort_key cl_ID (map (\<lambda>(cid, e). entry_client e) (filter (\<lambda>(cid, e). \<not> e_draining e) (r_clients r)))"

definition Names :: "'w Registry \<Rightarrow> string list" where
  "Names r = map cl_ID (Active r)"

definition Config :: "'w Registry \<Rightarrow> int \<times> ClientInfo list" where
  "Config r =
     (r_revision r,
      sort_key ci_ID
        (map (\<lambda>(cid, e). (spec_info (e_spec e) (Some (e_source e)))\<lparr>ci_SecretSet := e_secretSet e\<rparr>)
           (filter (\<lambda>(cid, e). \<not> e_draining e) (r_clients r))))"

definition Registry_List :: "'w Registry \<Rightarrow> ClientInfo list" where
  "Registry_List r = snd (Config r)"

definition Revision :: "'w Registry \<Rightarrow> int" where
  "Revision r = r_revision r"


section \<open>Apply\<close>

record ApplyError =
  ae_ID :: string
  ae_Message :: string

record 'w ApplyResult =
  res_Revision :: int
  res_Applied :: "string list"
  res_Errors :: "ApplyError list"
  res_Started :: "'w Client list"
  res_Draining :: "string list"
  res_Removed :: "string list"

text \<open>The variables of the first loop: the client map as it is being changed, \<open>keep\<close>,
  \<open>reported\<close>, the lists of the result, and the world that building an adapter changes.\<close>

record 'w apply_state =
  as_clients :: "(string \<times> 'w entry) list"
  as_keep :: "string list"
  as_reported :: "string list"
  as_Applied :: "string list"
  as_Errors :: "ApplyError list"
  as_Started :: "'w Client list"
  as_world :: 'w

definition apply_fail :: "string \<Rightarrow> string \<Rightarrow> 'w apply_state \<Rightarrow> 'w apply_state" where
  "apply_fail cid msg st =
     (if cid \<in> set (as_reported st) then st
      else st\<lparr>as_reported := cid # as_reported st,
              as_Errors := as_Errors st @ [\<lparr>ae_ID = cid, ae_Message = msg\<rparr>],
              as_keep := (case map_of (as_clients st) cid of
                            Some e \<Rightarrow> if e_source e = SourceAPI then cid # as_keep st else as_keep st
                          | None \<Rightarrow> as_keep st)\<rparr>)"

definition id_count :: "ClientSpec list \<Rightarrow> string \<Rightarrow> nat" where
  "id_count specs cid = length (filter (\<lambda>s. trim_space (sp_ID s) = cid) specs)"

text \<open>The entry a prepared spec is registered as.\<close>

definition new_entry :: "'w ext \<Rightarrow> ClientSpec \<Rightarrow> 'w Adapter \<Rightarrow> 'w entry" where
  "new_entry x spec ad =
     \<lparr>e_spec = spec\<lparr>sp_Secret := ''''\<rparr>, e_secretSet = (sp_Secret spec \<noteq> ''''), e_source = SourceAPI,
      e_adapter = ad, e_hash = specHash x spec, e_draining = False\<rparr>"

text \<open>The rest of the loop body, once the spec has been prepared.\<close>

definition apply_spec :: "'w ext \<Rightarrow> string \<Rightarrow> ClientSpec \<Rightarrow> 'w apply_state \<Rightarrow> 'w apply_state" where
  "apply_spec x cid spec st =
     (let hash = specHash x spec;
          st1 = st\<lparr>as_keep := cid # as_keep st, as_Applied := as_Applied st @ [cid]\<rparr> in
      case (case map_of (as_clients st) cid of
              Some e \<Rightarrow> if e_hash e = hash then Some e else None
            | None \<Rightarrow> None) of
        Some e \<Rightarrow> st1\<lparr>as_clients := AList.update cid (e\<lparr>e_draining := False\<rparr>) (as_clients st)\<rparr>
      | None \<Rightarrow>
        (case buildClient x spec (as_world st) of
           (ad, w') \<Rightarrow>
             (let e = new_entry x spec ad in
              st1\<lparr>as_clients := AList.update cid e (as_clients st),
                  as_Started := as_Started st @ [entry_client e],
                  as_world := w'\<rparr>)))"

definition apply_one ::
  "'w ext \<Rightarrow> ClientSpec list \<Rightarrow> 'w apply_state \<Rightarrow> ClientSpec \<Rightarrow> 'w apply_state" where
  "apply_one x specs st raw =
     (let cid = trim_space (sp_ID raw) in
      if \<not> ValidClientID cid then apply_fail cid ''id must match ^[a-z0-9][a-z0-9-]{0,39}$'' st
      else if 1 < id_count specs cid then apply_fail cid ''id appears more than once in the push'' st
      else if (case map_of (as_clients st) cid of Some e \<Rightarrow> e_source e = SourceEnv | None \<Rightarrow> False)
      then apply_fail cid ''id is taken by a client configured in the environment'' st
      else
        (case PrepareSpec raw of
           Inl err \<Rightarrow> apply_fail cid err st
         | Inr spec \<Rightarrow> apply_spec x cid spec st))"

text \<open>The second loop, over the clients the first one left: what happens to one entry.\<close>

datatype sweep = Stays | Drains | Goes

definition sweep_entry ::
  "(string \<Rightarrow> bool) \<Rightarrow> (string \<Rightarrow> int) \<Rightarrow> string list \<Rightarrow> string \<Rightarrow> 'w entry \<Rightarrow> sweep" where
  "sweep_entry inUse leases keep cid e =
     (if e_source e \<noteq> SourceAPI \<or> cid \<in> set keep then Stays
      else if 0 < leases cid \<or> inUse cid then Drains
      else Goes)"

fun sweep_clients ::
  "(string \<Rightarrow> 'w entry \<Rightarrow> sweep) \<Rightarrow> (string \<times> 'w entry) list \<Rightarrow> (string \<times> 'w entry) list" where
  "sweep_clients f [] = []"
| "sweep_clients f ((cid, e) # cs) =
     (case f cid e of
        Stays \<Rightarrow> (cid, e) # sweep_clients f cs
      | Drains \<Rightarrow> (cid, e\<lparr>e_draining := True\<rparr>) # sweep_clients f cs
      | Goes \<Rightarrow> sweep_clients f cs)"

definition apply_start :: "'w Registry \<Rightarrow> 'w \<Rightarrow> 'w apply_state" where
  "apply_start r w =
     \<lparr>as_clients = r_clients r, as_keep = [], as_reported = [], as_Applied = [], as_Errors = [],
      as_Started = [], as_world = w\<rparr>"

definition Apply ::
  "'w ext \<Rightarrow> int \<Rightarrow> ClientSpec list \<Rightarrow> (string \<Rightarrow> bool) \<Rightarrow> 'w Registry \<Rightarrow> 'w \<Rightarrow>
     'w ApplyResult \<times> 'w Registry \<times> 'w" where
  "Apply x revision specs inUse r w =
     (let st = foldl (apply_one x specs) (apply_start r w) specs;
          f = sweep_entry inUse (lease_count r) (as_keep st);
          rev' = (if as_Errors st = [] then revision else r_revision r)
      in (\<lparr>res_Revision = rev', res_Applied = as_Applied st, res_Errors = as_Errors st,
           res_Started = as_Started st,
           res_Draining = sort (map fst (filter (\<lambda>(cid, e). f cid e = Drains \<and> \<not> e_draining e) (as_clients st))),
           res_Removed = sort (map fst (filter (\<lambda>(cid, e). f cid e = Goes) (as_clients st)))\<rparr>,
          r\<lparr>r_clients := sweep_clients f (as_clients st), r_revision := rev'\<rparr>,
          as_world st))"


section \<open>Reap\<close>

definition reap_keeps :: "(string \<Rightarrow> bool) \<Rightarrow> 'w Registry \<Rightarrow> string \<Rightarrow> 'w entry \<Rightarrow> bool" where
  "reap_keeps inUse r cid e \<longleftrightarrow> \<not> e_draining e \<or> 0 < lease_count r cid \<or> inUse cid"

definition Reap :: "(string \<Rightarrow> bool) \<Rightarrow> 'w Registry \<Rightarrow> string list \<times> 'w Registry" where
  "Reap inUse r =
     (sort (map fst (filter (\<lambda>(cid, e). \<not> reap_keeps inUse r cid e) (r_clients r))),
      r\<lparr>r_clients := filter (\<lambda>(cid, e). reap_keeps inUse r cid e) (r_clients r)\<rparr>)"


section \<open>Well-formed registries\<close>

text \<open>Lookups stay lookups in this theory: no rewriting to list membership.\<close>

declare map_of_eq_Some_iff [simp del] Some_eq_map_of_iff [simp del]

text \<open>
  The registry invariant. Clients are keyed by their own id; no entry stores a secret;
  an environment client never drains; a pushed client has a valid id. Every lease count is
  positive, and only registered clients are leased.
\<close>

definition entry_wf :: "string \<Rightarrow> 'w entry \<Rightarrow> bool" where
  "entry_wf cid e \<longleftrightarrow> sp_ID (e_spec e) = cid \<and> sp_Secret (e_spec e) = '''' \<and>
     (e_draining e \<longrightarrow> e_source e = SourceAPI) \<and> (e_source e = SourceAPI \<longrightarrow> ValidClientID cid)"

definition clients_wf :: "(string \<times> 'w entry) list \<Rightarrow> bool" where
  "clients_wf cs \<longleftrightarrow> distinct (map fst cs) \<and> list_all (\<lambda>(cid, e). entry_wf cid e) cs"

definition reg_wf :: "'w Registry \<Rightarrow> bool" where
  "reg_wf r \<longleftrightarrow> clients_wf (r_clients r) \<and> distinct (map fst (r_leases r)) \<and>
     list_all (\<lambda>(cid, n). 0 < n \<and> map_of (r_clients r) cid \<noteq> None) (r_leases r)"

lemma clients_wf_iff:
  "clients_wf cs \<longleftrightarrow> distinct (map fst cs) \<and> (\<forall>cid e. map_of cs cid = Some e \<longrightarrow> entry_wf cid e)"
  by (auto simp: clients_wf_def list_all_iff dest: map_of_SomeD intro: map_of_is_SomeI)

lemma reg_wf_iff:
  "reg_wf r \<longleftrightarrow> clients_wf (r_clients r) \<and> distinct (map fst (r_leases r)) \<and>
     (\<forall>cid n. map_of (r_leases r) cid = Some n \<longrightarrow> 0 < n \<and> map_of (r_clients r) cid \<noteq> None)"
  unfolding reg_wf_def list_all_iff
  by (auto dest: map_of_SomeD intro: map_of_is_SomeI)

lemma clients_wf_update:
  "clients_wf cs \<Longrightarrow> entry_wf cid e \<Longrightarrow> clients_wf (AList.update cid e cs)"
  by (auto simp: clients_wf_iff map_of_update)

lemma reg_wf_empty: "reg_wf empty_Registry"
  by (simp add: empty_Registry_def reg_wf_def clients_wf_def)

lemma reg_wf_AddEnv: "reg_wf r \<Longrightarrow> reg_wf (AddEnv spec ad r)"
  unfolding AddEnv_def reg_wf_iff
  by (auto simp: Let_def map_of_update entry_wf_def split: option.splits intro!: clients_wf_update)

lemma reg_wf_NewRegistry: "reg_wf (NewRegistry ads)"
proof -
  have "reg_wf r \<Longrightarrow> reg_wf (foldl (\<lambda>r ad. AddEnv zero_ClientSpec ad r) r ads)" for r :: "'a Registry"
    by (induction ads arbitrary: r) (auto simp: reg_wf_AddEnv)
  then show ?thesis by (simp add: NewRegistry_def reg_wf_empty)
qed

lemma lease_count_nonneg: "reg_wf r \<Longrightarrow> 0 \<le> lease_count r cid"
  by (auto simp: reg_wf_iff lease_count_def split: option.splits dest: less_imp_le)

lemma leased_registered: "reg_wf r \<Longrightarrow> 0 < lease_count r cid \<Longrightarrow> map_of (r_clients r) cid \<noteq> None"
  by (auto simp: reg_wf_iff lease_count_def split: option.splits)

lemma Lease_cases:
  obtains (unknown) "map_of (r_clients r) cid = None" "Lease cid r = (Inl ErrUnknownClient, r)"
  | (draining) e where "map_of (r_clients r) cid = Some e" "e_draining e"
      "Lease cid r = (Inl ErrClientDraining, r)"
  | (leased) e where "map_of (r_clients r) cid = Some e" "\<not> e_draining e"
      "Lease cid r = (Inr (entry_client e),
         r\<lparr>r_leases := AList.update cid (lease_count r cid + 1) (r_leases r)\<rparr>)"
  by (auto simp: Lease_def split: option.splits if_splits)

lemma Lease_clients [simp]: "r_clients (snd (Lease cid r)) = r_clients r"
  by (cases cid r rule: Lease_cases) auto

lemma Lease_count:
  "lease_count (snd (Lease cid r)) c =
     lease_count r c + (if c = cid \<and> \<not> isl (fst (Lease cid r)) then 1 else 0)"
  by (cases cid r rule: Lease_cases) (auto simp: lease_count_def map_of_update)

lemma reg_wf_Lease: "reg_wf r \<Longrightarrow> reg_wf (snd (Lease cid r))"
  using lease_count_nonneg [of r cid]
  by (cases cid r rule: Lease_cases) (auto simp: reg_wf_iff map_of_update)

lemma release_clients [simp]: "r_clients (release cid r) = r_clients r"
  by (simp add: release_def Let_def)

lemma release_count:
  "reg_wf r \<Longrightarrow> lease_count (release cid r) c =
     (if c = cid then max 0 (lease_count r c - 1) else lease_count r c)"
  using lease_count_nonneg [of r cid]
  by (auto simp: release_def Let_def lease_count_def map_of_update map_of_delete max_def
      split: option.splits)

lemma reg_wf_release: "reg_wf r \<Longrightarrow> reg_wf (release cid r)"
  using leased_registered [of r cid]
  by (auto simp: release_def Let_def reg_wf_iff map_of_update map_of_delete split: if_splits)


lemma lease_release:
  assumes "reg_wf r"
  shows "r_clients (release cid (snd (Lease cid r))) = r_clients r"
    and "\<not> isl (fst (Lease cid r)) \<Longrightarrow> lease_count (release cid (snd (Lease cid r))) = lease_count r"
proof -
  show "r_clients (release cid (snd (Lease cid r))) = r_clients r" by simp
  assume "\<not> isl (fst (Lease cid r))"
  then show "lease_count (release cid (snd (Lease cid r))) = lease_count r"
    using lease_count_nonneg [OF assms] by (auto simp: fun_eq_iff release_count reg_wf_Lease assms Lease_count)
qed


section \<open>What a push does\<close>

text \<open>
  The specification of \<open>Apply\<close>, independent of the order of the push. \<open>verdict\<close> is
  the answer to one entry of the push, from the registry as it was before it;
  \<open>accepted\<close> and \<open>rejected\<close> say which ids a list of entries accepts and rejects;
  \<open>applied_entry\<close> relates the entry of an accepted id to the one before the push: an
  unchanged client keeps its entry, and with it its adapter, and is no longer draining,
  any other client gets a newly built adapter.
\<close>

definition verdict :: "'w Registry \<Rightarrow> ClientSpec list \<Rightarrow> ClientSpec \<Rightarrow> string + ClientSpec" where
  "verdict r specs raw =
     (let cid = trim_space (sp_ID raw) in
      if \<not> ValidClientID cid then Inl ''id must match ^[a-z0-9][a-z0-9-]{0,39}$''
      else if 1 < id_count specs cid then Inl ''id appears more than once in the push''
      else if (case map_of (r_clients r) cid of Some e \<Rightarrow> e_source e = SourceEnv | None \<Rightarrow> False)
      then Inl ''id is taken by a client configured in the environment''
      else PrepareSpec raw)"

definition accepted :: "'w Registry \<Rightarrow> ClientSpec list \<Rightarrow> ClientSpec list \<Rightarrow> string \<Rightarrow> bool" where
  "accepted r specs ps cid \<longleftrightarrow>
     list_ex (\<lambda>raw. trim_space (sp_ID raw) = cid \<and> \<not> isl (verdict r specs raw)) ps"

definition rejected :: "'w Registry \<Rightarrow> ClientSpec list \<Rightarrow> ClientSpec list \<Rightarrow> string \<Rightarrow> bool" where
  "rejected r specs ps cid \<longleftrightarrow>
     list_ex (\<lambda>raw. trim_space (sp_ID raw) = cid \<and> isl (verdict r specs raw)) ps"

definition unchanged :: "'w ext \<Rightarrow> 'w Registry \<Rightarrow> ClientSpec \<Rightarrow> bool" where
  "unchanged x r s \<longleftrightarrow>
     (case map_of (r_clients r) (sp_ID s) of Some e \<Rightarrow> e_hash e = specHash x s | None \<Rightarrow> False)"

definition applied_entry :: "'w ext \<Rightarrow> 'w Registry \<Rightarrow> ClientSpec \<Rightarrow> 'w entry option \<Rightarrow> bool" where
  "applied_entry x r s new \<longleftrightarrow>
     (if unchanged x r s
      then new = map_option (e_draining_update (\<lambda>_. False)) (map_of (r_clients r) (sp_ID s))
      else (\<exists>w. new = Some (new_entry x s (fst (buildClient x s w)))))"

lemma rejected_accepted_snoc [simp]:
  "accepted r specs (ps @ [raw]) cid \<longleftrightarrow> accepted r specs ps cid \<or>
     trim_space (sp_ID raw) = cid \<and> \<not> isl (verdict r specs raw)"
  "rejected r specs (ps @ [raw]) cid \<longleftrightarrow> rejected r specs ps cid \<or>
     trim_space (sp_ID raw) = cid \<and> isl (verdict r specs raw)"
  "\<not> accepted r specs [] cid" "\<not> rejected r specs [] cid"
  by (auto simp: accepted_def rejected_def)

lemma verdict_InrD:
  assumes "verdict r specs raw = Inr s"
  shows "ValidClientID (trim_space (sp_ID raw))" "id_count specs (trim_space (sp_ID raw)) \<le> 1"
    "PrepareSpec raw = Inr s" "sp_ID s = trim_space (sp_ID raw)"
    "\<And>e. map_of (r_clients r) (trim_space (sp_ID raw)) = Some e \<Longrightarrow> e_source e = SourceAPI"
  using assms Source.exhaust
  by (auto simp: verdict_def Let_def split: if_splits option.splits intro: PrepareSpec_id)

text \<open>An id that was accepted does not come up again.\<close>

lemma not_accepted_before:
  assumes "ps @ raw # qs = specs"
  shows "\<not> accepted r specs ps (trim_space (sp_ID raw))"
proof
  assume "accepted r specs ps (trim_space (sp_ID raw))"
  then obtain p s where p: "p \<in> set ps" "trim_space (sp_ID p) = trim_space (sp_ID raw)"
    and "verdict r specs p = Inr s"
    by (auto simp: accepted_def list_ex_iff isl_def) (metis sum.exhaust_sel)
  then have le: "id_count specs (trim_space (sp_ID raw)) \<le> 1" by (metis verdict_InrD(2))
  from p have "0 < length (filter (\<lambda>s. trim_space (sp_ID s) = trim_space (sp_ID raw)) ps)"
    by (auto simp: filter_empty_conv)
  with le assms show False by (auto simp: id_count_def)
qed

lemma apply_one_verdict:
  assumes "map_of (as_clients st) (trim_space (sp_ID raw)) = map_of (r_clients r) (trim_space (sp_ID raw))"
  shows "apply_one x specs st raw =
    (case verdict r specs raw of
       Inl msg \<Rightarrow> apply_fail (trim_space (sp_ID raw)) msg st
     | Inr s \<Rightarrow> apply_spec x (trim_space (sp_ID raw)) s st)"
  using assms by (simp add: apply_one_def verdict_def Let_def split: sum.splits)

lemma apply_fail_fields [simp]:
  "as_clients (apply_fail cid msg st) = as_clients st"
  "as_Applied (apply_fail cid msg st) = as_Applied st"
  "as_Started (apply_fail cid msg st) = as_Started st"
  "set (as_reported (apply_fail cid msg st)) = insert cid (set (as_reported st))"
  by (auto simp: apply_fail_def)

lemma apply_spec_fields [simp]:
  "as_keep (apply_spec x cid s st) = cid # as_keep st"
  "as_reported (apply_spec x cid s st) = as_reported st"
  "as_Errors (apply_spec x cid s st) = as_Errors st"
  "as_Applied (apply_spec x cid s st) = as_Applied st @ [cid]"
  by (auto simp: apply_spec_def Let_def split: option.splits prod.splits)

lemma apply_spec_entry:
  fixes x :: "'w ext"
  assumes old: "map_of (as_clients st) (sp_ID s) = map_of (r_clients r) (sp_ID s)"
  defines "st' \<equiv> apply_spec x (sp_ID s) s st"
  shows "cid \<noteq> sp_ID s \<Longrightarrow> map_of (as_clients st') cid = map_of (as_clients st) cid"
    and "applied_entry x r s (map_of (as_clients st') (sp_ID s))"
    and "distinct (map fst (as_clients st)) \<Longrightarrow> distinct (map fst (as_clients st'))"
    and "as_Started st' = as_Started st @
      (if unchanged x r s then [] else [entry_client (the (map_of (as_clients st') (sp_ID s)))])"
proof -
  obtain ad w' where b: "buildClient x s (as_world st) = (ad, w')" by force
  then have ad: "ad = fst (buildClient x s (as_world st))" by simp
  consider (same) e where "map_of (r_clients r) (sp_ID s) = Some e" "e_hash e = specHash x s"
      "as_clients st' = AList.update (sp_ID s) (e\<lparr>e_draining := False\<rparr>) (as_clients st)"
      "as_Started st' = as_Started st" "unchanged x r s"
    | (new) "\<not> unchanged x r s"
      "as_clients st' = AList.update (sp_ID s) (new_entry x s ad) (as_clients st)"
      "as_Started st' = as_Started st @ [entry_client (new_entry x s ad)]"
  proof (cases "unchanged x r s")
    case True
    then obtain e where "map_of (r_clients r) (sp_ID s) = Some e" "e_hash e = specHash x s"
      by (auto simp: unchanged_def split: option.splits)
    with True old same show ?thesis by (simp add: st'_def apply_spec_def Let_def)
  next
    case False
    then have "(case map_of (r_clients r) (sp_ID s) of
        Some e \<Rightarrow> if e_hash e = specHash x s then Some e else None | None \<Rightarrow> None) = None"
      by (auto simp: unchanged_def split: option.splits)
    with False old b new show ?thesis by (simp add: st'_def apply_spec_def Let_def)
  qed
  note cases = this
  show "cid \<noteq> sp_ID s \<Longrightarrow> map_of (as_clients st') cid = map_of (as_clients st) cid"
    by (cases rule: cases) (simp_all add: map_of_update)
  show "applied_entry x r s (map_of (as_clients st') (sp_ID s))"
    using ad by (cases rule: cases) (auto simp: applied_entry_def map_of_update)
  show "distinct (map fst (as_clients st)) \<Longrightarrow> distinct (map fst (as_clients st'))"
    by (cases rule: cases) simp_all
  show "as_Started st' = as_Started st @
      (if unchanged x r s then [] else [entry_client (the (map_of (as_clients st') (sp_ID s)))])"
    by (cases rule: cases) (auto simp: map_of_update)
qed

text \<open>The invariant of the first loop, after the entries \<open>ps\<close> of the push.\<close>

definition apply_inv ::
  "'w ext \<Rightarrow> 'w Registry \<Rightarrow> ClientSpec list \<Rightarrow> ClientSpec list \<Rightarrow> 'w apply_state \<Rightarrow> bool" where
  "apply_inv x r specs ps st \<longleftrightarrow>
     distinct (map fst (as_clients st)) \<and>
     (\<forall>cid. \<not> accepted r specs ps cid \<longrightarrow> map_of (as_clients st) cid = map_of (r_clients r) cid) \<and>
     (\<forall>raw s. raw \<in> set ps \<longrightarrow> verdict r specs raw = Inr s \<longrightarrow>
        applied_entry x r s (map_of (as_clients st) (sp_ID s))) \<and>
     (\<forall>cid. cid \<in> set (as_keep st) \<longleftrightarrow> accepted r specs ps cid \<or> rejected r specs ps cid \<and>
        (\<exists>e. map_of (r_clients r) cid = Some e \<and> e_source e = SourceAPI)) \<and>
     (\<forall>cid. cid \<in> set (as_reported st) \<longleftrightarrow> rejected r specs ps cid) \<and>
     as_Applied st = map (\<lambda>raw. trim_space (sp_ID raw)) (filter (\<lambda>raw. \<not> isl (verdict r specs raw)) ps) \<and>
     set (map ae_ID (as_Errors st)) = set (as_reported st) \<and> distinct (map ae_ID (as_Errors st)) \<and>
     (\<forall>c. c \<in> set (as_Started st) \<longleftrightarrow> (\<exists>raw s. raw \<in> set ps \<and> verdict r specs raw = Inr s \<and>
        \<not> unchanged x r s \<and> c = entry_client (the (map_of (as_clients st) (sp_ID s)))))"

lemma apply_inv_start:
  "clients_wf (r_clients r) \<Longrightarrow> apply_inv x r specs [] (apply_start r w)"
  by (simp add: apply_inv_def apply_start_def clients_wf_def)

lemma apply_inv_fail:
  assumes "apply_inv x r specs ps st" "\<not> accepted r specs ps (trim_space (sp_ID raw))"
    and "verdict r specs raw = Inl msg"
  shows "apply_inv x r specs (ps @ [raw]) (apply_fail (trim_space (sp_ID raw)) msg st)"
proof -
  let ?cid = "trim_space (sp_ID raw)"
  from assms have m: "map_of (as_clients st) ?cid = map_of (r_clients r) ?cid"
    by (auto simp: apply_inv_def)
  have keep: "cid \<in> set (as_keep (apply_fail ?cid msg st)) \<longleftrightarrow> cid \<in> set (as_keep st) \<or>
      cid = ?cid \<and> ?cid \<notin> set (as_reported st) \<and>
      (\<exists>e. map_of (r_clients r) ?cid = Some e \<and> e_source e = SourceAPI)" for cid
    by (auto simp: apply_fail_def m split: option.splits)
  have errs: "as_Errors (apply_fail ?cid msg st) = as_Errors st @
      (if ?cid \<in> set (as_reported st) then [] else [\<lparr>ae_ID = ?cid, ae_Message = msg\<rparr>])"
    by (simp add: apply_fail_def)
  from assms show ?thesis
    unfolding apply_inv_def keep errs
    by (auto simp: insert_absorb)
qed

lemma apply_inv_spec:
  assumes inv: "apply_inv x r specs ps st" and na: "\<not> accepted r specs ps (trim_space (sp_ID raw))"
    and v: "verdict r specs raw = Inr s"
  shows "apply_inv x r specs (ps @ [raw]) (apply_spec x (trim_space (sp_ID raw)) s st)"
proof -
  have cid: "trim_space (sp_ID raw) = sp_ID s" using verdict_InrD(4) [OF v] by simp
  have m: "map_of (as_clients st) (sp_ID s) = map_of (r_clients r) (sp_ID s)"
    using inv na by (auto simp: apply_inv_def cid)
  note new = apply_spec_entry [OF m, where x = x]
  have other: "sp_ID s' \<noteq> sp_ID s" if "raw' \<in> set ps" "verdict r specs raw' = Inr s'" for raw' s'
    using na that verdict_InrD(4) [OF that(2)] by (auto simp: accepted_def list_ex_iff cid)
  let ?st = "apply_spec x (sp_ID s) s st"
  have I3: "applied_entry x r s' (map_of (as_clients st) (sp_ID s'))"
    if "raw' \<in> set ps" "verdict r specs raw' = Inr s'" for raw' s'
    using inv that unfolding apply_inv_def by blast
  have I9: "c \<in> set (as_Started st) \<longleftrightarrow> (\<exists>raw' s'. raw' \<in> set ps \<and> verdict r specs raw' = Inr s' \<and>
      \<not> unchanged x r s' \<and> c = entry_client (the (map_of (as_clients st) (sp_ID s'))))" for c
    using inv unfolding apply_inv_def by blast
  have "applied_entry x r s' (map_of (as_clients ?st) (sp_ID s'))"
    if "raw' \<in> set (ps @ [raw])" "verdict r specs raw' = Inr s'" for raw' s'
  proof (cases "raw' \<in> set ps")
    case True
    then show ?thesis using I3 [OF True that(2)] new(1) [OF other [OF True that(2)]] by simp
  qed (use that v new(2) in simp)
  moreover have "c \<in> set (as_Started ?st) \<longleftrightarrow> (\<exists>raw' s'. raw' \<in> set (ps @ [raw]) \<and>
      verdict r specs raw' = Inr s' \<and> \<not> unchanged x r s' \<and>
      c = entry_client (the (map_of (as_clients ?st) (sp_ID s'))))" for c
  proof -
    have "(\<exists>raw' s'. raw' \<in> set ps \<and> verdict r specs raw' = Inr s' \<and> \<not> unchanged x r s' \<and>
        c = entry_client (the (map_of (as_clients ?st) (sp_ID s')))) \<longleftrightarrow> c \<in> set (as_Started st)"
      unfolding I9 using new(1) other by (intro iff_exI conj_cong refl) simp
    then show ?thesis unfolding new(4) using v by auto
  qed
  moreover have "map_of (as_clients ?st) c = map_of (r_clients r) c"
    if "\<not> accepted r specs (ps @ [raw]) c" for c
  proof -
    have "c \<noteq> sp_ID s" "\<not> accepted r specs ps c" using that v by (auto simp: cid)
    then show ?thesis using new(1) inv unfolding apply_inv_def by simp
  qed
  ultimately show ?thesis
    using inv new(3) v unfolding apply_inv_def cid apply_spec_fields
    by (simp add: cid) blast
qed

lemma apply_inv_loop:
  assumes "clients_wf (r_clients r)" "ps @ qs = specs"
  shows "apply_inv x r specs ps (foldl (apply_one x specs) (apply_start r w) ps)"
  using assms
proof (induction ps arbitrary: qs rule: rev_induct)
  case Nil
  then show ?case by (simp add: apply_inv_start)
next
  case (snoc raw ps)
  let ?st = "foldl (apply_one x specs) (apply_start r w) ps"
  have inv: "apply_inv x r specs ps ?st" using snoc by simp
  have na: "\<not> accepted r specs ps (trim_space (sp_ID raw))"
    using snoc.prems by (intro not_accepted_before) simp
  then have "map_of (as_clients ?st) (trim_space (sp_ID raw)) = map_of (r_clients r) (trim_space (sp_ID raw))"
    using inv by (simp add: apply_inv_def)
  from apply_one_verdict [OF this] show ?case
    using apply_inv_fail [OF inv na] apply_inv_spec [OF inv na]
    by (simp split: sum.splits)
qed


section \<open>The effect of Apply and Reap\<close>

lemma Source_neq [simp]: "s \<noteq> SourceAPI \<longleftrightarrow> s = SourceEnv" "s \<noteq> SourceEnv \<longleftrightarrow> s = SourceAPI"
  by (cases s; simp)+

lemma map_of_sweep_clients:
  "distinct (map fst cs) \<Longrightarrow> map_of (sweep_clients f cs) cid =
     (case map_of cs cid of
        None \<Rightarrow> None
      | Some e \<Rightarrow> (case f cid e of Stays \<Rightarrow> Some e | Drains \<Rightarrow> Some (e\<lparr>e_draining := True\<rparr>) | Goes \<Rightarrow> None))"
proof (induction f cs rule: sweep_clients.induct)
  case (2 f c e cs)
  have "map_of cs c = None" using 2(4) by (simp add: map_of_eq_None_iff)
  with 2 show ?case by (auto split: sweep.splits)
qed simp

lemma keys_sweep_clients: "set (map fst (sweep_clients f cs)) \<subseteq> set (map fst cs)"
  by (induction f cs rule: sweep_clients.induct) (auto split: sweep.splits)

lemma distinct_sweep_clients:
  "distinct (map fst cs) \<Longrightarrow> distinct (map fst (sweep_clients f cs))"
proof (induction f cs rule: sweep_clients.induct)
  case (2 f c e cs)
  have "c \<notin> set (map fst (sweep_clients f cs))" using 2(4) keys_sweep_clients [of f cs] by auto
  with 2 show ?case by (auto split: sweep.splits)
qed simp

lemma apply_loop_inv:
  "reg_wf r \<Longrightarrow> apply_inv x r specs specs (foldl (apply_one x specs) (apply_start r w) specs)"
  by (rule apply_inv_loop [where qs = "[]"]) (simp_all add: reg_wf_def)

lemma applied_entry_Some:
  "applied_entry x r s new \<Longrightarrow> \<exists>e. new = Some e \<and> e_hash e = specHash x s \<and> \<not> e_draining e"
  by (auto simp: applied_entry_def unchanged_def new_entry_def split: if_splits option.splits)

text \<open>What becomes of a client the push does not name.\<close>

definition swept :: "'w Registry \<Rightarrow> ClientSpec list \<Rightarrow> (string \<Rightarrow> bool) \<Rightarrow> string \<Rightarrow> 'w entry option" where
  "swept r specs inUse cid =
     (case map_of (r_clients r) cid of
        None \<Rightarrow> None
      | Some e \<Rightarrow>
        if e_source e = SourceEnv \<or> rejected r specs specs cid then Some e
        else if 0 < lease_count r cid \<or> inUse cid then Some (e\<lparr>e_draining := True\<rparr>)
        else None)"

lemma Apply_fields:
  "r_leases (fst (snd (Apply x rv specs inUse r w))) = r_leases r"
  "res_Revision (fst (Apply x rv specs inUse r w)) = r_revision (fst (snd (Apply x rv specs inUse r w)))"
  by (simp_all add: Apply_def Let_def)

lemma lease_count_Apply [simp]:
  "lease_count (fst (snd (Apply x rv specs inUse r w))) = lease_count r"
  by (simp add: lease_count_def Apply_fields fun_eq_iff)

lemma Apply_not_named:
  assumes "reg_wf r" "\<not> accepted r specs specs cid"
  shows "map_of (r_clients (fst (snd (Apply x rv specs inUse r w)))) cid = swept r specs inUse cid"
proof -
  let ?st = "foldl (apply_one x specs) (apply_start r w) specs"
  have d: "distinct (map fst (as_clients ?st))"
    and m: "map_of (as_clients ?st) cid = map_of (r_clients r) cid"
    and k: "cid \<in> set (as_keep ?st) \<longleftrightarrow> rejected r specs specs cid \<and>
        (\<exists>e. map_of (r_clients r) cid = Some e \<and> e_source e = SourceAPI)"
    using apply_loop_inv [OF assms(1), of x specs w] assms(2) unfolding apply_inv_def by simp_all
  show ?thesis
    by (auto simp: Apply_def Let_def map_of_sweep_clients [OF d] m k swept_def sweep_entry_def
        split: option.splits)
qed

lemma Apply_named:
  assumes "reg_wf r" "raw \<in> set specs" "verdict r specs raw = Inr s"
  shows "applied_entry x r s (map_of (r_clients (fst (snd (Apply x rv specs inUse r w)))) (sp_ID s))"
proof -
  let ?st = "foldl (apply_one x specs) (apply_start r w) specs"
  have "accepted r specs specs (sp_ID s)"
    using assms(2,3) verdict_InrD(4) [OF assms(3)] by (auto simp: accepted_def list_ex_iff)
  then have d: "distinct (map fst (as_clients ?st))"
    and m: "applied_entry x r s (map_of (as_clients ?st) (sp_ID s))"
    and k: "sp_ID s \<in> set (as_keep ?st)"
    using apply_loop_inv [OF assms(1), of x specs w] assms(2,3) unfolding apply_inv_def by blast+
  from applied_entry_Some [OF m] obtain e where "map_of (as_clients ?st) (sp_ID s) = Some e" by auto
  then have "map_of (r_clients (fst (snd (Apply x rv specs inUse r w)))) (sp_ID s) =
      map_of (as_clients ?st) (sp_ID s)"
    using k by (simp add: Apply_def Let_def map_of_sweep_clients [OF d] sweep_entry_def)
  with m show ?thesis by simp
qed

lemma applied_entry_wf:
  assumes "reg_wf r" "verdict r specs raw = Inr s" "applied_entry x r s (Some e)"
  shows "entry_wf (sp_ID s) e \<and> e_source e = SourceAPI"
  using assms(1,3) verdict_InrD [OF assms(2)]
  by (auto simp: applied_entry_def unchanged_def reg_wf_iff clients_wf_iff entry_wf_def new_entry_def
      split: if_splits option.splits)

lemma acceptedE:
  assumes "accepted r specs specs cid"
  obtains raw s where "raw \<in> set specs" "verdict r specs raw = Inr s" "sp_ID s = cid"
proof -
  from assms obtain raw where raw: "raw \<in> set specs" "trim_space (sp_ID raw) = cid"
    and "\<not> isl (verdict r specs raw)" by (auto simp: accepted_def list_ex_iff)
  then have v: "verdict r specs raw = Inr (projr (verdict r specs raw))" by simp
  from that [OF raw(1) v] verdict_InrD(4) [OF v] raw(2) show ?thesis by simp
qed

lemma reg_wf_Apply: 
  assumes "reg_wf r"
  shows "reg_wf (fst (snd (Apply x rv specs inUse r w)))"
proof -
  let ?r = "fst (snd (Apply x rv specs inUse r w))"
  let ?st = "foldl (apply_one x specs) (apply_start r w) specs"
  have "distinct (map fst (as_clients ?st))"
    using apply_loop_inv [OF assms, of x specs w] by (simp add: apply_inv_def)
  then have d: "distinct (map fst (r_clients ?r))"
    by (simp add: Apply_def Let_def distinct_sweep_clients)
  have e: "entry_wf cid e" if "map_of (r_clients ?r) cid = Some e" for cid e
  proof (cases "accepted r specs specs cid")
    case True
    then obtain raw s where s: "raw \<in> set specs" "verdict r specs raw = Inr s" "sp_ID s = cid"
      by (rule acceptedE)
    from applied_entry_wf [OF assms s(2)] Apply_named [OF assms s(1,2)] s(3) that show ?thesis by metis
  next
    case False
    from that Apply_not_named [OF assms False, of x rv inUse w] have "swept r specs inUse cid = Some e" by simp
    with assms show ?thesis
      by (cases "map_of (r_clients r) cid")
         (auto simp: swept_def reg_wf_iff clients_wf_iff entry_wf_def split: if_splits)
  qed
  have l: "map_of (r_clients ?r) cid \<noteq> None" if "map_of (r_leases r) cid = Some n" for cid n
  proof (cases "accepted r specs specs cid")
    case True
    then obtain raw s where s: "raw \<in> set specs" "verdict r specs raw = Inr s" "sp_ID s = cid"
      by (rule acceptedE)
    from applied_entry_Some [OF Apply_named [OF assms s(1,2), of x rv inUse w]] s(3) show ?thesis by auto
  next
    case False
    from that assms have "0 < lease_count r cid" "map_of (r_clients r) cid \<noteq> None"
      by (auto simp: lease_count_def reg_wf_iff)
    then show ?thesis by (auto simp: Apply_not_named [OF assms False] swept_def split: option.splits)
  qed
  from assms d e l show ?thesis unfolding reg_wf_iff clients_wf_iff Apply_fields by blast
qed


lemma map_of_filter_entries:
  "distinct (map fst m) \<Longrightarrow> map_of (filter (\<lambda>(k, v). P k v) m) k =
     (case map_of m k of Some v \<Rightarrow> if P k v then Some v else None | None \<Rightarrow> None)"
  by (induction m) (auto split: option.splits simp: map_of_eq_None_iff image_iff)

lemma Reap_clients:
  assumes "reg_wf r"
  shows "map_of (r_clients (snd (Reap inUse r))) cid =
    (case map_of (r_clients r) cid of
       Some e \<Rightarrow> if reap_keeps inUse r cid e then Some e else None | None \<Rightarrow> None)"
  using assms by (simp add: Reap_def map_of_filter_entries reg_wf_def clients_wf_def)

lemma Reap_leases [simp]: "r_leases (snd (Reap inUse r)) = r_leases r"
  by (simp add: Reap_def)

lemma lease_count_Reap [simp]: "lease_count (snd (Reap inUse r)) = lease_count r"
  by (simp add: lease_count_def fun_eq_iff)

lemma distinct_keys_filter: "distinct (map fst m) \<Longrightarrow> distinct (map fst (filter P m))"
  by (rule distinct_map_filter)

lemma reg_wf_Reap:
  assumes "reg_wf r"
  shows "reg_wf (snd (Reap inUse r))"
proof -
  have "distinct (map fst (r_clients (snd (Reap inUse r))))"
    using assms by (simp add: Reap_def distinct_keys_filter reg_wf_def clients_wf_def)
  moreover have "map_of (r_clients (snd (Reap inUse r))) cid \<noteq> None"
    if "map_of (r_leases r) cid = Some n" for cid n
    using assms that
    by (auto simp: Reap_clients reap_keeps_def lease_count_def reg_wf_iff split: option.splits)
  ultimately show ?thesis
    using assms unfolding reg_wf_iff clients_wf_iff Reap_leases
    by (auto simp: Reap_clients [OF assms] split: option.splits if_splits)
qed

lemma Reap_keeps:
  "reg_wf r \<Longrightarrow> inUse cid \<Longrightarrow> map_of (r_clients r) cid \<noteq> None \<Longrightarrow>
     map_of (r_clients (snd (Reap inUse r))) cid \<noteq> None"
  by (auto simp: Reap_clients reap_keeps_def)

lemma Apply_keeps:
  assumes "reg_wf r" "inUse cid" "map_of (r_clients r) cid \<noteq> None"
  shows "map_of (r_clients (fst (snd (Apply x rv specs inUse r w)))) cid \<noteq> None"
proof (cases "accepted r specs specs cid")
  case True
  then obtain raw s where s: "raw \<in> set specs" "verdict r specs raw = Inr s" "sp_ID s = cid"
    by (rule acceptedE)
  from applied_entry_Some [OF Apply_named [OF assms(1) s(1,2), of x rv inUse w]] s(3) show ?thesis by auto
next
  case False
  with assms show ?thesis by (auto simp: Apply_not_named swept_def split: option.splits)
qed


section \<open>The registry as the gateway uses it\<close>

text \<open>
  The contract the gateway relies on: leases are counted, only registered clients are
  leased, and neither a push nor a reap drops a client that \<open>inUse\<close> reports. The two
  lemmas of the locale say what a holder of a lease, and a caller whose jobs are reported
  by \<open>inUse\<close>, may conclude after any sequence of operations by anyone.
\<close>

datatype 'p registry_op =
  Op_lease string
| Op_release string
| Op_push 'p "string \<Rightarrow> bool"
| Op_reap "string \<Rightarrow> bool"

text \<open>A push or reap whose \<open>inUse\<close> reports the client.\<close>

definition sees_use :: "string \<Rightarrow> 'p registry_op \<Rightarrow> bool" where
  "sees_use c op = (case op of Op_push p u \<Rightarrow> u c | Op_reap u \<Rightarrow> u c | _ \<Rightarrow> True)"

locale client_registry =
  fixes wf :: "'r \<Rightarrow> bool"
    and registered :: "'r \<Rightarrow> string \<Rightarrow> bool"
    and leases :: "'r \<Rightarrow> string \<Rightarrow> int"
    and lease :: "string \<Rightarrow> 'r \<Rightarrow> 'r"
    and unlease :: "string \<Rightarrow> 'r \<Rightarrow> 'r"
    and push :: "'p \<Rightarrow> (string \<Rightarrow> bool) \<Rightarrow> 'r \<Rightarrow> 'r"
    and reap :: "(string \<Rightarrow> bool) \<Rightarrow> 'r \<Rightarrow> 'r"
  assumes wf_lease: "wf r \<Longrightarrow> wf (lease c r)"
    and wf_unlease: "wf r \<Longrightarrow> wf (unlease c r)"
    and wf_push: "wf r \<Longrightarrow> wf (push p u r)"
    and wf_reap: "wf r \<Longrightarrow> wf (reap u r)"
    and leased: "wf r \<Longrightarrow> 0 < leases r c \<Longrightarrow> registered r c"
    and lease_registered: "registered (lease c r) d = registered r d"
    and unlease_registered: "registered (unlease c r) d = registered r d"
    and push_registered: "wf r \<Longrightarrow> u c \<Longrightarrow> registered r c \<Longrightarrow> registered (push p u r) c"
    and reap_registered: "wf r \<Longrightarrow> u c \<Longrightarrow> registered r c \<Longrightarrow> registered (reap u r) c"
    and lease_leases: "leases r d \<le> leases (lease c r) d"
    and unlease_leases: "wf r \<Longrightarrow> leases r d - (if d = c then 1 else 0) \<le> leases (unlease c r) d"
    and push_leases: "leases (push p u r) = leases r"
    and reap_leases: "leases (reap u r) = leases r"
begin

definition exec :: "'p registry_op \<Rightarrow> 'r \<Rightarrow> 'r" where
  "exec op r = (case op of Op_lease c \<Rightarrow> lease c r | Op_release c \<Rightarrow> unlease c r
     | Op_push p u \<Rightarrow> push p u r | Op_reap u \<Rightarrow> reap u r)"

lemma wf_exec: "wf r \<Longrightarrow> wf (exec op r)"
  by (cases op) (simp_all add: exec_def wf_lease wf_unlease wf_push wf_reap)

lemma wf_run: "wf r \<Longrightarrow> wf (fold exec ops r)"
  by (induction ops arbitrary: r) (simp_all add: wf_exec)

lemma exec_leases:
  "wf r \<Longrightarrow> leases r c - (if op = Op_release c then 1 else 0) \<le> leases (exec op r) c"
proof (cases op)
  case (Op_release d)
  then show "wf r \<Longrightarrow> ?thesis" using unlease_leases [of r c d] by (auto simp: exec_def)
qed (auto simp: exec_def lease_leases push_leases reap_leases)

lemma lease_held:
  "wf r \<Longrightarrow> int (count_list ops (Op_release c)) < leases r c \<Longrightarrow> registered (fold exec ops r) c"
proof (induction ops arbitrary: r)
  case (Cons op ops)
  then show ?case using exec_leases [of r c op] by (simp add: wf_exec split: if_splits)
qed (simp add: leased)

lemma used_stays:
  "wf r \<Longrightarrow> registered r c \<Longrightarrow>
     list_all (sees_use c) ops \<Longrightarrow> registered (fold exec ops r) c"
proof (induction ops arbitrary: r)
  case (Cons op ops)
  have "registered (exec op r) c"
    using Cons.prems
    by (cases op) (auto simp: exec_def sees_use_def lease_registered unlease_registered push_registered reap_registered)
  with Cons show ?case by (simp add: wf_exec)
qed simp

end

text \<open>The model's registry keeps the contract.\<close>

definition do_lease :: "string \<Rightarrow> 'w Registry \<Rightarrow> 'w Registry" where
  "do_lease cid r = snd (Lease cid r)"

definition do_push ::
  "'w ext \<times> int \<times> ClientSpec list \<times> 'w \<Rightarrow> (string \<Rightarrow> bool) \<Rightarrow> 'w Registry \<Rightarrow> 'w Registry" where
  "do_push p inUse r = (case p of (x, revision, specs, w) \<Rightarrow> fst (snd (Apply x revision specs inUse r w)))"

definition do_reap :: "(string \<Rightarrow> bool) \<Rightarrow> 'w Registry \<Rightarrow> 'w Registry" where
  "do_reap inUse r = snd (Reap inUse r)"

definition registered :: "'w Registry \<Rightarrow> string \<Rightarrow> bool" where
  "registered r cid \<longleftrightarrow> Get r cid \<noteq> None"

lemma registered_iff: "registered r cid \<longleftrightarrow> map_of (r_clients r) cid \<noteq> None"
  by (auto simp: registered_def Get_def split: option.splits)

interpretation reg: client_registry reg_wf registered lease_count do_lease release do_push do_reap
proof unfold_locales
  show "reg_wf r \<Longrightarrow> 0 < lease_count r c \<Longrightarrow> registered r c" for r :: "'w Registry" and c
    unfolding registered_iff by (rule leased_registered)
  show "lease_count r d \<le> lease_count (do_lease c r) d" for r :: "'w Registry" and c d
    by (simp add: do_lease_def Lease_count)
  show "reg_wf r \<Longrightarrow> lease_count r d - (if d = c then 1 else 0) \<le> lease_count (release c r) d"
    for r :: "'w Registry" and c d
    by (simp add: release_count)
qed (auto simp: do_lease_def do_push_def do_reap_def registered_iff reg_wf_Lease reg_wf_release
    reg_wf_Apply reg_wf_Reap intro: Apply_keeps [simplified] Reap_keeps [simplified] split: prod.splits)


section \<open>Reports and repeated pushes\<close>

lemma Apply_report_fields:
  fixes x :: "'w ext" and r :: "'w Registry" and w :: 'w and specs inUse rv
  assumes "reg_wf r"
  defines "res \<equiv> fst (Apply x rv specs inUse r w)"
  shows "res_Applied res = map (\<lambda>raw. trim_space (sp_ID raw)) (filter (\<lambda>raw. \<not> isl (verdict r specs raw)) specs)"
    and "distinct (map ae_ID (res_Errors res))"
    and "set (map ae_ID (res_Errors res)) = {cid. rejected r specs specs cid}"
    and "res_Revision res = (if list_all (\<lambda>raw. \<not> isl (verdict r specs raw)) specs then rv else r_revision r)"
proof -
  let ?st = "foldl (apply_one x specs) (apply_start r w) specs"
  have inv: "apply_inv x r specs specs ?st" using assms(1) by (rule apply_loop_inv)
  then have errs: "set (map ae_ID (as_Errors ?st)) = {cid. rejected r specs specs cid}"
    unfolding apply_inv_def by blast
  have "as_Errors ?st = [] \<longleftrightarrow> {cid. rejected r specs specs cid} = {}"
    unfolding errs [symmetric] by simp
  then have "as_Errors ?st = [] \<longleftrightarrow> list_all (\<lambda>raw. \<not> isl (verdict r specs raw)) specs"
    by (auto simp: rejected_def list_ex_iff list_all_iff)
  with inv errs show "res_Applied res = map (\<lambda>raw. trim_space (sp_ID raw)) (filter (\<lambda>raw. \<not> isl (verdict r specs raw)) specs)"
    "distinct (map ae_ID (res_Errors res))"
    "set (map ae_ID (res_Errors res)) = {cid. rejected r specs specs cid}"
    "res_Revision res = (if list_all (\<lambda>raw. \<not> isl (verdict r specs raw)) specs then rv else r_revision r)"
    unfolding res_def by (simp_all add: Apply_def Let_def apply_inv_def)
qed

lemma Apply_Started:
  assumes "reg_wf r"
  shows "c \<in> set (res_Started (fst (Apply x rv specs inUse r w))) \<Longrightarrow>
    \<exists>raw s. raw \<in> set specs \<and> verdict r specs raw = Inr s \<and> \<not> unchanged x r s \<and> cl_ID c = sp_ID s"
proof -
  let ?st = "foldl (apply_one x specs) (apply_start r w) specs"
  have inv: "apply_inv x r specs specs ?st" using assms(1) by (rule apply_loop_inv)
  assume "c \<in> set (res_Started (fst (Apply x rv specs inUse r w)))"
  then have "c \<in> set (as_Started ?st)" by (simp add: Apply_def Let_def)
  with inv obtain raw s where s: "raw \<in> set specs" "verdict r specs raw = Inr s" "\<not> unchanged x r s"
      "c = entry_client (the (map_of (as_clients ?st) (sp_ID s)))"
    unfolding apply_inv_def by blast
  have "applied_entry x r s (map_of (as_clients ?st) (sp_ID s))"
    using inv s(1,2) unfolding apply_inv_def by blast
  with s(3,4) have "cl_ID c = sp_ID s" by (auto simp: applied_entry_def entry_client_def new_entry_def)
  with s show ?thesis by blast
qed

lemma Apply_source:
  assumes "reg_wf r"
  shows "(case map_of (r_clients (fst (snd (Apply x rv specs inUse r w)))) cid of
            Some e \<Rightarrow> e_source e = SourceEnv | None \<Rightarrow> False) \<longleftrightarrow>
         (case map_of (r_clients r) cid of Some e \<Rightarrow> e_source e = SourceEnv | None \<Rightarrow> False)"
proof (cases "accepted r specs specs cid")
  case True
  then obtain raw s where s: "raw \<in> set specs" "verdict r specs raw = Inr s" "sp_ID s = cid"
    by (rule acceptedE)
  note ap = Apply_named [OF assms s(1,2), of x rv inUse w]
  then obtain e where e: "map_of (r_clients (fst (snd (Apply x rv specs inUse r w)))) cid = Some e"
    using applied_entry_Some s(3) by blast
  have "e_source e = SourceAPI" using applied_entry_wf [OF assms s(2), of x e] ap e s(3) by simp
  moreover have "e_source e' = SourceAPI" if "map_of (r_clients r) cid = Some e'" for e'
    using verdict_InrD(4,5) [OF s(2)] that s(3) by simp
  ultimately show ?thesis using e by (auto split: option.splits)
next
  case False
  then show ?thesis by (auto simp: Apply_not_named [OF assms] swept_def split: option.splits)
qed

lemma verdict_Apply:
  "reg_wf r \<Longrightarrow> verdict (fst (snd (Apply x rv specs inUse r w))) specs = verdict r specs"
  by (simp add: fun_eq_iff verdict_def Let_def Apply_source)

lemma accepted_Apply:
  "reg_wf r \<Longrightarrow> accepted (fst (snd (Apply x rv specs inUse r w))) specs = accepted r specs"
  "reg_wf r \<Longrightarrow> rejected (fst (snd (Apply x rv specs inUse r w))) specs = rejected r specs"
  by (simp_all add: fun_eq_iff accepted_def rejected_def verdict_Apply)

lemma unchanged_Apply:
  assumes "reg_wf r" "raw \<in> set specs" "verdict r specs raw = Inr s"
  shows "unchanged x (fst (snd (Apply x rv specs inUse r w))) s"
  using applied_entry_Some [OF Apply_named [OF assms, of x rv inUse w]] by (auto simp: unchanged_def)

lemma swept_swept:
  assumes "reg_wf r" "\<not> accepted r specs specs cid"
  shows "swept (fst (snd (Apply x rv specs inUse r w))) specs inUse cid = swept r specs inUse cid"
  using Apply_not_named [OF assms, of x rv inUse w] assms(1)
  by (auto simp: swept_def accepted_Apply split: option.splits if_splits)

lemma Apply_repeated:
  fixes x :: "'w ext" and r :: "'w Registry" and w w' :: 'w and specs inUse rv
  assumes wf: "reg_wf r"
  defines "r1 \<equiv> fst (snd (Apply x rv specs inUse r w))"
  shows "map_of (r_clients (fst (snd (Apply x rv' specs inUse r1 w')))) = map_of (r_clients r1)"
proof
  fix cid
  have wf1: "reg_wf r1" unfolding r1_def using wf by (rule reg_wf_Apply)
  let ?r2 = "fst (snd (Apply x rv' specs inUse r1 w'))"
  show "map_of (r_clients ?r2) cid = map_of (r_clients r1) cid"
  proof (cases "accepted r specs specs cid")
    case True
    then obtain raw s where s: "raw \<in> set specs" "verdict r specs raw = Inr s" "sp_ID s = cid"
      by (rule acceptedE)
    have v1: "verdict r1 specs raw = Inr s" using s(2) verdict_Apply [OF wf] by (simp add: r1_def)
    have "unchanged x r1 s" unfolding r1_def using wf s(1,2) by (rule unchanged_Apply)
    with Apply_named [OF wf1 s(1) v1, of x rv' inUse w'] s(3)
    have "map_of (r_clients ?r2) cid = map_option (e_draining_update (\<lambda>_. False)) (map_of (r_clients r1) cid)"
      by (simp add: applied_entry_def)
    moreover obtain e where "map_of (r_clients r1) cid = Some e" "\<not> e_draining e"
      using applied_entry_Some [OF Apply_named [OF wf s(1,2), of x rv inUse w]] s(3) by (auto simp: r1_def)
    ultimately show ?thesis by simp
  next
    case False
    then have "map_of (r_clients ?r2) cid = swept r1 specs inUse cid"
      using Apply_not_named [OF wf1, of specs cid x rv' inUse w'] accepted_Apply [OF wf] by (simp add: r1_def)
    then show ?thesis
      using swept_swept [OF wf False] Apply_not_named [OF wf False, of x rv inUse w]
      by (simp add: r1_def)
  qed
qed

lemma Apply_repeated_Started:
  assumes "reg_wf r"
  shows "res_Started (fst (Apply x rv' specs inUse (fst (snd (Apply x rv specs inUse r w))) w')) = []"
proof (rule ccontr)
  assume "\<not> ?thesis"
  then obtain c where "c \<in> set (res_Started (fst (Apply x rv' specs inUse (fst (snd (Apply x rv specs inUse r w))) w')))"
    using last_in_set by blast
  from Apply_Started [OF reg_wf_Apply [OF assms] this] obtain raw s
    where "raw \<in> set specs" "verdict r specs raw = Inr s"
      "\<not> unchanged x (fst (snd (Apply x rv specs inUse r w))) s"
    using verdict_Apply [OF assms] by auto
  with unchanged_Apply [OF assms] show False by blast
qed


section \<open>Properties\<close>

lemma verdict_demo: "verdict (empty_Registry :: unit Registry) [demo_spec] demo_spec = Inr demo_prepared"
  by code_simp

text \<open>C1: A push does exactly what its entries ask for, whatever their order. Every accepted
  entry is in effect: a client whose fingerprint did not change keeps its entry (and with it
  its running adapter) and stops draining, any other one has a newly built adapter. Every
  other id is as before when it belongs to the environment or its entry was rejected, is
  left draining when it has a lease or a job in use, and is gone otherwise.\<close>

theorem Apply_spec:
  assumes "reg_wf r"
  shows "(\<forall>raw s. raw \<in> set specs \<longrightarrow> verdict r specs raw = Inr s \<longrightarrow>
            applied_entry x r s (map_of (r_clients (do_push (x, revision, specs, w) inUse r)) (sp_ID s))) \<and>
         (\<forall>cid. \<not> accepted r specs specs cid \<longrightarrow>
            map_of (r_clients (do_push (x, revision, specs, w) inUse r)) cid = swept r specs inUse cid)"
  unfolding do_push_def using Apply_named [OF assms] Apply_not_named [OF assms] by simp

theorem Apply_spec_witness:
  "reg_wf (empty_Registry :: unit Registry) \<and>
   verdict (empty_Registry :: unit Registry) [demo_spec] demo_spec = Inr demo_prepared \<and>
   applied_entry demo_ext empty_Registry demo_prepared
     (map_of (r_clients (do_push (demo_ext, 1, [demo_spec], ()) (\<lambda>_. False) empty_Registry)) (sp_ID demo_prepared)) \<and>
   map_of (r_clients (do_push (demo_ext, 1, [demo_spec], ()) (\<lambda>_. False) empty_Registry)) ''other'' = None"
proof -
  have "\<not> accepted (empty_Registry :: unit Registry) [demo_spec] [demo_spec] ''other''"
    "swept (empty_Registry :: unit Registry) [demo_spec] (\<lambda>_. False) ''other'' = None"
    by code_simp+
  then show ?thesis
    using Apply_spec [OF reg_wf_empty, of "[demo_spec]" demo_ext 1 "()" "\<lambda>_. False"] verdict_demo reg_wf_empty
    by simp
qed

text \<open>C6: The registry invariant: clients are keyed by their own id, no entry stores a secret,
  only pushed clients drain, pushed ids are valid, lease counts are positive and only
  registered clients are leased. A registry built by \<open>NewRegistry\<close> has it and every operation
  keeps it.\<close>

theorem registry_invariant:
  "reg_wf (NewRegistry ads) \<and>
   (reg_wf r \<longrightarrow> reg_wf (AddEnv spec ad r) \<and> reg_wf (do_lease cid r) \<and> reg_wf (release cid r) \<and>
      reg_wf (do_push (x, revision, specs, w) inUse r) \<and> reg_wf (do_reap inUse r))"
  by (simp add: reg_wf_NewRegistry reg_wf_AddEnv reg.wf_lease reg.wf_unlease reg.wf_push reg.wf_reap)

theorem registry_invariant_witness:
  "reg_wf (NewRegistry [] :: unit Registry) \<and>
   reg_wf (do_push (demo_ext, 1, [demo_spec], ()) (\<lambda>_. False) (NewRegistry []))"
  using registry_invariant [of "[]" "NewRegistry []" demo_spec None "''nz''" demo_ext 1 "[demo_spec]" "()" "\<lambda>_. False"]
  by blast

text \<open>One operation on the registry, by whoever.\<close>

fun registry_step ::
  "('w ext \<times> int \<times> ClientSpec list \<times> 'w) registry_op \<Rightarrow> 'w Registry \<Rightarrow> 'w Registry" where
  "registry_step (Op_lease cid) r = do_lease cid r"
| "registry_step (Op_release cid) r = release cid r"
| "registry_step (Op_push p inUse) r = do_push p inUse r"
| "registry_step (Op_reap inUse) r = do_reap inUse r"

lemma reg_exec: "reg.exec = registry_step"
proof (intro ext)
  fix op and r :: "'w Registry"
  show "reg.exec op r = registry_step op r" by (cases op) (simp_all add: reg.exec_def)
qed

text \<open>C3: A lease protects its client. As long as fewer leases of a client have been released
  than were held, no sequence of leases, releases, pushes and reaps by anyone unregisters it.\<close>

theorem lease_protects:
  assumes "reg_wf r" "int (count_list ops (Op_release cid)) < lease_count r cid"
  shows "Get (fold registry_step ops r) cid \<noteq> None"
  using reg.lease_held [OF assms] by (simp add: registered_def reg_exec)

text \<open>A registry with one environment client, and the lease of it.\<close>

definition demo_adapter :: "unit Adapter" where
  "demo_adapter = jdownloader_adapter"

theorem lease_protects_witness:
  "reg_wf (do_lease ''jdownloader'' (NewRegistry [Some demo_adapter])) \<and>
   Get (fold registry_step
          [Op_push (demo_ext, 1, [], ()) (\<lambda>_. False), Op_reap (\<lambda>_. False), Op_lease ''x'']
          (do_lease ''jdownloader'' (NewRegistry [Some demo_adapter]))) ''jdownloader'' \<noteq> None"
proof -
  let ?r = "do_lease ''jdownloader'' (NewRegistry [Some demo_adapter])"
  have "lease_count ?r ''jdownloader'' = 1" by code_simp
  moreover have "reg_wf ?r" by (simp add: reg.wf_lease reg_wf_NewRegistry)
  ultimately show ?thesis
    using lease_protects [of ?r "[Op_push (demo_ext, 1, [], ()) (\<lambda>_. False), Op_reap (\<lambda>_. False), Op_lease ''x'']"
        "''jdownloader''"] by simp
qed

text \<open>C12: A client with jobs is never dropped. When every push and every reap sees the jobs on
  a client, no sequence of operations by anyone unregisters it.\<close>

theorem jobs_protect:
  assumes "reg_wf r" "Get r cid \<noteq> None" "list_all (sees_use cid) ops"
  shows "Get (fold registry_step ops r) cid \<noteq> None"
  using reg.used_stays [of r cid ops] assms by (simp add: registered_def reg_exec)

theorem jobs_protect_witness:
  "Get (fold registry_step [Op_push (demo_ext, 1, [demo_spec], ()) (\<lambda>c. c = ''nz''), Op_reap (\<lambda>c. c = ''nz'')]
          (do_push (demo_ext, 1, [demo_spec], ()) (\<lambda>_. False) empty_Registry)) ''nz'' \<noteq> None"
proof (rule jobs_protect)
  show "reg_wf (do_push (demo_ext, 1, [demo_spec], ()) (\<lambda>_. False) empty_Registry)"
    by (intro reg.wf_push reg_wf_empty)
  have "registered (do_push (demo_ext, 1, [demo_spec], ()) (\<lambda>_. False) empty_Registry) (sp_ID demo_prepared)"
    using applied_entry_Some [OF Apply_named [OF reg_wf_empty _ verdict_demo, of demo_ext 1 "\<lambda>_. False" "()"]]
    by (auto simp: registered_iff do_push_def)
  then show "Get (do_push (demo_ext, 1, [demo_spec], ()) (\<lambda>_. False) empty_Registry) ''nz'' \<noteq> None"
    by (simp add: registered_def demo_prepared_def)
qed (simp add: sees_use_def)

text \<open>C16: The answer to a push. It lists every accepted id in the order of the push, every
  rejected id once, and the revision in effect: the pushed one when nothing was rejected, the
  previous one otherwise, which is also the revision the registry records.\<close>

theorem Apply_report:
  assumes "reg_wf r" "Apply x revision specs inUse r w = (res, r', w')"
  shows "res_Applied res = map (\<lambda>raw. trim_space (sp_ID raw)) (filter (\<lambda>raw. \<not> isl (verdict r specs raw)) specs) \<and>
         distinct (map ae_ID (res_Errors res)) \<and>
         set (map ae_ID (res_Errors res)) = {cid. rejected r specs specs cid} \<and>
         Revision r' = res_Revision res \<and>
         res_Revision res = (if list_all (\<lambda>raw. \<not> isl (verdict r specs raw)) specs then revision else Revision r)"
  using Apply_report_fields [OF assms(1), of x revision specs inUse w] Apply_fields(2) [of x revision specs inUse r w] assms(2)
  by (auto simp: Revision_def split: if_splits)

theorem Apply_report_witness:
  "res_Revision (fst (Apply demo_ext 7 [demo_spec] (\<lambda>_. False) empty_Registry ())) = 7 \<and>
   res_Applied (fst (Apply demo_ext 7 [demo_spec] (\<lambda>_. False) empty_Registry ())) = [''nz'']"
  using Apply_report [OF reg_wf_empty, of demo_ext 7 "[demo_spec]" "\<lambda>_. False" "()"] verdict_demo
  by (cases "Apply demo_ext 7 [demo_spec] (\<lambda>_. False) empty_Registry ()")
     (simp add: verdict_InrD(4) [OF verdict_demo, symmetric] demo_prepared_def)

text \<open>C17: Pushing the same set again changes nothing: no client is started, so no adapter is
  rebuilt and no session lost, and the registered clients are the same.\<close>

theorem Apply_idempotent:
  assumes "reg_wf r" "Apply x revision specs inUse r w = (res, r1, w1)"
    "Apply x revision specs inUse r1 w1 = (res', r2, w2)"
  shows "res_Started res' = [] \<and> map_of (r_clients r2) = map_of (r_clients r1)"
  using Apply_repeated [OF assms(1), where x = x and rv = revision and rv' = revision and specs = specs
      and inUse = inUse and w = w and w' = w1]
    Apply_repeated_Started [OF assms(1), where x = x and rv = revision and rv' = revision and specs = specs
      and inUse = inUse and w = w and w' = w1] assms(2,3)
  by simp

theorem Apply_idempotent_witness:
  "\<exists>res r1 w1 res' r2 w2. Apply demo_ext 7 [demo_spec] (\<lambda>_. False) empty_Registry () = (res, r1, w1) \<and>
     Apply demo_ext 7 [demo_spec] (\<lambda>_. False) r1 w1 = (res', r2, w2) \<and> res_Started res' = []"
  using Apply_idempotent [OF reg_wf_empty, of demo_ext 7 "[demo_spec]" "\<lambda>_. False" "()"]
  by (metis prod_cases3)

end
