(* ===== verification/Encoding.thy ===== *)
theory Encoding
  imports Json
begin

text \<open>
  Reading back what was encoded. The scanner of \<open>Json\<close> applied to what its encoder writes gives the
  value back: strings byte for byte where they are UTF-8, with U+FFFD for every byte that
  is not, as \<open>encoding/json\<close> does on both sides.
\<close>


section \<open>Runes\<close>

text \<open>A string with U+FFFD for every byte that is not part of a valid sequence.\<close>

definition utf8 :: "string \<Rightarrow> string" where
  "utf8 s = concat (runes s)"

definition is_rune :: "string \<Rightarrow> bool" where
  "is_rune r \<longleftrightarrow> 0 < rune_width r \<and> rune_width r = length r"

abbreviation tail_byte :: "nat \<Rightarrow> bool" where
  "tail_byte b \<equiv> 0x80 \<le> b \<and> b \<le> 0xBF"

lemma is_rune_cases:
  assumes "is_rune r"
  obtains (one) a where "map of_char r = [a :: nat]" "a < 0x80"
  | (two) a b where "map of_char r = [a :: nat, b]" "0xC2 \<le> a" "a < 0xE0" "tail_byte b"
  | (three) a b c where "map of_char r = [a :: nat, b, c]" "0xE0 \<le> a" "a < 0xF0" "tail_byte b" "tail_byte c"
      "a = 0xE0 \<Longrightarrow> 0xA0 \<le> b" "a = 0xED \<Longrightarrow> b < 0xA0"
  | (four) a b c d where "map of_char r = [a :: nat, b, c, d]" "0xF0 \<le> a" "a < 0xF5" "tail_byte b" "tail_byte c" "tail_byte d"
      "a = 0xF0 \<Longrightarrow> 0x90 \<le> b" "a = 0xF4 \<Longrightarrow> b < 0x90"
proof -
  obtain x t where r: "r = x # t" using assms by (cases r) (auto simp: is_rune_def rune_width_def)
  obtain n lo hi where fb: "first_byte (of_char x) = (n, lo, hi)" by (metis prod_cases3)
  have n: "n = length r" "0 < n" "n \<le> 4" and cont: "1 < n \<Longrightarrow> cont_byte lo hi (hd t) \<and> list_all (cont_byte 0x80 0xBF) (take (n - 2) (tl t))"
    using assms fb r by (auto simp: is_rune_def rune_width_def first_byte_def split: if_splits)
  consider "t = []" | y where "t = [y]" | y z where "t = [y, z]" | y z w where "t = [y, z, w]"
    using n r by (cases t; cases "tl t"; cases "tl (tl t)"; cases "tl (tl (tl t))") auto
  then show thesis
  proof cases
    case 1
    then show thesis using one n r fb by (auto simp: first_byte_def split: if_splits)
  next
    case (2 y)
    then show thesis using two [of "of_char x" "of_char y"] n r fb cont by (auto simp: first_byte_def cont_byte_def split: if_splits)
  next
    case (3 y z)
    then show thesis using three [of "of_char x" "of_char y" "of_char z"] n r fb cont
      by (auto simp: first_byte_def cont_byte_def split: if_splits)
  next
    case (4 y z w)
    then show thesis using four [of "of_char x" "of_char y" "of_char z" "of_char w"] n r fb cont
      by (auto simp: first_byte_def cont_byte_def split: if_splits)
  qed
qed

lemma bytes_of: "map of_char r = (bs :: nat list) \<Longrightarrow> r = map byte_of bs"
  by (auto simp: byte_of_def o_def)

text \<open>A number in digits of base 64.\<close>

lemma div_64: "n div 4096 = n div 64 div 64" "n div 262144 = n div 64 div 64 div 64" for n :: nat
  by (simp_all flip: div_mult2_eq)

lemma base_64: "r < 64 \<Longrightarrow> (q * 64 + r) div 64 = q" "r < 64 \<Longrightarrow> (q * 64 + r) mod 64 = r" for q r :: nat
  by simp_all

lemma offsetE:
  fixes b k m :: nat
  assumes "k \<le> b" "b < k + m"
  obtains b' where "b = k + b'" "b' < m"
  using assms by (metis add_less_cancel_left le_Suc_ex)

lemma encode_codepoint:
  assumes "is_rune r"
  shows "encode_rune (codepoint r) = r"
  using assms
proof (cases rule: is_rune_cases)
  case (one a)
  then show ?thesis using bytes_of [OF one(1)] by (simp add: codepoint_def encode_rune_def)
next
  case (two a b)
  obtain a' where a: "a = 0xC0 + a'" "a' < 32" by (rule offsetE [where k = "0xC0" and b = a and m = 32]) (use two(2,3) in auto)
  obtain b' where b: "b = 0x80 + b'" "b' < 64" by (rule offsetE [where k = "0x80" and b = b and m = 64]) (use two(4) in auto)
  have "codepoint r = a' * 64 + b'" by (simp add: codepoint_def two(1) a b)
  moreover have "2 \<le> a'" using two(2) a by simp
  ultimately show ?thesis using bytes_of [OF two(1)] a b by (simp add: encode_rune_def)
next
  case (three a b c)
  obtain a' where a: "a = 0xE0 + a'" "a' < 16" by (rule offsetE [where k = "0xE0" and b = a and m = 16]) (use three(2,3) in auto)
  obtain b' where b: "b = 0x80 + b'" "b' < 64" by (rule offsetE [where k = "0x80" and b = b and m = 64]) (use three(4) in auto)
  obtain c' where c: "c = 0x80 + c'" "c' < 64" by (rule offsetE [where k = "0x80" and b = c and m = 64]) (use three(5) in auto)
  define n where "n = (a' * 64 + b') * 64 + c'"
  have "codepoint r = n" by (simp add: codepoint_def three(1) a b c n_def algebra_simps)
  moreover have "n div 64 = a' * 64 + b'" "n mod 64 = c'" using c(2) by (simp_all only: n_def base_64)
  then have "n div 4096 = a'" "n div 64 mod 64 = b'" "n mod 64 = c'" using b(2) by (simp_all only: div_64 base_64)
  moreover have "0x800 \<le> n" using three(6) a by (cases "a' = 0") (auto simp: n_def b)
  moreover have "n < 0x10000" using a b c by (simp add: n_def)
  moreover have "\<not> (0xD800 \<le> n \<and> n < 0xE000)"
  proof (cases "a' = 13")
    case True
    then show ?thesis using three(7) a b c by (simp add: n_def)
  next
    case False
    then have "a' \<le> 12 \<or> 14 \<le> a'" by linarith
    then show ?thesis using b c by (auto simp: n_def)
  qed
  ultimately show ?thesis using bytes_of [OF three(1)] a b c by (auto simp: encode_rune_def)
next
  case (four a b c d)
  obtain a' where a: "a = 0xF0 + a'" "a' < 5" by (rule offsetE [where k = "0xF0" and b = a and m = 5]) (use four(2,3) in auto)
  obtain b' where b: "b = 0x80 + b'" "b' < 64" by (rule offsetE [where k = "0x80" and b = b and m = 64]) (use four(4) in auto)
  obtain c' where c: "c = 0x80 + c'" "c' < 64" by (rule offsetE [where k = "0x80" and b = c and m = 64]) (use four(5) in auto)
  obtain d' where d: "d = 0x80 + d'" "d' < 64" by (rule offsetE [where k = "0x80" and b = d and m = 64]) (use four(6) in auto)
  define n where "n = ((a' * 64 + b') * 64 + c') * 64 + d'"
  have "codepoint r = n" by (simp add: codepoint_def four(1) a b c d n_def algebra_simps)
  moreover have "n div 64 = (a' * 64 + b') * 64 + c'" "n mod 64 = d'" using d(2) by (simp_all only: n_def base_64)
  then have "n div 64 div 64 = a' * 64 + b'" "n div 64 mod 64 = c'" "n mod 64 = d'" using c(2) by (simp_all only: base_64)
  then have "n div 262144 = a'" "n div 4096 mod 64 = b'" "n div 64 mod 64 = c'" "n mod 64 = d'" using b(2) by (simp_all only: div_64 base_64)
  moreover have "0x10000 \<le> n" using four(7) a by (cases "a' = 0") (auto simp: n_def b)
  ultimately show ?thesis using bytes_of [OF four(1)] a b c d by (simp add: encode_rune_def)
qed

lemma codepoint_eqD: "is_rune r \<Longrightarrow> codepoint r = n \<Longrightarrow> r = encode_rune n"
  by (metis encode_codepoint)

lemma is_rune_take: "0 < rune_width s \<Longrightarrow> is_rune (take (rune_width s) s)"
  using rune_width_take [of s "[]"] rune_width_le [of s] by (simp add: is_rune_def)

lemma is_rune_width: "is_rune r \<Longrightarrow> rune_width (r @ s) = length r"
  using rune_width_take [of r s] by (auto simp: is_rune_def)

lemma chunks_runes: "Valid_rune r \<in> set (chunks s) \<Longrightarrow> is_rune r"
proof (induction s rule: chunks.induct)
  case (2 c s)
  then show ?case using is_rune_take [of "c # s"] by (auto simp: chunks.simps(2) split: if_splits)
qed simp


section \<open>Strings\<close>

lemma hex_val_digit: "n < 16 \<Longrightarrow> hex_val (hex_digit n) = Some n"
  by (simp add: hex_val_def hex_digit_def)

lemma hex_pad_4:
  "hex_pad 4 n = [hex_digit (n div 16 div 16 div 16 mod 16), hex_digit (n div 16 div 16 mod 16), hex_digit (n div 16 mod 16), hex_digit (n mod 16)]"
proof -
  have "(4 :: nat) = Suc (Suc (Suc (Suc 0)))" by simp
  then show ?thesis by (simp only: hex_pad.simps append.simps)
qed

lemma u4_hex_pad:
  assumes "n < 0x10000"
  shows "u4 (hex_pad 4 n @ s) = Some n"
proof -
  have "u4 (hex_pad 4 n @ s) = Some (n div 16 div 16 div 16 mod 16 * 4096 + n div 16 div 16 mod 16 * 256 + n div 16 mod 16 * 16 + n mod 16)"
    by (simp add: u4_def hex_pad_4 hex_val_digit)
  moreover have "n div 16 div 16 div 16 < 16" by (intro less_mult_imp_div_less) (use assms in simp)
  then have "n div 16 div 16 div 16 mod 16 = n div 16 div 16 div 16" by (rule mod_less)
  moreover have "n div 16 div 16 div 16 * 4096 + n div 16 div 16 mod 16 * 256 + n div 16 mod 16 * 16 + n mod 16 = n"
    using div_mult_mod_eq [of n 16] div_mult_mod_eq [of "n div 16" 16] div_mult_mod_eq [of "n div 16 div 16" 16] by linarith
  ultimately show ?thesis by simp
qed

text \<open>What \<open>marshal\<close> writes for one rune: the scanner takes it as part of the literal, and \<open>unquote\<close> gives the rune back.\<close>

definition kept :: "string \<Rightarrow> bool" where
  "kept s \<longleftrightarrow> (\<forall>c \<in> set s. c \<noteq> CHR 0x22 \<and> c \<noteq> CHR 0x5C \<and> 0x20 \<le> (of_char c :: nat))"

lemma scan_raw_kept: "kept s \<Longrightarrow> scan_raw (s @ t) = (case scan_raw t of Scanned r u \<Rightarrow> Scanned (s @ r) u | x \<Rightarrow> x)"
  by (induction s) (auto simp: kept_def not_less split: scan.split)

lemma byte_of_quote: "byte_of 34 = CHR 0x22" "byte_of 92 = CHR 0x5C"
  by code_simp+

lemma marshal_rune_cases:
  assumes "is_rune r"
  obtains (esc) d where "marshal_rune r = [CHR 0x5C, d]" "d \<in> set ''bfnrt'' \<union> {CHR 0x5C, CHR 0x22}"
      "r = [if d = CHR ''b'' then byte_of 8 else if d = CHR ''f'' then byte_of 12 else if d = CHR ''n'' then byte_of 10
            else if d = CHR ''r'' then byte_of 13 else if d = CHR ''t'' then byte_of 9 else d]"
  | (uni) n where "marshal_rune r = CHR 0x5C # CHR ''u'' # hex_pad 4 n" "n < 0x10000" "\<not> (0xD800 \<le> n \<and> n < 0xE000)" "r = encode_rune n"
  | (plain) "marshal_rune r = r" "kept r"
proof -
  let ?n = "codepoint r"
  note r = encode_codepoint [OF assms]
  consider "?n = 34" | "?n = 92" | "?n = 8" | "?n = 12" | "?n = 10" | "?n = 13" | "?n = 9"
    | "?n \<notin> {34, 92, 8, 12, 10, 13, 9}" "?n < 0x20 \<or> ?n = 0x3C \<or> ?n = 0x3E \<or> ?n = 0x26 \<or> ?n = 0x2028 \<or> ?n = 0x2029"
    | "?n \<notin> {34, 92}" "0x20 \<le> ?n" "?n \<notin> {0x3C, 0x3E, 0x26, 0x2028, 0x2029}"
    by fastforce
  then show thesis
  proof cases
    case 8
    then show thesis using uni [of ?n] r by (auto simp: marshal_rune_def Let_def)
  next
    case 9
    have "c \<noteq> CHR 0x22 \<and> c \<noteq> CHR 0x5C \<and> 0x20 \<le> (of_char c :: nat)" if "c \<in> set r" for c
    proof (cases "length r = 1")
      case True
      then have "r = [c]" using that by (cases r) auto
      then show ?thesis using 9 by (auto simp: codepoint_def)
    next
      case False
      then have "1 < rune_width r" "take (rune_width r) r = r" using assms by (auto simp: is_rune_def)
      then have "0x80 \<le> (of_char c :: nat)" using rune_width_high [of r] that by (simp add: list_all_iff)
      then show ?thesis by auto
    qed
    then have "kept r" by (simp add: kept_def)
    moreover have "marshal_rune r = r" using 9 by (auto simp: marshal_rune_def Let_def)
    ultimately show thesis using plain by blast
  qed (use r in \<open>auto simp: marshal_rune_def Let_def encode_rune_def byte_of_quote intro!: esc\<close>)
qed

definition good_chunk :: "chunk \<Rightarrow> bool" where
  "good_chunk k \<longleftrightarrow> (case k of Valid_rune r \<Rightarrow> is_rune r | Invalid_byte c \<Rightarrow> True)"

lemma chunks_good: "k \<in> set (chunks s) \<Longrightarrow> good_chunk k"
  using chunks_runes by (cases k) (auto simp: good_chunk_def)

lemma kept_hex_digit: "n < 16 \<Longrightarrow> kept [hex_digit n]"
  by (auto simp: kept_def hex_digit_def byte_of_inj simp flip: byte_of_quote)

lemma kept_hex_pad: "kept (hex_pad 4 n)"
  using kept_hex_digit by (simp add: hex_pad_4 kept_def)

lemma ufffd: "''ufffd'' = CHR ''u'' # hex_pad 4 0xFFFD" "encode_rune 0xFFFD = replacement_rune"
proof -
  have "byte_of 102 = CHR ''f''" "byte_of 100 = CHR ''d''" by code_simp+
  then show "''ufffd'' = CHR ''u'' # hex_pad 4 0xFFFD" by (simp add: hex_pad_4 hex_digit_def)
  show "encode_rune 0xFFFD = replacement_rune" by (simp add: encode_rune_def replacement_rune_def)
qed

lemma chunk_u: "marshal_chunk (Invalid_byte c) = CHR 0x5C # CHR ''u'' # hex_pad 4 0xFFFD"
  by (simp only: marshal_chunk.simps ufffd)

lemma scan_raw_u: "scan_raw (CHR 0x5C # CHR ''u'' # hex_pad 4 n @ t) =
    (case scan_raw t of Scanned r u \<Rightarrow> Scanned (CHR 0x5C # CHR ''u'' # hex_pad 4 n @ r) u | x \<Rightarrow> x)"
  by (simp add: scan_raw_kept [OF kept_hex_pad] split: scan.split)

lemma scan_raw_chunk:
  assumes "good_chunk k"
  shows "scan_raw (marshal_chunk k @ t) = (case scan_raw t of Scanned r u \<Rightarrow> Scanned (marshal_chunk k @ r) u | x \<Rightarrow> x)"
proof (cases k)
  case (Valid_rune r)
  then have "is_rune r" using assms by (simp add: good_chunk_def)
  then show ?thesis
  proof (cases rule: marshal_rune_cases)
    case (esc d)
    then show ?thesis using Valid_rune by (auto split: scan.split)
  next
    case (uni n)
    then show ?thesis by (simp only: Valid_rune marshal_chunk.simps append.simps scan_raw_u)
  next
    case plain
    then show ?thesis by (simp only: Valid_rune marshal_chunk.simps scan_raw_kept)
  qed
next
  case (Invalid_byte c)
  then show ?thesis by (simp only: chunk_u append.simps scan_raw_u)
qed

lemma unquote_u:
  assumes "n < 0x10000" "\<not> (0xD800 \<le> n \<and> n < 0xE000)"
  shows "unquote (CHR 0x5C # CHR ''u'' # hex_pad 4 n @ t) = map_option ((@) (encode_rune n)) (unquote t)"
proof -
  have "drop 4 (hex_pad 4 n @ t) = t" by (simp add: hex_pad_4)
  moreover have "(0xD800 \<le> n \<and> n < 0xDC00) = False" using assms(2) by auto
  ultimately show ?thesis using assms(1) by (auto simp: unquote.simps(2) u4_hex_pad simp del: drop_append)
qed

lemma unquote_chunk:
  assumes "good_chunk k"
  shows "unquote (marshal_chunk k @ t) = map_option ((@) (rune_of k)) (unquote t)"
proof (cases k)
  case (Valid_rune r)
  then have r: "is_rune r" using assms by (simp add: good_chunk_def)
  then show ?thesis
  proof (cases rule: marshal_rune_cases)
    case (esc d)
    then have "d \<noteq> CHR ''u''" by auto
    moreover have "(@) [x] = (#) x" for x :: char by (simp add: fun_eq_iff)
    ultimately show ?thesis using esc Valid_rune by (simp add: unquote.simps(2))
  next
    case (uni n)
    then show ?thesis using Valid_rune unquote_u [of n t] by simp
  next
    case plain
    obtain c r' where c: "r = c # r'" using r by (cases r) (auto simp: is_rune_def)
    have "rune_width (c # r' @ t) = length r" using is_rune_width [OF r, of t] c by simp
    with plain c show ?thesis using Valid_rune by (simp add: unquote.simps(2) kept_def)
  qed
next
  case (Invalid_byte c)
  then show ?thesis using unquote_u [of "0xFFFD" t] by (simp only: chunk_u append.simps ufffd(2) rune_of.simps) simp
qed

lemma scan_raw_chunks:
  "\<forall>k \<in> set ks. good_chunk k \<Longrightarrow> scan_raw (concat (map marshal_chunk ks) @ CHR 0x22 # t) = Scanned (concat (map marshal_chunk ks)) t"
  by (induction ks) (auto simp: scan_raw_chunk)

lemma unquote_chunks:
  "\<forall>k \<in> set ks. good_chunk k \<Longrightarrow> unquote (concat (map marshal_chunk ks)) = Some (concat (map rune_of ks))"
  by (induction ks) (auto simp: unquote_chunk)

lemma scan_marshal_string:
  "scan_string (tl (marshal_string s) @ t) = Scanned (utf8 s) t"
  using chunks_good [of _ s]
  by (simp add: scan_string_def marshal_string_def scan_raw_chunks unquote_chunks runes_def utf8_def)

lemma marshal_string_Cons: "marshal_string s = CHR 0x22 # tl (marshal_string s)"
  by (simp add: marshal_string_def)

lemma valid_runes: "valid_utf8 s \<Longrightarrow> utf8 s = s"
proof -
  assume "valid_utf8 s"
  then have "rune_of k = chunk_bytes k" if "k \<in> set (chunks s)" for k
    using that by (cases k) (auto simp: valid_utf8_def list_all_iff)
  then have "map rune_of (chunks s) = map chunk_bytes (chunks s)" by simp
  then show ?thesis by (simp only: utf8_def runes_def chunk_bytes_chunks)
qed


section \<open>Numbers\<close>

text \<open>What follows a number without becoming part of it.\<close>

definition past_number :: "string \<Rightarrow> bool" where
  "past_number t \<longleftrightarrow> (case t of [] \<Rightarrow> True | c # _ \<Rightarrow> \<not> is_digit c \<and> c \<notin> set ''.eE'')"

lemma scan_digits_append:
  "scan_digits s = Scanned d u \<Longrightarrow> u \<noteq> [] \<or> past_number t \<Longrightarrow> scan_digits (s @ t) = Scanned d (u @ t)"
  by (cases t) (auto simp: scan_digits_def past_number_def takeWhile_append dropWhile_append dropWhile_eq_Nil_conv
      split: list.splits if_splits, metis takeWhile_eq_all_conv)

lemma scan_frac_append:
  "scan_frac s = Scanned d u \<Longrightarrow> u \<noteq> [] \<or> past_number t \<Longrightarrow> scan_frac (s @ t) = Scanned d (u @ t)"
  by (cases t) (auto simp: scan_frac_def past_number_def scan_digits_append split: list.splits if_splits scan.splits)

lemma scan_exp_append:
  assumes "scan_exp s = Scanned d u" "u \<noteq> [] \<or> past_number t"
  shows "scan_exp (s @ t) = Scanned d (u @ t)"
proof (cases s)
  case Nil
  then show ?thesis using assms by (cases t) (auto simp: scan_exp_def past_number_def)
next
  case (Cons c s')
  show ?thesis
  proof (cases "c = CHR ''e'' \<or> c = CHR ''E''")
    case True
    obtain x s'' where s': "s' = x # s''"
      using assms(1) True Cons by (cases s') (auto simp: scan_exp_def Let_def scan_digits_def has_prefix_def)
    let ?sg = "if x = CHR ''+'' \<or> x = CHR ''-'' then [x] else []"
    let ?r = "if x = CHR ''+'' \<or> x = CHR ''-'' then s'' else x # s''"
    have exp: "scan_exp (c # (x # s'') @ t) = (case scan_digits (?r @ t) of Scanned d u \<Rightarrow> Scanned (c # ?sg @ d) u | x \<Rightarrow> x)" for t
      using True by (auto simp: scan_exp_def Let_def has_prefix_def split: scan.split)
    from assms(1) exp [of "[]"] obtain ds where ds: "scan_digits ?r = Scanned ds u" "d = c # ?sg @ ds"
      by (auto simp: Cons s' split: scan.splits)
    show ?thesis using scan_digits_append [OF ds(1) assms(2)] exp [of t] ds(2) by (simp add: Cons s')
  next
    case False
    then show ?thesis using assms(1) Cons by (auto simp: scan_exp_def)
  qed
qed

definition number :: "string \<Rightarrow> bool" where
  "number lit \<longleftrightarrow> scan_number lit = Scanned lit []"

lemma scan_number_append:
  assumes "number lit" "past_number t"
  shows "scan_number (lit @ t) = Scanned lit t"
proof -
  define sg where "sg = (if has_prefix lit ''-'' then ''-'' else [])"
  define s where "s = drop (length sg) lit"
  let ?int = "\<lambda>s. if has_prefix s ''0'' then Scanned ''0'' (drop 1 s) else scan_digits s"
  have scan: "scan_number lit = (case ?int s of
      Scanned d u \<Rightarrow> (case scan_frac u of
         Scanned f v \<Rightarrow> (case scan_exp v of Scanned e r \<Rightarrow> Scanned (sg @ d @ f @ e) r | x \<Rightarrow> x) | x \<Rightarrow> x) | x \<Rightarrow> x)"
    unfolding scan_number_def Let_def s_def sg_def by simp
  then obtain d u f v e where d: "?int s = Scanned d u" and f: "scan_frac u = Scanned f v" and e: "scan_exp v = Scanned e []"
    and lit: "lit = sg @ d @ f @ e"
    using assms(1) unfolding number_def by (auto split: scan.splits)
  have ne: "s \<noteq> []" using d by (auto simp: scan_digits_def has_prefix_def)
  then obtain y ys where s: "s = y # ys" by (cases s) auto
  have lit_ne: "lit \<noteq> []" using ne by (auto simp: s_def)
  have "?int (s @ t) = Scanned d (u @ t)"
  proof (cases "y = CHR ''0''")
    case False
    then have "scan_digits (s @ t) = Scanned d (u @ t)" using d assms(2) by (intro scan_digits_append) (auto simp: s has_prefix_def)
    with False show ?thesis by (simp add: s has_prefix_def)
  qed (use d in \<open>auto simp: s has_prefix_def\<close>)
  moreover have "scan_frac (u @ t) = Scanned f (v @ t)" by (rule scan_frac_append [OF f disjI2 [OF assms(2)]])
  moreover have "scan_exp (v @ t) = Scanned e t" using scan_exp_append [OF e disjI2 [OF assms(2)]] by simp
  moreover have sgt: "(if has_prefix (lit @ t) ''-'' then ''-'' else []) = sg" and st: "drop (length sg) (lit @ t) = s @ t"
    using lit_ne ne by (cases lit; auto simp: has_prefix_def sg_def s_def split: if_splits)+
  have "scan_number (lit @ t) = (case ?int (s @ t) of
      Scanned d u \<Rightarrow> (case scan_frac u of
         Scanned f v \<Rightarrow> (case scan_exp v of Scanned e r \<Rightarrow> Scanned (sg @ d @ f @ e) r | x \<Rightarrow> x) | x \<Rightarrow> x) | x \<Rightarrow> x)"
    unfolding scan_number_def Let_def sgt st by simp
  ultimately show ?thesis by (simp only: scan.case lit [symmetric])
qed

section \<open>Values\<close>

text \<open>What reading back a value gives: the strings with U+FFFD for every invalid byte.\<close>

fun cleaned :: "json \<Rightarrow> json" where
  "cleaned (JStr s) = JStr (utf8 s)"
| "cleaned (JArr vs) = JArr (map cleaned vs)"
| "cleaned (JObj ms) = JObj (map (\<lambda>m. (utf8 (fst m), cleaned (snd m))) ms)"
| "cleaned v = v"

text \<open>Every number of the value is a literal.\<close>

fun numbers_ok :: "json \<Rightarrow> bool" where
  "numbers_ok (JNum lit) \<longleftrightarrow> number lit"
| "numbers_ok (JArr vs) \<longleftrightarrow> list_all numbers_ok vs"
| "numbers_ok (JObj ms) \<longleftrightarrow> list_all (\<lambda>m. numbers_ok (snd m)) ms"
| "numbers_ok v \<longleftrightarrow> True"

definition reads :: "json \<Rightarrow> bool" where
  "reads v \<longleftrightarrow> (\<forall>t. past_number t \<longrightarrow> (\<exists>n0. \<forall>n \<ge> n0. scan_value n (marshal v @ t) = Scanned (cleaned v) t))"

lemma number_hd:
  assumes "number lit"
  obtains c s where "lit = c # s" "c = CHR ''-'' \<or> is_digit c"
proof (cases lit)
  case Nil
  then show thesis using assms by (simp add: number_def scan_number_def Let_def has_prefix_def scan_digits_def)
next
  case (Cons c s)
  have "c = CHR ''-'' \<or> is_digit c"
  proof (rule ccontr)
    assume "\<not> ?thesis"
    moreover from this have "c \<noteq> CHR ''0''" by (auto simp: is_digit_def)
    ultimately show False using assms Cons by (simp add: number_def scan_number_def Let_def has_prefix_def scan_digits_def)
  qed
  with Cons show thesis using that by blast
qed

lemma is_ws_code: "is_ws c \<Longrightarrow> (of_char c :: nat) \<in> {9, 10, 13, 32}"
  by (auto simp: is_ws_def)

text \<open>A value starts with a byte that is neither white space nor the end of a list.\<close>

lemma marshal_hd: "numbers_ok v \<Longrightarrow> \<exists>c s. marshal v = c # s \<and> \<not> is_ws c \<and> c \<noteq> CHR '']'' \<and> c \<noteq> CHR ''}''"
proof (cases v)
  case (JNum lit)
  assume "numbers_ok v"
  then obtain c s where c: "lit = c # s" "c = CHR ''-'' \<or> is_digit c" using JNum number_hd by auto
  then have "\<not> is_ws c" using is_ws_code [of c] by (auto simp: is_digit_def)
  moreover have "c \<noteq> CHR '']''" "c \<noteq> CHR ''}''" using c(2) by (auto simp: is_digit_def)
  ultimately show ?thesis using c JNum by simp
qed (auto simp: marshal_string_def dest: is_ws_code)

lemma skip_ws_marshal:
  assumes "numbers_ok v"
  shows "skip_ws (marshal v @ t) = marshal v @ t" "marshal v \<noteq> []"
    "\<not> has_prefix (marshal v @ t) '']''" "\<not> has_prefix (marshal v @ t) ''}''"
  using marshal_hd [OF assms] by (auto simp: skip_ws_def has_prefix_def)

lemma skip_ws_non [simp]: "\<not> is_ws c \<Longrightarrow> skip_ws (c # s) = c # s"
  by (simp add: skip_ws_def)

lemma not_ws [simp]: "\<not> is_ws (CHR '','')" "\<not> is_ws (CHR '']'')" "\<not> is_ws (CHR ''}'')" "\<not> is_ws (CHR '':'')"
  "\<not> is_ws (CHR 0x22)" "\<not> is_ws (CHR ''['')" "\<not> is_ws (CHR ''{'')" "\<not> is_ws (CHR ''n'')" "\<not> is_ws (CHR ''t'')" "\<not> is_ws (CHR ''f'')"
  by (auto dest: is_ws_code)

lemma past_number_simps [simp]: "past_number (CHR '','' # t)" "past_number (CHR '']'' # t)" "past_number (CHR ''}'' # t)" "past_number []"
  by (auto simp: past_number_def is_digit_def)

lemma reads_elems:
  assumes "\<forall>v \<in> set vs. numbers_ok v \<and> reads v" "vs \<noteq> []"
  shows "\<exists>n0. \<forall>n \<ge> n0. scan_elems n (join (map marshal vs) '','' @ CHR '']'' # t) = Scanned (map cleaned vs) t"
  using assms
proof (induction vs)
  case (Cons v vs)
  show ?case
  proof (cases vs)
    case Nil
    obtain n0 where n0: "\<forall>n \<ge> n0. scan_value n (marshal v @ CHR '']'' # t) = Scanned (cleaned v) (CHR '']'' # t)"
      using Cons.prems(1) by (force simp: reads_def)
    have "scan_elems n (marshal v @ CHR '']'' # t) = Scanned [cleaned v] t" if "Suc n0 \<le> n" for n
      using n0 that by (cases n) simp_all
    then show ?thesis using Nil by auto
  next
    case (Cons v' vs')
    let ?r = "join (map marshal vs) '','' @ CHR '']'' # t"
    obtain n0 where n0: "\<forall>n \<ge> n0. scan_value n (marshal v @ CHR '','' # ?r) = Scanned (cleaned v) (CHR '','' # ?r)"
      using Cons.prems(1) by (force simp: reads_def)
    obtain n1 where n1: "\<forall>n \<ge> n1. scan_elems n ?r = Scanned (map cleaned vs) t"
      using Cons.IH Cons.prems(1) Cons by auto
    have "scan_elems n (marshal v @ CHR '','' # ?r) = Scanned (cleaned v # map cleaned vs) t" if "Suc (max n0 n1) \<le> n" for n
      using n0 n1 that by (cases n) simp_all
    then show ?thesis using Cons by auto
  qed
qed simp

lemma reads_members:
  assumes "\<forall>m \<in> set ms. numbers_ok (snd m) \<and> reads (snd m)" "ms \<noteq> []"
  shows "\<exists>n0. \<forall>n \<ge> n0. scan_members n (join (map (\<lambda>(k, v). marshal_string k @ '':'' @ marshal v) ms) '','' @ CHR ''}'' # t) =
     Scanned (map (\<lambda>m. (utf8 (fst m), cleaned (snd m))) ms) t"
  using assms
proof (induction ms)
  case (Cons m ms)
  obtain k v where m: "m = (k, v)" by (cases m)
  let ?f = "\<lambda>(k, v). marshal_string k @ '':'' @ marshal v"
  have mem: "scan_members (Suc n) (marshal_string k @ CHR '':'' # marshal v @ s) =
      (case scan_value n (marshal v @ s) of
         Scanned v s4 \<Rightarrow> (case skip_ws s4 of [] \<Rightarrow> Scan_eof
           | c # t \<Rightarrow> if c = CHR ''}'' then Scanned [(utf8 k, v)] t
             else if c = CHR '','' then (case scan_members n t of
                Scanned ms u \<Rightarrow> Scanned ((utf8 k, v) # ms) u | Scan_eof \<Rightarrow> Scan_eof | Scan_syntax \<Rightarrow> Scan_syntax)
             else Scan_syntax)
       | Scan_eof \<Rightarrow> Scan_eof | Scan_syntax \<Rightarrow> Scan_syntax)" for n s
    using scan_marshal_string [of k "CHR '':'' # marshal v @ s"]
    by (subst marshal_string_Cons) simp
  show ?case
  proof (cases ms)
    case Nil
    obtain n0 where n0: "\<forall>n \<ge> n0. scan_value n (marshal v @ CHR ''}'' # t) = Scanned (cleaned v) (CHR ''}'' # t)"
      using Cons.prems(1) by (force simp: reads_def m)
    have "scan_members n (?f m @ CHR ''}'' # t) = Scanned [(utf8 k, cleaned v)] t" if "Suc n0 \<le> n" for n
      using n0 that by (cases n) (simp_all add: m mem del: scan_members.simps)
    then show ?thesis using Nil m by (auto simp del: scan_members.simps)
  next
    case (Cons m' ms')
    let ?r = "join (map ?f ms) '','' @ CHR ''}'' # t"
    obtain n0 where n0: "\<forall>n \<ge> n0. scan_value n (marshal v @ CHR '','' # ?r) = Scanned (cleaned v) (CHR '','' # ?r)"
      using Cons.prems(1) by (force simp: reads_def m)
    obtain n1 where n1: "\<forall>n \<ge> n1. scan_members n ?r = Scanned (map (\<lambda>m. (utf8 (fst m), cleaned (snd m))) ms) t"
      using Cons.IH Cons.prems(1) Cons by auto
    have "scan_members n (?f m @ CHR '','' # ?r) =
        Scanned ((utf8 k, cleaned v) # map (\<lambda>m. (utf8 (fst m), cleaned (snd m))) ms) t" if "Suc (max n0 n1) \<le> n" for n
      using n0 n1 that by (cases n) (simp_all add: m mem del: scan_members.simps)
    then show ?thesis using Cons m by (auto simp del: scan_members.simps)
  qed
qed simp

lemma scan_value_at:
  assumes "\<not> is_ws c"
  shows "scan_value (Suc k) (c # t) =
     (if c = CHR ''{'' then
        (if has_prefix (skip_ws t) ''}'' then Scanned (JObj []) (tl (skip_ws t))
         else (case scan_members k t of Scanned ms r \<Rightarrow> Scanned (JObj ms) r | Scan_eof \<Rightarrow> Scan_eof | Scan_syntax \<Rightarrow> Scan_syntax))
      else if c = CHR ''['' then
        (if has_prefix (skip_ws t) '']'' then Scanned (JArr []) (tl (skip_ws t))
         else (case scan_elems k t of Scanned vs r \<Rightarrow> Scanned (JArr vs) r | Scan_eof \<Rightarrow> Scan_eof | Scan_syntax \<Rightarrow> Scan_syntax))
      else if c = CHR 0x22 then
        (case scan_string t of Scanned v r \<Rightarrow> Scanned (JStr v) r | Scan_eof \<Rightarrow> Scan_eof | Scan_syntax \<Rightarrow> Scan_syntax)
      else if c = CHR ''-'' \<or> is_digit c then
        (case scan_number (c # t) of Scanned v r \<Rightarrow> Scanned (JNum v) r | Scan_eof \<Rightarrow> Scan_eof | Scan_syntax \<Rightarrow> Scan_syntax)
      else if c = CHR ''n'' then scan_lit ''null'' JNull (c # t)
      else if c = CHR ''t'' then scan_lit ''true'' (JBool True) (c # t)
      else if c = CHR ''f'' then scan_lit ''false'' (JBool False) (c # t)
      else Scan_syntax)"
  using assms by simp

text \<open>Enough of one stage is all that is needed at the next.\<close>

lemma eventually_Suc:
  assumes "\<exists>n0. \<forall>n \<ge> n0. P n" "\<And>n. P n \<Longrightarrow> Q (Suc n)"
  shows "\<exists>n0. \<forall>n \<ge> n0. Q n"
proof -
  obtain n0 where "\<forall>n \<ge> n0. P n" using assms(1) by blast
  then have "Q n" if "Suc n0 \<le> n" for n using assms(2) that by (cases n) auto
  then show ?thesis by blast
qed

lemma reads_array:
  assumes ok: "\<forall>v \<in> set vs. numbers_ok v \<and> reads v"
  shows "reads (JArr vs)"
proof (cases vs)
  case Nil
  then show ?thesis unfolding reads_def by (auto simp: has_prefix_def intro!: exI [of _ 1] dest!: Suc_le_D)
next
  case (Cons v vs')
  have "\<not> has_prefix (skip_ws (join (map marshal vs) '','' @ CHR '']'' # t)) '']''" for t
    using skip_ws_marshal [of v] ok Cons by (cases vs') simp_all
  then have "scan_elems n (join (map marshal vs) '','' @ CHR '']'' # t) = Scanned (map cleaned vs) t \<Longrightarrow>
      scan_value (Suc n) (marshal (JArr vs) @ t) = Scanned (cleaned (JArr vs)) t" for n t
    by (simp add: scan_value_at del: scan_value.simps)
  note stage = this
  show ?thesis unfolding reads_def
  proof (intro allI impI)
    fix t
    from Cons have "vs \<noteq> []" by simp
    show "\<exists>n0. \<forall>n \<ge> n0. scan_value n (marshal (JArr vs) @ t) = Scanned (cleaned (JArr vs)) t"
      by (rule eventually_Suc [OF reads_elems [OF ok \<open>vs \<noteq> []\<close>, of t]]) (rule stage)
  qed
qed

lemma reads_object:
  assumes ok: "\<forall>m \<in> set ms. numbers_ok (snd m) \<and> reads (snd m)"
  shows "reads (JObj ms)"
proof -
  let ?f = "\<lambda>(k, v). marshal_string k @ '':'' @ marshal v"
  show ?thesis
  proof (cases ms)
    case Nil
    then show ?thesis unfolding reads_def by (auto simp: has_prefix_def intro!: exI [of _ 1] dest!: Suc_le_D)
  next
    case (Cons m ms')
    obtain s where s: "join (map ?f ms) '','' = CHR 0x22 # s"
      using Cons by (cases ms'; cases m) (auto simp: marshal_string_def)
    have no: "\<not> has_prefix (skip_ws (join (map ?f ms) '','' @ CHR ''}'' # t)) ''}''" for t
      unfolding s by (simp add: has_prefix_def)
    have "scan_members n (join (map ?f ms) '','' @ CHR ''}'' # t) = Scanned (map (\<lambda>m. (utf8 (fst m), cleaned (snd m))) ms) t \<Longrightarrow>
        scan_value (Suc n) (marshal (JObj ms) @ t) = Scanned (cleaned (JObj ms)) t" for n t
      using no [of t] by (simp add: scan_value_at del: scan_value.simps scan_members.simps)
    note stage = this
    show ?thesis unfolding reads_def
    proof (intro allI impI)
      fix t
      from Cons have "ms \<noteq> []" by simp
      show "\<exists>n0. \<forall>n \<ge> n0. scan_value n (marshal (JObj ms) @ t) = Scanned (cleaned (JObj ms)) t"
        by (rule eventually_Suc [OF reads_members [OF ok \<open>ms \<noteq> []\<close>, of t]]) (rule stage)
    qed
  qed
qed

lemma all_reads: "numbers_ok v \<Longrightarrow> reads v"
proof (induction v)
  case JNull
  show ?case unfolding reads_def
    by (intro allI impI exI [of _ 1]) (auto simp: scan_lit_def has_prefix_def is_digit_def dest!: Suc_le_D)
next
  case (JBool b)
  show ?case unfolding reads_def
    by (intro allI impI exI [of _ 1]) (auto simp: scan_lit_def has_prefix_def is_digit_def dest!: Suc_le_D)
next
  case (JNum lit)
  then obtain c s where c: "lit = c # s" "c = CHR ''-'' \<or> is_digit c" using number_hd by auto
  have "\<not> is_ws c" "c \<noteq> CHR ''{''" "c \<noteq> CHR ''[''" "c \<noteq> CHR 0x22"
    using c(2) is_ws_code [of c] by (auto simp: is_digit_def)
  then have "scan_value (Suc n) (lit @ t) = Scanned (JNum lit) t" if "past_number t" for n t
    using scan_number_append [OF _ that, of lit] JNum c by (simp add: scan_value_at del: scan_value.simps)
  then have "scan_value n (lit @ t) = Scanned (JNum lit) t" if "past_number t" "1 \<le> n" for n t
    using that by (cases n) simp_all
  then show ?case unfolding reads_def by auto
next
  case (JStr x)
  have "scan_value (Suc n) (marshal_string x @ t) = Scanned (JStr (utf8 x)) t" for n t
    using scan_marshal_string [of x t]
    by (subst marshal_string_Cons) (simp add: scan_value_at is_digit_def del: scan_value.simps)
  then have "scan_value n (marshal_string x @ t) = Scanned (JStr (utf8 x)) t" if "1 \<le> n" for n t
    using that by (cases n) simp_all
  then show ?case unfolding reads_def by auto
next
  case (JArr vs)
  have ok: "\<forall>v \<in> set vs. numbers_ok v \<and> reads v" using JArr by (auto simp: list_all_iff)
  then show ?case by (rule reads_array)
next
  case (JObj ms)
  have ok: "\<forall>m \<in> set ms. numbers_ok (snd m) \<and> reads (snd m)" using JObj by (force simp: list_all_iff)
  then show ?case by (rule reads_object)
qed

lemma fold_max_le: "\<forall>n \<in> set ns. n \<le> k \<Longrightarrow> m \<le> k \<Longrightarrow> fold max ns m \<le> (k :: nat)"
  by (induction ns arbitrary: m) auto

lemma json_depth_cleaned: "json_depth (cleaned v) = json_depth v"
proof (induction v)
  case (JArr vs)
  then have "map (\<lambda>v. json_depth (cleaned v)) vs = map json_depth vs" by simp
  then show ?case by (simp only: cleaned.simps json_depth.simps map_map o_def)
next
  case (JObj ms)
  then have "map (\<lambda>m. json_depth (cleaned (snd m))) ms = map (\<lambda>m. json_depth (snd m)) ms" by (force intro: snds.intros)
  then show ?case by (simp only: cleaned.simps json_depth.simps map_map o_def snd_conv)
qed simp_all

text \<open>The scanner reads back what the encoder wrote, with the bytes that are not UTF-8 replaced.\<close>

lemma scan_marshal_append:
  assumes "numbers_ok v" "int (json_depth v) \<le> maxNestingDepth" "past_number t"
  shows "scan_json (marshal v @ t) = Scanned (cleaned v) t"
proof -
  obtain n0 where "\<forall>n \<ge> n0. scan_value n (marshal v @ t) = Scanned (cleaned v) t"
    using all_reads [OF assms(1)] assms(3) unfolding reads_def by blast
  then have "scan_value (Suc (2 * length (marshal v @ t)) + n0) (marshal v @ t) = Scanned (cleaned v) t"
    by (simp del: scan_value.simps)
  then show ?thesis using assms(2) by (simp only: scan_fuel scan_json_def scan.case json_depth_cleaned not_less [symmetric] if_False)
qed

lemma scan_marshal:
  "numbers_ok v \<Longrightarrow> int (json_depth v) \<le> maxNestingDepth \<Longrightarrow> scan_json (marshal v) = Scanned (cleaned v) []"
  using scan_marshal_append [of v "[]"] by simp


section \<open>ASCII\<close>

abbreviation ascii :: "string \<Rightarrow> bool" where
  "ascii s \<equiv> list_all (\<lambda>c. (of_char c :: nat) < 128) s"

lemma utf8_Nil [simp]: "utf8 s = [] \<longleftrightarrow> s = []"
proof (cases s)
  case (Cons c t)
  have "rune_of k \<noteq> []" if "good_chunk k" for k
    using that by (cases k) (auto simp: good_chunk_def is_rune_def replacement_rune_def)
  then show ?thesis using chunks_good [of _ s] Cons
    by (auto simp: utf8_def runes_def chunks.simps(2))
qed (simp add: utf8_def runes_def)

lemma valid_ascii: "ascii s \<Longrightarrow> utf8 s = s"
proof (induction s)
  case (Cons c s)
  then have "rune_width (c # s) = 1" by (simp add: rune_width_def first_byte_def)
  then show ?case using Cons by (simp add: utf8_def runes_def chunks.simps(2))
qed (simp add: utf8_def runes_def)

lemma valid_utf8_ascii: "ascii s \<Longrightarrow> valid_utf8 s"
proof (induction s)
  case (Cons c s)
  then have "rune_width (c # s) = 1" by (simp add: rune_width_def first_byte_def)
  then show ?case using Cons by (simp add: valid_utf8_def chunks.simps(2))
qed (simp add: valid_utf8_def)

text \<open>A key of a length that no field name has is not a field.\<close>

lemma length_fold_key: "ascii s \<Longrightarrow> length (fold_key s) = length s"
proof (induction s)
  case (Cons c s)
  then have "c \<noteq> byte_of 0xC5" "c \<noteq> byte_of 0xE2" by auto
  then show ?case using Cons by (simp add: has_prefix_def Let_def)
qed simp

lemma find_field_length:
  assumes "ascii k" "list_all ascii (map fst fs)" "length k \<notin> set (map length (map fst fs))"
  shows "find_field fs k = None"
proof -
  have "map_of fs k = None" using assms(3) by (auto simp: map_of_eq_None_iff)
  moreover have "map_of (map (\<lambda>(n, f). (fold_key n, f)) fs) (fold_key k) = None"
    unfolding map_of_eq_None_iff
  proof
    assume "fold_key k \<in> fst ` set (map (\<lambda>(n, f). (fold_key n, f)) fs)"
    then obtain n where n: "n \<in> set (map fst fs)" "fold_key k = fold_key n" by force
    then have "length k = length n" using length_fold_key [of n] length_fold_key [OF assms(1)] assms(2) by (auto simp: list_all_iff)
    then show False using assms(3) n(1) by auto
  qed
  ultimately show ?thesis by (simp add: find_field_def)
qed

end
