(* ===== verification/Decimal.thy ===== *)
theory Decimal
  imports Encoding
begin

text \<open>
  How \<open>encoding/json\<close> writes a \<open>float64\<close>: the shortest decimal that is read back as the same
  number (\<open>strconv.FormatFloat\<close> with precision -1), in the layout of JSON. Seventeen digits are
  always enough, so the search over the number of digits ends, and reading gives the
  number back.
\<close>


section \<open>Literals\<close>

text \<open>A number literal from its integer digits, its fraction digits and its exponent.\<close>

definition exp_part :: "int option \<Rightarrow> string" where
  "exp_part ex = (case ex of None \<Rightarrow> []
     | Some e \<Rightarrow> CHR ''e'' # (if e < 0 then CHR ''-'' else CHR ''+'') # nat_digits (nat \<bar>e\<bar>))"

definition literal :: "string \<Rightarrow> string \<Rightarrow> int option \<Rightarrow> string" where
  "literal ip fp ex = ip @ (if fp = [] then [] else CHR ''.'' # fp) @ exp_part ex"

definition good_int :: "string \<Rightarrow> bool" where
  "good_int ip \<longleftrightarrow> ip \<noteq> [] \<and> list_all is_digit ip \<and> (hd ip = CHR ''0'' \<longrightarrow> ip = ''0'')"

lemma is_digit_zero: "is_digit (CHR ''0'')"
  by (simp add: is_digit_def)

lemma digit_simps: "is_digit c \<Longrightarrow> c \<noteq> CHR ''.'' \<and> c \<noteq> CHR ''e'' \<and> c \<noteq> CHR ''E'' \<and> c \<noteq> CHR ''-'' \<and> c \<noteq> CHR ''+''"
  by (auto simp: is_digit_def)

lemma takeWhile_digits: "list_all P ds \<Longrightarrow> t = [] \<or> \<not> P (hd t) \<Longrightarrow> takeWhile P (ds @ t) = ds \<and> dropWhile P (ds @ t) = t"
  by (induction ds) (cases t; auto)+

lemma scan_digits_run:
  assumes "list_all is_digit ds" "ds \<noteq> []" "t = [] \<or> \<not> is_digit (hd t)"
  shows "scan_digits (ds @ t) = Scanned ds t"
proof -
  obtain c cs where "ds = c # cs" using assms(2) by (cases ds) auto
  with assms takeWhile_digits [OF assms(1,3)] show ?thesis by (simp add: scan_digits_def)
qed

lemma scan_exp_part: "scan_exp (exp_part ex) = Scanned (exp_part ex) []"
proof (cases ex)
  case (Some e)
  have "scan_digits (nat_digits n) = Scanned (nat_digits n) []" for n
    using scan_digits_run [OF nat_digits_digits [of n], of "[]"] by simp
  then show ?thesis by (simp add: Some exp_part_def scan_exp_def Let_def has_prefix_def)
qed (simp add: exp_part_def scan_exp_def)

lemma exp_part_hd: "exp_part ex = [] \<or> \<not> is_digit (hd (exp_part ex)) \<and> hd (exp_part ex) \<noteq> CHR ''.''"
  by (auto simp: exp_part_def is_digit_def split: option.split)

lemma number_literal:
  assumes "good_int ip" "list_all is_digit fp"
  shows "number (literal ip fp ex)"
proof -
  define f where "f = (if fp = [] then [] else CHR ''.'' # fp)"
  define r where "r = f @ exp_part ex"
  have lit: "literal ip fp ex = ip @ r" by (simp add: literal_def f_def r_def)
  obtain c ip' where ip: "ip = c # ip'" "is_digit c" using assms(1) by (cases ip) (auto simp: good_int_def)
  have r: "r = [] \<or> \<not> is_digit (hd r)" using exp_part_hd [of ex] by (auto simp: r_def f_def is_digit_def)
  have int: "(if has_prefix (ip @ r) ''0'' then Scanned ''0'' (drop 1 (ip @ r)) else scan_digits (ip @ r)) = Scanned ip r"
    using assms(1) scan_digits_run [OF _ _ r, of ip] by (auto simp: good_int_def has_prefix_def ip)
  have frac: "scan_frac r = Scanned f (exp_part ex)"
    using exp_part_hd [of ex] scan_digits_run [OF assms(2) _, of "exp_part ex"]
    by (cases "exp_part ex") (auto simp: scan_frac_def r_def f_def)
  have sg: "(if has_prefix (ip @ r) ''-'' then ''-'' else []) = []"
    using digit_simps [OF ip(2)] by (simp add: ip(1) has_prefix_def)
  show ?thesis
    unfolding number_def scan_number_def Let_def lit sg list.size drop_0 int scan.case frac scan_exp_part
    by (simp add: r_def)
qed

lemma atoi_sign: "in64 e \<Longrightarrow> atoi ((if e < 0 then CHR ''-'' else CHR ''+'') # nat_digits (nat \<bar>e\<bar>)) = (e, True)"
  using nat_digits_digits by (auto simp: atoi_def in64_def Let_def has_prefix_def)

lemma literal_value:
  assumes "good_int ip" "list_all is_digit fp" "\<And>e. ex = Some e \<Longrightarrow> in64 e"
  shows "num_rat (literal ip fp ex) =
    of_nat (digits_val (ip @ fp)) * 10 powi ((case ex of None \<Rightarrow> 0 | Some e \<Rightarrow> e) - int (length fp))"
proof -
  let ?m = "ip @ (if fp = [] then [] else CHR ''.'' # fp)"
  obtain c ip' where ip: "ip = c # ip'" "is_digit c" using assms(1) by (cases ip) (auto simp: good_int_def)
  have d: "list_all is_digit ip" using assms(1) by (simp add: good_int_def)
  have "list_all (\<lambda>c. c \<noteq> CHR ''e'' \<and> c \<noteq> CHR ''E'') ?m"
    using d assms(2) digit_simps by (fastforce simp: list_all_iff)
  from takeWhile_digits [OF this, of "exp_part ex"]
  have m: "takeWhile (\<lambda>c. c \<noteq> CHR ''e'' \<and> c \<noteq> CHR ''E'') (literal ip fp ex) = ?m"
    by (auto simp: literal_def exp_part_def split: option.splits)
  have i: "takeWhile is_digit ?m = ip"
    using takeWhile_digits [OF d, of "if fp = [] then [] else CHR ''.'' # fp"] by (auto simp: is_digit_def)
  have f: "drop (Suc (length ip)) ?m = fp" by simp
  have e: "drop (Suc (length ?m)) (literal ip fp ex) = tl (exp_part ex)"
    by (simp add: literal_def drop_Suc)
  have neg: "has_prefix (literal ip fp ex) ''-'' = False"
    using digit_simps [OF ip(2)] by (simp add: literal_def ip(1) has_prefix_def)
  have x: "fst (atoi (if tl (exp_part ex) = [] then ''0'' else tl (exp_part ex))) = (case ex of None \<Rightarrow> 0 | Some e \<Rightarrow> e)"
  proof (cases ex)
    case None
    have "atoi ''0'' = (0, True)" by code_simp
    then show ?thesis using None by (simp add: exp_part_def)
  next
    case (Some e)
    then show ?thesis using atoi_sign [OF assms(3) [OF Some]] by (simp add: exp_part_def)
  qed
  show ?thesis unfolding num_rat_def Let_def neg if_False m e i f x ..
qed


section \<open>The shortest decimal\<close>

text \<open>The decimal exponent of a positive rational: \<open>10 powi k \<le> x < 10 powi (k + 1)\<close>.\<close>

definition dec_exponent :: "rat \<Rightarrow> int" where
  "dec_exponent x =
     (case quotient_of x of (p, q) \<Rightarrow>
        let e = int (length (nat_digits (nat p))) - int (length (nat_digits (nat q)))
        in if 10 powi e \<le> x then e else e - 1)"

text \<open>The decimal of \<open>n\<close> digits that is read back as \<open>x\<close>: the nearest when the two around \<open>x\<close> both are.\<close>

definition shortest_at :: "nat \<Rightarrow> rat \<Rightarrow> (nat \<times> int) option" where
  "shortest_at n x =
     (let j = dec_exponent x - int n + 1;
          y = x / 10 powi j;
          m = \<lfloor>y\<rfloor>;
          lo = (fl_pos (of_int m * 10 powi j) = x);
          hi = (fl_pos (of_int (m + 1) * 10 powi j) = x)
      in if lo \<and> hi then Some (nat (round_even y), j)
         else if lo then Some (nat m, j)
         else if hi then Some (nat (m + 1), j)
         else None)"

fun strip_zeros :: "nat \<Rightarrow> int \<Rightarrow> nat \<times> int" where
  "strip_zeros c j = (if 0 < c \<and> c mod 10 = 0 then strip_zeros (c div 10) (j + 1) else (c, j))"

declare strip_zeros.simps [simp del]

definition shortest :: "rat \<Rightarrow> nat \<times> int" where
  "shortest x =
     (case List.map_filter (\<lambda>n. shortest_at n x) [1..<18] of
        (c, j) # _ \<Rightarrow> strip_zeros c j | [] \<Rightarrow> (0, 0))"

text \<open>\<open>json.Marshal\<close> on a \<open>float64\<close>: the shortest digits that are read back as the same number, with
  an exponent only below \<open>1e-6\<close> and from \<open>1e21\<close> on.\<close>

definition fmt_pos :: "rat \<Rightarrow> string" where
  "fmt_pos x =
     (case shortest x of (c, j) \<Rightarrow>
        let ds = nat_digits c; n = int (length ds) in
        if x < fl (1 / 10 ^ 6) \<or> 10 ^ 21 \<le> x then literal [hd ds] (tl ds) (Some (j + n - 1))
        else if 0 \<le> j then literal (ds @ replicate (nat j) (CHR ''0'')) [] None
        else if 0 < n + j then literal (take (nat (n + j)) ds) (drop (nat (n + j)) ds) None
        else literal ''0'' (replicate (nat (- (n + j))) (CHR ''0'') @ ds) None)"

definition fmt_float64 :: "rat \<Rightarrow> string" where
  "fmt_float64 x = (if x = 0 then ''0'' else if x < 0 then CHR ''-'' # fmt_pos (- x) else fmt_pos x)"


section \<open>Seventeen digits are enough\<close>

lemma nat_digits_length: "n < 10 ^ length (nat_digits n)" "0 < n \<Longrightarrow> 10 ^ (length (nat_digits n) - 1) \<le> n"
proof (induction n rule: nat_digits.induct)
  case (1 n)
  { case 1 then show ?case
    proof (cases "n < 10")
      case False
      then have "n div 10 < 10 ^ length (nat_digits (n div 10))" using "1.IH"(1) by simp
      then have "n < 10 * 10 ^ length (nat_digits (n div 10))" by linarith
      then show ?thesis using False by (subst nat_digits.simps) simp
    qed (subst nat_digits.simps, simp) }
  { case 2 then show ?case
    proof (cases "n < 10")
      case False
      then have "10 ^ (length (nat_digits (n div 10)) - 1) \<le> n div 10" using "1.IH"(2) by simp
      then have "10 * 10 ^ (length (nat_digits (n div 10)) - 1) \<le> n" by linarith
      moreover have "10 * 10 ^ (length (nat_digits (n div 10)) - 1) = (10 :: nat) ^ length (nat_digits (n div 10))"
        by (cases "nat_digits (n div 10)") simp_all
      ultimately show ?thesis using False by (subst nat_digits.simps) simp
    qed (subst nat_digits.simps, simp) }
qed

lemma digits_bounds_rat:
  fixes p :: int
  assumes "0 < p"
  defines "l \<equiv> int (length (nat_digits (nat p)))"
  shows "10 powi (l - 1) \<le> (of_int p :: rat)" "(of_int p :: rat) < 10 powi l"
proof -
  have pos: "0 < l" unfolding l_def by simp
  have p: "int (nat p) = p" using assms by simp
  have "10 ^ (length (nat_digits (nat p)) - 1) \<le> nat p" using assms nat_digits_length(2) [of "nat p"] by simp
  then have "(10 :: int) ^ (length (nat_digits (nat p)) - 1) \<le> p" using p
    by (metis of_nat_le_iff of_nat_numeral of_nat_power)
  then have "(10 :: rat) ^ (length (nat_digits (nat p)) - 1) \<le> of_int p"
    by (metis of_int_le_iff of_int_numeral of_int_power)
  moreover have "nat (l - 1) = length (nat_digits (nat p)) - 1" by (simp add: l_def)
  ultimately show "10 powi (l - 1) \<le> (of_int p :: rat)" using pos by (simp add: power_int_def)
  have "p < 10 ^ length (nat_digits (nat p))" using p nat_digits_length(1) [of "nat p"]
    by (metis of_nat_less_iff of_nat_numeral of_nat_power)
  then have "of_int p < (10 :: rat) ^ length (nat_digits (nat p))"
    by (metis of_int_less_iff of_int_numeral of_int_power)
  then show "(of_int p :: rat) < 10 powi l" by (simp add: power_int_def l_def)
qed

lemma dec_exponent_bounds:
  assumes "0 < x"
  shows "10 powi dec_exponent x \<le> x" "x < 10 powi (dec_exponent x + 1)"
proof -
  obtain p q where pq: "quotient_of x = (p, q)" by force
  have q: "0 < q" using quotient_of_denom_pos [OF pq] .
  have x: "x = of_int p / of_int q" by (rule quotient_of_div [OF pq])
  with assms q have p: "0 < p" by (simp add: zero_less_divide_iff)
  let ?lp = "int (length (nat_digits (nat p)))" and ?lq = "int (length (nat_digits (nat q)))"
  let ?e = "?lp - ?lq"
  note bp = digits_bounds_rat [OF p] and bq = digits_bounds_rat [OF q]
  have qpos: "(0::rat) < of_int q" using q by simp
  have "x < 10 powi ?lp / 10 powi (?lq - 1)"
    unfolding x by (rule frac_less) (use p bp bq in auto)
  also have "\<dots> = 10 powi (?e + 1)" by (simp add: power_int_diff power_int_add field_simps)
  finally have up: "x < 10 powi (?e + 1)" .
  have "10 powi (?lp - 1) / 10 powi ?lq \<le> x"
    unfolding x by (rule frac_le) (use bp bq qpos p in auto)
  then have low: "10 powi (?e - 1) \<le> x" by (simp add: power_int_diff power_int_add field_simps)
  show "10 powi dec_exponent x \<le> x" "x < 10 powi (dec_exponent x + 1)"
    using up low pq by (auto simp: dec_exponent_def Let_def)
qed

lemma round_even_near: "\<bar>y - of_int m\<bar> < 1 / 2 \<Longrightarrow> round_even y = m"
proof -
  assume a: "\<bar>y - of_int m\<bar> < 1 / 2"
  show ?thesis
  proof (cases "of_int m \<le> y")
    case True
    then have "\<lfloor>y\<rfloor> = m" using a by (intro floor_unique) auto
    then show ?thesis using a True by (simp add: round_even_def Let_def)
  next
    case False
    then have "\<lfloor>y\<rfloor> = m - 1" using a by (intro floor_unique) auto
    then show ?thesis using a False by (simp add: round_even_def Let_def)
  qed
qed

lemma float_mantissa:
  assumes "0 < x" "fl_pos x = x"
  obtains m :: int where "x = of_int m * ulp x" "2 ^ 52 \<le> m" "m < 2 ^ 53"
proof -
  note b = exponent_bounds [OF assms(1)]
  have up: "2 powi (exponent x + 1) = of_int (2 ^ 53) * ulp x" by (simp add: ulp_def power_int_diff power_int_add)
  define m where "m = round_even (x / ulp x)"
  have x: "x = of_int m * ulp x" using assms(2) by (simp add: fl_pos_def m_def)
  have "of_int (2 ^ 52) * ulp x \<le> of_int m * ulp x" using b(1) x by (simp only: powi_ulp)
  then have "2 ^ 52 \<le> m" using ulp_pos [of x] by (metis mult_le_cancel_right_pos of_int_le_iff)
  moreover have "of_int m * ulp x < of_int (2 ^ 53) * ulp x" using b(2) x by (simp only: up)
  then have "m < 2 ^ 53" using ulp_pos [of x] by (metis mult_less_cancel_right_pos of_int_less_iff)
  ultimately show thesis using that x by blast
qed

lemma fl_pos_near:
  assumes "0 < d" "\<bar>d / ulp d - of_int m\<bar> < 1 / 2"
  shows "fl_pos d = of_int m * ulp d"
  using round_even_near [OF assms(2)] by (simp add: fl_pos_def)

text \<open>A number so close to a \<open>float64\<close> that seventeen digits cannot tell them apart rounds to it.\<close>

lemma fl_pos_close:
  assumes x: "0 < x" "fl_pos x = x" and d: "\<bar>d - x\<bar> * (2 * 10 ^ 16) \<le> x"
  shows "fl_pos d = x"
proof -
  obtain m where m: "x = of_int m * ulp x" "2 ^ 52 \<le> m" "m < 2 ^ 53" using float_mantissa [OF x] .
  let ?u = "ulp x"
  note u = ulp_pos [of x]
  have e: "2 powi exponent x = of_int (2 ^ 52) * ?u" "2 powi (exponent x + 1) = of_int (2 ^ 53) * ?u"
    by (simp_all add: ulp_def power_int_diff power_int_add)
  have "of_int m * ?u \<le> of_int (2 ^ 53 - 1) * ?u" using m(3) u by (intro mult_right_mono) simp_all
  then have xup: "x \<le> of_int (2 ^ 53 - 1) * ?u" using m(1) by simp
  have xlo: "of_int (2 ^ 52) * ?u \<le> x" using m(1,2) u by (metis mult_le_cancel_right_pos of_int_le_iff)
  have dist: "\<bar>d - x\<bar> < ?u / 2" using d xup u by (simp add: field_simps)
  have dpos: "0 < d" using dist xlo u by (simp add: field_simps abs_if split: if_splits)
  show ?thesis
  proof (cases "of_int (2 ^ 52) * ?u \<le> d")
    case True
    have "d < of_int (2 ^ 53) * ?u" using dist xup u by (simp add: field_simps abs_if split: if_splits)
    then have "exponent d = exponent x" using True by (intro exponent_unique) (simp_all only: e)
    then have ud: "ulp d = ?u" by (simp add: ulp_def)
    have "d / ?u - of_int m = (d - x) / ?u" using m(1) u by (simp add: field_simps)
    then have "\<bar>d / ?u - of_int m\<bar> < 1 / 2" using dist u by (simp add: field_simps abs_divide)
    with fl_pos_near [OF dpos, of m] m(1) ud show ?thesis by simp
  next
    case False
    have "m = 2 ^ 52"
    proof (rule ccontr)
      assume "m \<noteq> 2 ^ 52"
      then have "of_int (2 ^ 52 + 1) * ?u \<le> x" using m u by (metis mult_le_cancel_right_pos of_int_le_iff add1_zle_eq order_less_le)
      then show False using False dist u by (simp add: field_simps abs_if split: if_splits)
    qed
    then have x2: "x = of_int (2 ^ 52) * ?u" using m(1) by simp
    have close: "\<bar>d - x\<bar> < ?u / 4" using d x2 u by (simp add: field_simps)
    have "exponent d = exponent x - 1"
    proof (rule exponent_unique)
      have "2 powi (exponent x - 1) = of_int (2 ^ 51) * ?u" by (simp add: ulp_def power_int_diff)
      then show "2 powi (exponent x - 1) \<le> d" using close x2 u by (simp add: field_simps abs_if split: if_splits)
      show "d < 2 powi (exponent x - 1 + 1)" using False e(1) by simp
    qed
    then have ud: "ulp d = ?u / 2" by (simp add: ulp_def power_int_diff)
    have "d / (?u / 2) - of_int (2 ^ 53) = (d - x) * (2 / ?u)" using x2 u by (simp add: field_simps)
    moreover have "\<bar>(d - x) * (2 / ?u)\<bar> = \<bar>d - x\<bar> * (2 / ?u)" using u by (simp only: abs_mult) simp
    then have "\<bar>(d - x) * (2 / ?u)\<bar> < 1 / 2" using close u by (simp add: field_simps)
    ultimately have "\<bar>d / (?u / 2) - of_int (2 ^ 53)\<bar> < 1 / 2" by (simp only:)
    with fl_pos_near [OF dpos, of "2 ^ 53"] ud x2 show ?thesis by simp
  qed
qed

lemma shortest_at_17:
  assumes "0 < x" "fl_pos x = x"
  shows "shortest_at 17 x \<noteq> None"
proof -
  define j where "j = dec_exponent x - int 17 + 1"
  define u :: rat where "u = 10 powi j"
  define m where "m = \<lfloor>x / u\<rfloor>"
  have u: "0 < u" by (simp add: u_def)
  have "u * 10 ^ 16 = 10 powi dec_exponent x" by (simp add: u_def j_def power_int_diff power_int_add)
  then have ux: "u * 10 ^ 16 \<le> x" using dec_exponent_bounds(1) [OF assms(1)] by simp
  have m: "of_int m \<le> x / u" "x / u < of_int m + 1" unfolding m_def by linarith+
  then have m': "of_int m * u \<le> x" "x < (of_int m + 1) * u" using u by (simp_all add: field_simps)
  have "fl_pos (of_int m * u) = x \<or> fl_pos (of_int (m + 1) * u) = x"
  proof (cases "x - of_int m * u \<le> u / 2")
    case True
    then have "\<bar>of_int m * u - x\<bar> * (2 * 10 ^ 16) \<le> u / 2 * (2 * 10 ^ 16)" using m' by (intro mult_right_mono) auto
    then show ?thesis using fl_pos_close [OF assms, of "of_int m * u"] ux by simp
  next
    case False
    then have "\<bar>of_int (m + 1) * u - x\<bar> * (2 * 10 ^ 16) \<le> u / 2 * (2 * 10 ^ 16)" using m' by (intro mult_right_mono) (auto simp: field_simps)
    then show ?thesis using fl_pos_close [OF assms, of "of_int (m + 1) * u"] ux by simp
  qed
  then show ?thesis unfolding shortest_at_def Let_def j_def [symmetric] u_def [symmetric] m_def [symmetric] by auto
qed

lemma shortest_at_reads:
  assumes "0 < x" "shortest_at n x = Some (c, j)"
  shows "fl_pos (of_nat c * 10 powi j) = x"
proof -
  define u :: rat where "u = 10 powi (dec_exponent x - int n + 1)"
  have y: "0 \<le> x / u" using assms(1) by (simp add: u_def)
  then have m: "0 \<le> \<lfloor>x / u\<rfloor>" by simp
  have r: "round_even (x / u) = \<lfloor>x / u\<rfloor> \<or> round_even (x / u) = \<lfloor>x / u\<rfloor> + 1"
    using round_even_bounds [of "x / u"] by linarith
  have j: "10 powi j = u" using assms(2) by (auto simp: shortest_at_def Let_def u_def split: if_splits)
  show ?thesis
    using assms(2) m r unfolding j shortest_at_def Let_def u_def [symmetric] by (auto split: if_splits)
qed

lemma strip_zeros_value: "strip_zeros c j = (d, k) \<Longrightarrow> of_nat d * 10 powi k = (of_nat c * 10 powi j :: rat)"
proof (induction c j rule: strip_zeros.induct)
  case (1 c j)
  show ?case
  proof (cases "0 < c \<and> c mod 10 = 0")
    case True
    then have "of_nat d * 10 powi k = (of_nat (c div 10) * 10 powi (j + 1) :: rat)"
      using 1 by (simp add: strip_zeros.simps [of c])
    moreover obtain e where "c = 10 * e" using True by auto
    ultimately show ?thesis by (simp add: power_int_add)
  next
    case False
    then show ?thesis using "1.prems" by (auto simp: strip_zeros.simps [of c])
  qed
qed

lemma shortest_reads:
  assumes "0 < x" "fl_pos x = x" "shortest x = (c, j)"
  shows "fl_pos (of_nat c * 10 powi j) = x"
proof -
  have "shortest_at 17 x \<noteq> None" by (rule shortest_at_17 [OF assms(1,2)])
  then have "List.map_filter (\<lambda>n. shortest_at n x) [1..<18] \<noteq> []"
    by (auto simp: List.map_filter_def filter_empty_conv intro!: bexI [of _ 17])
  then obtain c' j' r where r: "List.map_filter (\<lambda>n. shortest_at n x) [1..<18] = (c', j') # r"
    by (cases "List.map_filter (\<lambda>n. shortest_at n x) [1..<18]") auto
  then have "(c', j') \<in> set (List.map_filter (\<lambda>n. shortest_at n x) [1..<18])" by simp
  then obtain n where "shortest_at n x = Some (c', j')" by (auto simp: List.map_filter_def)
  from shortest_at_reads [OF assms(1) this] strip_zeros_value [of c' j' c j] r assms(3)
  show ?thesis by (simp add: shortest_def)
qed


section \<open>Formatting and reading\<close>

lemma nat_digits_lead: "0 < n \<Longrightarrow> hd (nat_digits n) \<noteq> CHR ''0''"
proof (induction n rule: nat_digits.induct)
  case (1 n)
  show ?case
  proof (cases "n < 10")
    case True
    have "byte_of (48 + n) \<noteq> byte_of 48" using True 1 by (simp add: byte_of_inj)
    moreover have "byte_of 48 = CHR ''0''" by code_simp
    ultimately show ?thesis using True by (subst nat_digits.simps) simp
  next
    case False
    then show ?thesis using 1 by (subst nat_digits.simps) simp
  qed
qed

lemma digits_val_zeros: "digits_val (replicate k (CHR ''0'') @ ds) = digits_val ds"
  by (induction k) (simp_all add: digits_val_def digit_val_def)

lemma digits_val_more: "digits_val (ds @ replicate k (CHR ''0'')) = digits_val ds * 10 ^ k"
proof (induction k)
  case (Suc k)
  have "ds @ replicate (Suc k) (CHR ''0'') = (ds @ replicate k (CHR ''0'')) @ ''0''" by (simp add: replicate_append_same)
  then show ?case using Suc by (simp only: digits_val_append) (simp add: digit_val_def)
qed simp

lemma ten_two: "0 \<le> e \<Longrightarrow> 2 powi e \<le> (10 :: rat) powi e" "e \<le> 0 \<Longrightarrow> 10 powi e \<le> (2 :: rat) powi e"
  by (auto simp: power_int_def power_mono intro!: le_imp_inverse_le)

text \<open>The exponent of the decimal is small for every number in the range of \<open>float64\<close>.\<close>

lemma decimal_exponent_in64:
  assumes c: "0 < c" and v: "fl_pos (of_nat c * 10 powi j) = x" and x: "2 powi (- 1074) \<le> x" "x < 2 powi 1024"
  shows "in64 (j + int (length (nat_digits c)) - 1)"
proof -
  define E where "E = j + int (length (nat_digits c)) - 1"
  define v where "v = (of_nat c * 10 powi j :: rat)"
  have pos: "0 < v" using c by (simp add: v_def)
  have b: "10 powi (int (length (nat_digits c)) - 1) \<le> (of_nat c :: rat)" "(of_nat c :: rat) < 10 powi int (length (nat_digits c))"
    using digits_bounds_rat [of "int c"] c by simp_all
  have split: "10 powi (int (length (nat_digits c)) - 1) * 10 powi j = (10 :: rat) powi E"
    "10 powi int (length (nat_digits c)) * 10 powi j = (10 :: rat) powi (E + 1)"
    by (simp_all add: E_def power_int_add power_int_diff)
  have vE: "10 powi E \<le> v" "v < 10 powi (E + 1)"
    unfolding v_def split [symmetric] using b by (simp_all add: mult_right_mono mult_strict_right_mono)
  note ev = exponent_bounds [OF pos] fl_pos_binade [OF pos]
  have two: "2 powi (exponent v + 1) = 2 * (2 :: rat) powi exponent v" by (simp add: power_int_add)
  have xv: "v < 2 * x" "x \<le> 2 * v" using ev \<open>fl_pos _ = x\<close> unfolding two v_def [symmetric] by linarith+
  have "E < 1025"
  proof (rule ccontr)
    assume "\<not> ?thesis"
    then have "(2 :: rat) powi 1025 \<le> 2 powi E" by (intro power_int_increasing) simp_all
    also have "\<dots> \<le> v" using \<open>\<not> E < 1025\<close> by (intro order_trans [OF ten_two(1) vE(1)]) simp
    also have "v < 2 * 2 powi 1024" using xv(1) x(2) by linarith
    finally show False by (simp add: power_int_def)
  qed
  moreover have "- 1075 \<le> E + 1"
  proof (rule ccontr)
    assume "\<not> ?thesis"
    then have "(10 :: rat) powi (E + 1) \<le> 2 powi (E + 1)" by (intro ten_two(2)) simp
    also have "\<dots> \<le> 2 powi (- 1075)" using \<open>\<not> - 1075 \<le> E + 1\<close> by (intro power_int_increasing) simp_all
    finally have "2 * v < 2 * 2 powi (- 1075)" using vE(2) by linarith
    also have "\<dots> = (2 :: rat) powi (- 1074)" using power_int_add [of "2 :: rat" 1 "- 1075"] by simp
    finally show False using xv(2) x(1) by linarith
  qed
  ultimately show ?thesis by (simp add: in64_def E_def max_int64_def min_int64_def)
qed

text \<open>The four layouts of a decimal: with an exponent, as an integer, with a point among the digits,
  and with zeros after the point.\<close>

lemma fmt_pos_layout:
  assumes cj: "shortest x = (c, j)" and c: "0 < c" and E: "in64 (j + int (length (nat_digits c)) - 1)"
  obtains ip fp ex where "fmt_pos x = literal ip fp ex" "good_int ip" "list_all is_digit fp" "\<And>e. ex = Some e \<Longrightarrow> in64 e"
    "of_nat (digits_val (ip @ fp)) * 10 powi ((case ex of None \<Rightarrow> 0 | Some e \<Rightarrow> e) - int (length fp)) = (of_nat c * 10 powi j :: rat)"
proof -
  let ?ds = "nat_digits c"
  let ?n = "int (length ?ds)"
  have ds: "list_all is_digit ?ds" "?ds \<noteq> []" "hd ?ds \<noteq> CHR ''0''"
    using nat_digits_digits nat_digits_lead [OF c] by simp_all
  obtain d0 ds' where d0: "?ds = d0 # ds'" using ds(2) by (cases ?ds) auto
  have lit: "\<exists>ip fp ex. fmt_pos x = literal ip fp ex \<and> good_int ip \<and> list_all is_digit fp \<and> (\<forall>e. ex = Some e \<longrightarrow> in64 e) \<and>
     of_nat (digits_val (ip @ fp)) * 10 powi ((case ex of None \<Rightarrow> 0 | Some e \<Rightarrow> e) - int (length fp)) = (of_nat c * 10 powi j :: rat)"
  proof -
    consider (e) "x < fl (1 / 10 ^ 6) \<or> 10 ^ 21 \<le> x" | (int) "\<not> (x < fl (1 / 10 ^ 6) \<or> 10 ^ 21 \<le> x)" "0 \<le> j"
      | (mid) "\<not> (x < fl (1 / 10 ^ 6) \<or> 10 ^ 21 \<le> x)" "j < 0" "0 < ?n + j"
      | (low) "\<not> (x < fl (1 / 10 ^ 6) \<or> 10 ^ 21 \<le> x)" "j < 0" "?n + j \<le> 0" by linarith
    then show ?thesis
    proof cases
      case e
      have "fmt_pos x = literal [hd ?ds] (tl ?ds) (Some (j + ?n - 1))" using e cj by (simp add: fmt_pos_def Let_def)
      moreover have "good_int [hd ?ds]" "list_all is_digit (tl ?ds)" using ds d0 by (auto simp: good_int_def)
      moreover have "[hd ?ds] @ tl ?ds = ?ds" "j + ?n - 1 - int (length (tl ?ds)) = j" using d0 by simp_all
      ultimately show ?thesis using E by (intro exI conjI) auto
    next
      case int
      have "fmt_pos x = literal (?ds @ replicate (nat j) (CHR ''0'')) [] None" using int cj by (simp add: fmt_pos_def Let_def)
      moreover have "good_int (?ds @ replicate (nat j) (CHR ''0''))" using ds is_digit_zero by (auto simp: good_int_def list_all_iff)
      moreover have "10 powi j = (10 :: rat) ^ nat j" using int(2) by (simp add: power_int_def)
      ultimately show ?thesis by (intro exI conjI) (auto simp: digits_val_more)
    next
      case mid
      have "fmt_pos x = literal (take (nat (?n + j)) ?ds) (drop (nat (?n + j)) ?ds) None" using mid cj by (simp add: fmt_pos_def Let_def)
      moreover have "good_int (take (nat (?n + j)) ?ds)" using ds mid(3) by (auto simp: good_int_def list_all_iff dest: in_set_takeD)
      moreover have "list_all is_digit (drop (nat (?n + j)) ?ds)" using ds(1) by (auto simp: list_all_iff dest: in_set_dropD)
      moreover have "0 - int (length (drop (nat (?n + j)) ?ds)) = j" using mid(2,3) by simp
      ultimately show ?thesis by (intro exI conjI) auto
    next
      case low
      have "fmt_pos x = literal ''0'' (replicate (nat (- (?n + j))) (CHR ''0'') @ ?ds) None" using low cj by (simp add: fmt_pos_def Let_def)
      moreover have "good_int ''0''" using is_digit_zero by (simp add: good_int_def)
      moreover have "list_all is_digit (replicate (nat (- (?n + j))) (CHR ''0'') @ ?ds)" using ds(1) is_digit_zero by (auto simp: list_all_iff)
      moreover have "digits_val (''0'' @ replicate (nat (- (?n + j))) (CHR ''0'') @ ?ds) = c"
        using digits_val_zeros [of "Suc (nat (- (?n + j)))" ?ds] by simp
      moreover have "0 - int (length (replicate (nat (- (?n + j))) (CHR ''0'') @ ?ds)) = j" using low(2,3) by simp
      ultimately show ?thesis by (intro exI conjI) auto
    qed
  qed
  then show thesis using that by blast
qed

lemma fmt_pos_literal:
  assumes "0 < x" "fl_pos x = x" "2 powi (- 1074) \<le> x" "x < 2 powi 1024"
  obtains ip fp ex where "fmt_pos x = literal ip fp ex" "good_int ip" "list_all is_digit fp" "\<And>e. ex = Some e \<Longrightarrow> in64 e"
    "fl_pos (num_rat (fmt_pos x)) = x" "0 < num_rat (fmt_pos x)"
proof -
  obtain c j where cj: "shortest x = (c, j)" by (rule prod.exhaust)
  note v = shortest_reads [OF assms(1,2) cj]
  have "fl_pos 0 = 0" using round_even_of_int [of 0] by (simp add: fl_pos_def)
  then have c: "0 < c" using v assms(1) by (cases c) auto
  note E = decimal_exponent_in64 [OF c v assms(3,4)]
  obtain ip fp ex where l: "fmt_pos x = literal ip fp ex" "good_int ip" "list_all is_digit fp" "\<And>e. ex = Some e \<Longrightarrow> in64 e"
    "of_nat (digits_val (ip @ fp)) * 10 powi ((case ex of None \<Rightarrow> 0 | Some e \<Rightarrow> e) - int (length fp)) = (of_nat c * 10 powi j :: rat)"
    by (rule fmt_pos_layout [OF cj c E]) blast
  have "num_rat (fmt_pos x) = of_nat c * 10 powi j" using literal_value [OF l(2-4)] l(1,5) by simp
  then show thesis using that [OF l(1-4)] v c by simp
qed

lemma literal_no_minus: "good_int ip \<Longrightarrow> \<not> has_prefix (literal ip fp ex) ''-''"
  using digit_simps by (cases ip) (auto simp: good_int_def literal_def has_prefix_def)

lemma scan_number_minus:
  assumes "\<not> has_prefix s ''-''"
  shows "scan_number (CHR ''-'' # s) = (case scan_number s of Scanned v r \<Rightarrow> Scanned (CHR ''-'' # v) r | x \<Rightarrow> x)"
proof -
  have "has_prefix (CHR ''-'' # s) ''-''" by (simp add: has_prefix_def)
  then show ?thesis unfolding scan_number_def Let_def using assms by (simp split: scan.split)
qed

lemma num_rat_minus: "\<not> has_prefix s ''-'' \<Longrightarrow> num_rat (CHR ''-'' # s) = - num_rat s"
proof -
  assume "\<not> has_prefix s ''-''"
  moreover have "has_prefix (CHR ''-'' # s) ''-''" by (simp add: has_prefix_def)
  ultimately show ?thesis unfolding num_rat_def Let_def by simp
qed

text \<open>Every finite \<open>float64\<close> is written as a JSON number and read back exactly.\<close>

lemma fmt_float64_reads:
  assumes "fl x = x" "x \<noteq> 0 \<Longrightarrow> 2 powi (- 1074) \<le> \<bar>x\<bar>" "\<bar>x\<bar> < 2 powi 1024"
  shows "number (fmt_float64 x)" "dec_float64 (JNum (fmt_float64 x)) y = Some x"
proof -
  have r: "number (fmt_float64 x) \<and> fl (num_rat (fmt_float64 x)) = x"
  proof (cases "x = 0")
    case True
    have "number ''0''" "num_rat ''0'' = 0" by code_simp+
    then show ?thesis using True by (simp add: fmt_float64_def)
  next
    case False
    have "fl_pos \<bar>x\<bar> = \<bar>x\<bar>" using False assms(1) by (auto simp: fl_def abs_if split: if_splits)
    then obtain ip fp ex where l: "fmt_pos \<bar>x\<bar> = literal ip fp ex" "good_int ip" "list_all is_digit fp"
      and v: "fl_pos (num_rat (fmt_pos \<bar>x\<bar>)) = \<bar>x\<bar>" "0 < num_rat (fmt_pos \<bar>x\<bar>)"
      using fmt_pos_literal [of "\<bar>x\<bar>"] False assms(2,3) by (metis zero_less_abs_iff)
    note n = number_literal [OF l(2,3), of ex] and m = literal_no_minus [OF l(2), of fp ex]
    show ?thesis
    proof (cases "x < 0")
      case True
      then show ?thesis using n v scan_number_minus [OF m] num_rat_minus [OF m] l(1)
        by (simp add: fmt_float64_def number_def fl_def)
    next
      case False
      then show ?thesis using n v l(1) \<open>x \<noteq> 0\<close> by (simp add: fmt_float64_def fl_def)
    qed
  qed
  then show "number (fmt_float64 x)" by blast
  have "(2 :: rat) powi 1024 = 2 ^ 1024" by (simp add: power_int_def)
  then show "dec_float64 (JNum (fmt_float64 x)) y = Some x" using r assms(3) by (simp add: dec_float64_def Let_def)
qed

text \<open>And every integer.\<close>

lemma number_itoa: "number (itoa n)"
proof -
  have pos: "number (nat_digits k) \<and> \<not> has_prefix (nat_digits k) ''-''" for k
  proof -
    have "good_int (nat_digits k)"
    proof (cases "k = 0")
      case True
      moreover have "good_int (nat_digits 0)" by code_simp
      ultimately show ?thesis by simp
    next
      case False
      then show ?thesis using nat_digits_lead [of k] nat_digits_digits [of k] by (auto simp: good_int_def)
    qed
    moreover have "literal (nat_digits k) [] None = nat_digits k" by (simp add: literal_def exp_part_def)
    ultimately show ?thesis using number_literal [of "nat_digits k" "[]" None] literal_no_minus [of "nat_digits k" "[]" None] by simp
  qed
  then show ?thesis by (auto simp: itoa_def number_def scan_number_minus)
qed

end
