(* ===== verification/Events.thy ===== *)
theory Events
  imports Adapters Decimal
begin

text \<open>
  The event publisher (internal/events/events.go): the four lifecycle events, the topic and
  the key each is sent under, the configuration of the Kafka producer, and the publisher
  itself. The Kafka client library, the certificate files and the clock are parameters. An
  event's fields are strings, integers, optional integers and one finite float, so
  \<open>json.Marshal\<close> cannot fail.
\<close>

record Started =
  sr_ClientID :: string
  sr_Adapter :: string
  sr_ClientType :: string
  sr_WantedItemID :: string
  sr_Title :: string
  sr_SizeBytes :: "int option"
  sr_StartedAt :: int

record Progress =
  pr_ClientID :: string
  pr_Adapter :: string
  pr_ClientType :: string
  pr_WantedItemID :: string
  pr_Title :: string
  pr_State :: string
  pr_NativeState :: string
  pr_ProgressPct :: rat
  pr_DownloadedBytes :: int
  pr_SizeBytes :: "int option"
  pr_SpeedBps :: int
  pr_EtaSec :: "int option"
  pr_Seeders :: "int option"
  pr_Leechers :: "int option"
  pr_Health :: "int option"
  pr_EmittedAt :: int

record Completed =
  co_ClientID :: string
  co_Adapter :: string
  co_ClientType :: string
  co_WantedItemID :: string
  co_Files :: "string list option"
  co_SizeBytes :: int
  co_CompletedAt :: int

record Failed =
  fa_ClientID :: string
  fa_Adapter :: string
  fa_ClientType :: string
  fa_WantedItemID :: string
  fa_Title :: string
  fa_Error :: string
  fa_ErrorCode :: string
  fa_Retriable :: bool
  fa_FailedAt :: int

datatype event = EvStarted Started | EvProgress Progress | EvCompleted Completed | EvFailed Failed

text \<open>The four kinds.\<close>

fun kind_of :: "event \<Rightarrow> string" where
  "kind_of (EvStarted e) = ''started''"
| "kind_of (EvProgress e) = ''progress''"
| "kind_of (EvCompleted e) = ''completed''"
| "kind_of (EvFailed e) = ''failed''"

text \<open>The client and the job an event is about.\<close>

fun event_adapter :: "event \<Rightarrow> string" where
  "event_adapter (EvStarted e) = sr_Adapter e"
| "event_adapter (EvProgress e) = pr_Adapter e"
| "event_adapter (EvCompleted e) = co_Adapter e"
| "event_adapter (EvFailed e) = fa_Adapter e"

fun event_client_id :: "event \<Rightarrow> string" where
  "event_client_id (EvStarted e) = sr_ClientID e"
| "event_client_id (EvProgress e) = pr_ClientID e"
| "event_client_id (EvCompleted e) = co_ClientID e"
| "event_client_id (EvFailed e) = fa_ClientID e"


section \<open>The JSON of an event\<close>

text \<open>A pointer is \<open>null\<close> when nil; with \<open>omitempty\<close> the member is left out then, as is an
  empty string. A nil slice is \<open>null\<close>.\<close>

definition json_ptr :: "int option \<Rightarrow> json" where
  "json_ptr v = (case v of None \<Rightarrow> JNull | Some n \<Rightarrow> JInt n)"

definition omit_nil :: "string \<Rightarrow> int option \<Rightarrow> (string \<times> json) list" where
  "omit_nil name v = (case v of None \<Rightarrow> [] | Some n \<Rightarrow> [(name, JInt n)])"

definition omit_empty :: "string \<Rightarrow> string \<Rightarrow> (string \<times> json) list" where
  "omit_empty name s = (if s = '''' then [] else [(name, JStr s)])"

definition json_slice :: "string list option \<Rightarrow> json" where
  "json_slice v = (case v of None \<Rightarrow> JNull | Some ss \<Rightarrow> JArr (map JStr ss))"

definition json_float :: "rat \<Rightarrow> json" where
  "json_float x = JNum (fmt_float64 x)"

definition Started_json :: "Started \<Rightarrow> json" where
  "Started_json e = JObj
     ([(''client_id'', JStr (sr_ClientID e)), (''adapter'', JStr (sr_Adapter e)), (''client_type'', JStr (sr_ClientType e))]
      @ omit_empty ''wanted_item_id'' (sr_WantedItemID e)
      @ [(''title'', JStr (sr_Title e)), (''size_bytes'', json_ptr (sr_SizeBytes e)), (''started_at'', JInt (sr_StartedAt e))])"

definition Progress_json :: "Progress \<Rightarrow> json" where
  "Progress_json e = JObj
     ([(''client_id'', JStr (pr_ClientID e)), (''adapter'', JStr (pr_Adapter e)), (''client_type'', JStr (pr_ClientType e))]
      @ omit_empty ''wanted_item_id'' (pr_WantedItemID e)
      @ omit_empty ''title'' (pr_Title e)
      @ [(''state'', JStr (pr_State e))]
      @ omit_empty ''native_state'' (pr_NativeState e)
      @ [(''progress_pct'', json_float (pr_ProgressPct e)), (''downloaded_bytes'', JInt (pr_DownloadedBytes e)),
         (''size_bytes'', json_ptr (pr_SizeBytes e)), (''speed_bps'', JInt (pr_SpeedBps e)), (''eta_sec'', json_ptr (pr_EtaSec e))]
      @ omit_nil ''seeders'' (pr_Seeders e)
      @ omit_nil ''leechers'' (pr_Leechers e)
      @ omit_nil ''health'' (pr_Health e)
      @ [(''emitted_at'', JInt (pr_EmittedAt e))])"

definition Completed_json :: "Completed \<Rightarrow> json" where
  "Completed_json e = JObj
     ([(''client_id'', JStr (co_ClientID e)), (''adapter'', JStr (co_Adapter e)), (''client_type'', JStr (co_ClientType e))]
      @ omit_empty ''wanted_item_id'' (co_WantedItemID e)
      @ [(''files'', json_slice (co_Files e)), (''size_bytes'', JInt (co_SizeBytes e)), (''completed_at'', JInt (co_CompletedAt e))])"

definition Failed_json :: "Failed \<Rightarrow> json" where
  "Failed_json e = JObj
     ([(''client_id'', JStr (fa_ClientID e)), (''adapter'', JStr (fa_Adapter e)), (''client_type'', JStr (fa_ClientType e))]
      @ omit_empty ''wanted_item_id'' (fa_WantedItemID e)
      @ omit_empty ''title'' (fa_Title e)
      @ [(''error'', JStr (fa_Error e))]
      @ omit_empty ''error_code'' (fa_ErrorCode e)
      @ [(''retriable'', JBool (fa_Retriable e)), (''failed_at'', JInt (fa_FailedAt e))])"

fun event_json :: "event \<Rightarrow> json" where
  "event_json (EvStarted e) = Started_json e"
| "event_json (EvProgress e) = Progress_json e"
| "event_json (EvCompleted e) = Completed_json e"
| "event_json (EvFailed e) = Failed_json e"


section \<open>Configuration\<close>

definition defaultTopicPrefix :: string where
  "defaultTopicPrefix = ''stube.''"

record Config =
  cf_Brokers :: string
  cf_CertFile :: string
  cf_KeyFile :: string
  cf_CAFile :: string
  cf_TopicPrefix :: string

text \<open>\<open>os.Getenv\<close>: an unset variable reads as the empty string.\<close>

definition Getenv :: "(string \<Rightarrow> string option) \<Rightarrow> string \<Rightarrow> string" where
  "Getenv env k = (case env k of None \<Rightarrow> '''' | Some v \<Rightarrow> v)"

definition ConfigFromEnv :: "(string \<Rightarrow> string option) \<Rightarrow> Config" where
  "ConfigFromEnv env =
     (let prefix = trim_space (Getenv env ''KAFKA_TOPIC_PREFIX'');
          prefix = (if prefix = '''' then defaultTopicPrefix else prefix)
      in \<lparr>cf_Brokers = Getenv env ''KAFKA_BROKERS'', cf_CertFile = Getenv env ''KAFKA_TLS_CERT'',
          cf_KeyFile = Getenv env ''KAFKA_TLS_KEY'', cf_CAFile = Getenv env ''KAFKA_TLS_CA'',
          cf_TopicPrefix = prefix\<rparr>)"

text \<open>
  The certificate library and the file system, as \<open>mTLS\<close> uses them: load a key pair, read a
  file, add the certificates of a PEM text to a pool (\<open>None\<close> when there are none).
\<close>

record ('cert, 'pool) tls_ext =
  tl_LoadX509KeyPair :: "string \<Rightarrow> string \<Rightarrow> go_error + 'cert"
  tl_ReadFile :: "string \<Rightarrow> go_error + bytes"
  tl_NewCertPool :: 'pool
  tl_AppendCertsFromPEM :: "'pool \<Rightarrow> bytes \<Rightarrow> 'pool option"

record ('cert, 'pool) tls_config =
  tc_Certificate :: 'cert
  tc_RootCAs :: 'pool
  tc_MinVersion :: nat

definition mTLS :: "('cert, 'pool) tls_ext \<Rightarrow> Config \<Rightarrow> go_error + ('cert, 'pool) tls_config" where
  "mTLS t c =
     (case tl_LoadX509KeyPair t (cf_CertFile c) (cf_KeyFile c) of
        Inl e \<Rightarrow> Inl e
      | Inr cert \<Rightarrow>
        (let done = \<lambda>pool. Inr \<lparr>tc_Certificate = cert, tc_RootCAs = pool, tc_MinVersion = 0x0303\<rparr> in
         if cf_CAFile c = '''' then done (tl_NewCertPool t)
         else
           (case tl_ReadFile t (cf_CAFile c) of
              Inl e \<Rightarrow> Inl e
            | Inr ca \<Rightarrow>
              (case tl_AppendCertsFromPEM t (tl_NewCertPool t) ca of
                 None \<Rightarrow> Inl (ErrText ''append CA failed'')
               | Some pool \<Rightarrow> done pool))))"

text \<open>The settings of the producer that the code changes; \<open>None\<close> for TLS is plaintext.\<close>

record ('cert, 'pool) producer_config =
  pc_ReturnSuccesses :: bool
  pc_WaitForAll :: bool
  pc_Idempotent :: bool
  pc_MaxOpenRequests :: nat
  pc_TLS :: "('cert, 'pool) tls_config option"

definition producerConfig ::
  "('cert, 'pool) tls_ext \<Rightarrow> Config \<Rightarrow> go_error + ('cert, 'pool) producer_config" where
  "producerConfig t c =
     (let cfg = \<lparr>pc_ReturnSuccesses = True, pc_WaitForAll = True, pc_Idempotent = True,
                 pc_MaxOpenRequests = 1, pc_TLS = None\<rparr> in
      if cf_CertFile c = '''' \<and> cf_KeyFile c = '''' \<and> cf_CAFile c = '''' then Inr cfg
      else (case mTLS t c of
              Inl e \<Rightarrow> Inl (Wrapped ''kafka mTLS: '' e)
            | Inr tls \<Rightarrow> Inr (cfg\<lparr>pc_TLS := Some tls\<rparr>)))"


section \<open>The publisher\<close>

record message =
  m_Topic :: string
  m_Key :: bytes
  m_Value :: bytes

text \<open>The producer is its \<open>SendMessage\<close> and \<open>Close\<close>; \<open>None\<close> is the scaffold mode without
  one. A nil \<open>*Publisher\<close> is \<open>None\<close> where a method takes an optional publisher.\<close>

record 'w producer =
  sy_SendMessage :: "message \<Rightarrow> 'w \<Rightarrow> go_error option \<times> 'w"
  sy_Close :: "'w \<Rightarrow> go_error option \<times> 'w"

record 'w Publisher =
  pub_p :: "'w producer option"
  pub_prefix :: string
  pub_closed :: bool

definition NewPublisher ::
  "('cert, 'pool) tls_ext \<Rightarrow>
     (string list \<Rightarrow> ('cert, 'pool) producer_config \<Rightarrow> 'w \<Rightarrow> (go_error + 'w producer) \<times> 'w) \<Rightarrow>
     Config \<Rightarrow> 'w \<Rightarrow> (go_error + 'w Publisher) \<times> 'w" where
  "NewPublisher t newSyncProducer c w =
     (if cf_Brokers c = ''''
      then (Inr \<lparr>pub_p = None, pub_prefix = cf_TopicPrefix c, pub_closed = False\<rparr>, w)
      else
        (case producerConfig t c of
           Inl e \<Rightarrow> (Inl e, w)
         | Inr cfg \<Rightarrow>
           (case newSyncProducer (split_on (CHR '','') (cf_Brokers c)) cfg w of
              (Inl e, w') \<Rightarrow> (Inl e, w')
            | (Inr p, w') \<Rightarrow>
              (Inr \<lparr>pub_p = Some p, pub_prefix = cf_TopicPrefix c, pub_closed = False\<rparr>, w'))))"

definition Ready :: "'w Publisher option \<Rightarrow> bool" where
  "Ready p = (case p of None \<Rightarrow> False | Some q \<Rightarrow> \<not> pub_closed q)"

definition topicFor :: "'w Publisher option \<Rightarrow> string \<Rightarrow> string" where
  "topicFor p kind =
     (let prefix = (case p of
                      Some q \<Rightarrow> if pub_prefix q \<noteq> '''' then pub_prefix q else defaultTopicPrefix
                    | None \<Rightarrow> defaultTopicPrefix)
      in prefix @ ''download.client.'' @ kind)"

definition event_key :: "string \<Rightarrow> string \<Rightarrow> bytes" where
  "event_key adapter clientID = adapter @ '':'' @ clientID"

definition emit ::
  "'w Publisher option \<Rightarrow> string \<Rightarrow> string \<Rightarrow> string \<Rightarrow> event \<Rightarrow> 'w \<Rightarrow> go_error option \<times> 'w" where
  "emit p kind adapter clientID payload w =
     (let b = marshal (event_json payload); topic = topicFor p kind in
      case (case p of None \<Rightarrow> None | Some q \<Rightarrow> pub_p q) of
        None \<Rightarrow> (None, w)
      | Some producer \<Rightarrow>
        sy_SendMessage producer
          \<lparr>m_Topic = topic, m_Key = event_key adapter clientID, m_Value = b\<rparr> w)"

text \<open>The four \<open>Emit\<close> methods stamp the event with the time in milliseconds (\<open>nowMs\<close>, read
  from the world) and send it under its kind.\<close>

definition EmitStarted ::
  "('w \<Rightarrow> int) \<Rightarrow> 'w Publisher option \<Rightarrow> Started \<Rightarrow> 'w \<Rightarrow> go_error option \<times> 'w" where
  "EmitStarted nowMs p e w =
     (let e' = e\<lparr>sr_StartedAt := nowMs w\<rparr>
      in emit p ''started'' (sr_Adapter e') (sr_ClientID e') (EvStarted e') w)"

definition EmitProgress ::
  "('w \<Rightarrow> int) \<Rightarrow> 'w Publisher option \<Rightarrow> Progress \<Rightarrow> 'w \<Rightarrow> go_error option \<times> 'w" where
  "EmitProgress nowMs p e w =
     (let e' = e\<lparr>pr_EmittedAt := nowMs w\<rparr>
      in emit p ''progress'' (pr_Adapter e') (pr_ClientID e') (EvProgress e') w)"

definition EmitCompleted ::
  "('w \<Rightarrow> int) \<Rightarrow> 'w Publisher option \<Rightarrow> Completed \<Rightarrow> 'w \<Rightarrow> go_error option \<times> 'w" where
  "EmitCompleted nowMs p e w =
     (let e' = e\<lparr>co_CompletedAt := nowMs w\<rparr>
      in emit p ''completed'' (co_Adapter e') (co_ClientID e') (EvCompleted e') w)"

definition EmitFailed ::
  "('w \<Rightarrow> int) \<Rightarrow> 'w Publisher option \<Rightarrow> Failed \<Rightarrow> 'w \<Rightarrow> go_error option \<times> 'w" where
  "EmitFailed nowMs p e w =
     (let e' = e\<lparr>fa_FailedAt := nowMs w\<rparr>
      in emit p ''failed'' (fa_Adapter e') (fa_ClientID e') (EvFailed e') w)"

definition Close :: "'w Publisher option \<Rightarrow> 'w \<Rightarrow> go_error option \<times> 'w Publisher option \<times> 'w" where
  "Close p w =
     (case p of
        None \<Rightarrow> (None, None, w)
      | Some q \<Rightarrow>
        (let q' = q\<lparr>pub_closed := True\<rparr> in
         case pub_p q of
           None \<Rightarrow> (None, Some q', w)
         | Some producer \<Rightarrow> (case sy_Close producer w of (e, w') \<Rightarrow> (e, Some q', w'))))"


section \<open>Properties\<close>

text \<open>The event a gateway hands over, published by its kind's method.\<close>

fun publish :: "('w \<Rightarrow> int) \<Rightarrow> 'w Publisher option \<Rightarrow> event \<Rightarrow> 'w \<Rightarrow> go_error option \<times> 'w" where
  "publish nowMs p (EvStarted e) w = EmitStarted nowMs p e w"
| "publish nowMs p (EvProgress e) w = EmitProgress nowMs p e w"
| "publish nowMs p (EvCompleted e) w = EmitCompleted nowMs p e w"
| "publish nowMs p (EvFailed e) w = EmitFailed nowMs p e w"

text \<open>Kafka is never spoken to in plaintext by accident. A producer configuration is
  plaintext exactly when no TLS file is configured; an incomplete or unreadable set of files
  is an error.\<close>

theorem producerConfig_plaintext:
  assumes "producerConfig t c = Inr cfg"
  shows "pc_TLS cfg = None \<longleftrightarrow> cf_CertFile c = '''' \<and> cf_KeyFile c = '''' \<and> cf_CAFile c = ''''"
  using assms by (auto simp: producerConfig_def Let_def split: if_splits sum.splits)

text \<open>A certificate library that accepts everything, for evaluation.\<close>

definition demo_tls :: "(string, string) tls_ext" where
  "demo_tls = \<lparr>tl_LoadX509KeyPair = \<lambda>c k. Inr (c @ k), tl_ReadFile = \<lambda>f. Inr f, tl_NewCertPool = '''',
     tl_AppendCertsFromPEM = \<lambda>p b. Some (p @ b)\<rparr>"

definition demo_kafka :: Config where
  "demo_kafka = \<lparr>cf_Brokers = ''k:9092'', cf_CertFile = ''c'', cf_KeyFile = ''k'', cf_CAFile = '''',
     cf_TopicPrefix = ''stube.''\<rparr>"

theorem producerConfig_plaintext_witness:
  "\<exists>cfg. producerConfig demo_tls demo_kafka = Inr cfg \<and> pc_TLS cfg \<noteq> None"
proof -
  obtain cfg where cfg: "producerConfig demo_tls demo_kafka = Inr cfg"
    by (auto simp: producerConfig_def mTLS_def demo_tls_def demo_kafka_def Let_def)
  from producerConfig_plaintext [OF cfg] cfg show ?thesis by (auto simp: demo_kafka_def)
qed

definition stamped :: "int \<Rightarrow> event \<Rightarrow> event" where
  "stamped now ev =
     (case ev of
        EvStarted e \<Rightarrow> EvStarted (e\<lparr>sr_StartedAt := now\<rparr>)
      | EvProgress e \<Rightarrow> EvProgress (e\<lparr>pr_EmittedAt := now\<rparr>)
      | EvCompleted e \<Rightarrow> EvCompleted (e\<lparr>co_CompletedAt := now\<rparr>)
      | EvFailed e \<Rightarrow> EvFailed (e\<lparr>fa_FailedAt := now\<rparr>))"

lemmas emit_defs = EmitStarted_def EmitProgress_def EmitCompleted_def EmitFailed_def stamped_def

lemma event_key_inj:
  assumes "CHR '':'' \<notin> set a" "CHR '':'' \<notin> set b" "event_key a i = event_key b j"
  shows "a = b \<and> i = j"
  using assms append_sep_inj [of "CHR '':''" a b i j] by (simp add: event_key_def)

text \<open>C39: With a producer configured, every event about a job is sent to the topic of its kind under the job's own key,
  and the keys of different jobs differ as long as client ids have no colon; so Kafka keeps
  the events of one job in order and never mixes two jobs.\<close>

theorem publish_key:
  assumes "pub_p q = Some producer" "pub_prefix q \<noteq> ''''"
  shows "(\<exists>ev'. kind_of ev' = kind_of ev \<and> event_adapter ev' = event_adapter ev \<and>
           event_client_id ev' = event_client_id ev \<and>
           publish nowMs (Some q) ev w = sy_SendMessage producer
             \<lparr>m_Topic = pub_prefix q @ ''download.client.'' @ kind_of ev,
              m_Key = event_key (event_adapter ev) (event_client_id ev), m_Value = marshal (event_json ev')\<rparr> w) \<and>
         (CHR '':'' \<notin> set a \<and> CHR '':'' \<notin> set b \<and> event_key a i = event_key b j \<longrightarrow> a = b \<and> i = j)"
proof
  show "\<exists>ev'. kind_of ev' = kind_of ev \<and> event_adapter ev' = event_adapter ev \<and>
           event_client_id ev' = event_client_id ev \<and>
           publish nowMs (Some q) ev w = sy_SendMessage producer
             \<lparr>m_Topic = pub_prefix q @ ''download.client.'' @ kind_of ev,
              m_Key = event_key (event_adapter ev) (event_client_id ev), m_Value = marshal (event_json ev')\<rparr> w"
    by (rule exI [where x = "stamped (nowMs w) ev"])
       (cases ev; simp add: emit_defs emit_def topicFor_def Let_def assms)
  show "CHR '':'' \<notin> set a \<and> CHR '':'' \<notin> set b \<and> event_key a i = event_key b j \<longrightarrow> a = b \<and> i = j"
    using event_key_inj by blast
qed

text \<open>A publisher that counts what it sends, for evaluation.\<close>

definition demo_publisher :: "nat Publisher" where
  "demo_publisher = \<lparr>pub_p = Some \<lparr>sy_SendMessage = \<lambda>m n. (None, n + length (m_Key m)), sy_Close = \<lambda>n. (None, n)\<rparr>,
     pub_prefix = ''stube.'', pub_closed = False\<rparr>"

definition demo_failed :: event where
  "demo_failed = EvFailed \<lparr>fa_ClientID = ''7'', fa_Adapter = ''nz'', fa_ClientType = ''nzbget'', fa_WantedItemID = '''',
     fa_Title = '''', fa_Error = '''', fa_ErrorCode = '''', fa_Retriable = False, fa_FailedAt = 0\<rparr>"

theorem publish_key_witness:
  "publish (\<lambda>n. 0) (Some demo_publisher) demo_failed 0 = (None, 4) \<and> event_key ''nz'' ''7'' \<noteq> event_key ''nz2'' ''7''"
  using publish_key [of demo_publisher _ demo_failed "\<lambda>n. 0" 0 "''nz''" "''nz2''" "''7''" "''7''"]
  by (auto simp: demo_publisher_def demo_failed_def event_key_def)

end
