(* ===== verification/Tracker.thy ===== *)
theory Tracker
  imports Registry Events
begin

text \<open>
  Job tracking (cmd/server/main.go): the map of jobs in flight, what one poll of a job does
  to it and which event it publishes, the values derived for clients that do not report
  them, the grace window for jobs a client no longer knows, adoption after a restart or a
  push, and the byte budget of large adds.

  A time is a number of nanoseconds; Go's zero \<open>time.Time\<close> is \<open>None\<close>. The clock is an
  argument: a poll reads it up to three times. Published events are returned in order; the
  code ignores the result of publishing them.
\<close>

record tracked =
  tr_adapter :: string
  tr_clientType :: string
  tr_clientJobID :: string
  tr_title :: string
  tr_wantedItemID :: string
  tr_last :: Status
  tr_view :: JobView
  tr_lastBytes :: int
  tr_lastAt :: "int option"
  tr_missingSince :: "int option"

type_synonym jobs = "(string \<times> tracked) list"

text \<open>\<open>lostAfter\<close>, ten minutes.\<close>

definition lostAfter :: int where
  "lostAfter = 10 * 60 * 10 ^ 9"

definition job_key :: "string \<Rightarrow> string \<Rightarrow> string" where
  "job_key adapter clientJobID = adapter @ '':'' @ clientJobID"

abbreviation key_of :: "tracked \<Rightarrow> string" where
  "key_of t \<equiv> job_key (tr_adapter t) (tr_clientJobID t)"

definition track :: "tracked \<Rightarrow> jobs \<Rightarrow> jobs" where
  "track t jobs = AList.update (key_of t) t jobs"

definition trackIfAbsent :: "tracked \<Rightarrow> jobs \<Rightarrow> bool \<times> jobs" where
  "trackIfAbsent t jobs =
     (case map_of jobs (key_of t) of
        Some _ \<Rightarrow> (False, jobs)
      | None \<Rightarrow> (True, AList.update (key_of t) t jobs))"

definition untrack :: "string \<Rightarrow> string \<Rightarrow> jobs \<Rightarrow> jobs" where
  "untrack adapter jid jobs = AList.delete (job_key adapter jid) jobs"

definition hasJobs :: "jobs \<Rightarrow> string \<Rightarrow> bool" where
  "hasJobs jobs clientID = list_ex (\<lambda>(k, t). tr_adapter t = clientID) jobs"

definition snapshot :: "jobs \<Rightarrow> tracked list" where
  "snapshot jobs = map snd jobs"


section \<open>Derived values\<close>

definition titleOf :: "tracked \<Rightarrow> JobView \<Rightarrow> string" where
  "titleOf job v = (if jv_Title v \<noteq> '''' then jv_Title v else tr_title job)"

definition pct :: "int \<Rightarrow> int \<Rightarrow> rat" where
  "pct done tot =
     (if tot \<le> 0 then 0 else fl (fl (fl (of_int done) / fl (of_int tot)) * 100))"

definition optInt64 :: "int \<Rightarrow> int option" where
  "optInt64 v = (if v = 0 then None else Some v)"

definition optInt32 :: "int \<Rightarrow> int option" where
  "optInt32 v = (if v < 0 then None else Some (wrap32 v))"

definition optCount :: "int \<Rightarrow> int option" where
  "optCount v = (if v < 0 then None else Some v)"

text \<open>\<open>Duration.Seconds\<close>: whole seconds plus the fraction, each rounded.\<close>

definition seconds :: "int \<Rightarrow> rat" where
  "seconds d =
     (let sec = go_quot d (10 ^ 9); nsec = d - sec * 10 ^ 9
      in fl (fl (of_int sec) + fl (fl (of_int nsec) / 10 ^ 9)))"

definition fillDerived :: "JobView \<Rightarrow> int \<Rightarrow> int option \<Rightarrow> int \<Rightarrow> JobView" where
  "fillDerived v prevBytes prevAt now =
     (let v1 =
        (case prevAt of
           Some t \<Rightarrow>
             if jv_SpeedBps v \<le> 0 \<and> prevBytes < jv_BytesDone v \<and> 1 \<le> seconds (now - t)
             then v\<lparr>jv_SpeedBps := trunc_int64
                      (fl (fl (of_int (wrap64 (jv_BytesDone v - prevBytes))) / seconds (now - t)))\<rparr>
             else v
         | None \<Rightarrow> v)
      in if jv_EtaSec v1 < 0 \<and> 0 < jv_SpeedBps v1 \<and> jv_BytesDone v1 < jv_BytesTotal v1
         then v1\<lparr>jv_EtaSec := go_quot (wrap64 (jv_BytesTotal v1 - jv_BytesDone v1)) (jv_SpeedBps v1)\<rparr>
         else v1)"


section \<open>Polling\<close>

definition observe :: "tracked \<Rightarrow> JobView \<Rightarrow> int \<Rightarrow> jobs \<Rightarrow> jobs" where
  "observe job v now jobs =
     (case map_of jobs (key_of job) of
        None \<Rightarrow> jobs
      | Some cur \<Rightarrow>
        AList.update (key_of job)
          (cur\<lparr>tr_last := jv_State v, tr_view := v, tr_lastBytes := jv_BytesDone v, tr_lastAt := Some now\<rparr>) jobs)"

definition prevSample :: "tracked \<Rightarrow> jobs \<Rightarrow> int \<times> int option" where
  "prevSample job jobs =
     (case map_of jobs (key_of job) of None \<Rightarrow> (0, None) | Some cur \<Rightarrow> (tr_lastBytes cur, tr_lastAt cur))"

definition markMissing :: "tracked \<Rightarrow> int \<Rightarrow> jobs \<Rightarrow> bool \<times> jobs" where
  "markMissing job now jobs =
     (case map_of jobs (key_of job) of
        None \<Rightarrow> (False, jobs)
      | Some cur \<Rightarrow>
        (case tr_missingSince cur of
           None \<Rightarrow> (False, AList.update (key_of job) (cur\<lparr>tr_missingSince := Some now\<rparr>) jobs)
         | Some t \<Rightarrow> (lostAfter < now - t, jobs)))"

definition clearMissing :: "tracked \<Rightarrow> jobs \<Rightarrow> jobs" where
  "clearMissing job jobs =
     (case map_of jobs (key_of job) of
        None \<Rightarrow> jobs
      | Some cur \<Rightarrow> AList.update (key_of job) (cur\<lparr>tr_missingSince := None\<rparr>) jobs)"

text \<open>The clock readings of one poll: in \<open>markMissing\<close>, in \<open>fillDerived\<close> and in \<open>observe\<close>.\<close>

record poll_clock =
  ck_mark :: int
  ck_derive :: int
  ck_observe :: int

definition completed_event :: "tracked \<Rightarrow> JobView \<Rightarrow> event" where
  "completed_event job v =
     EvCompleted \<lparr>co_ClientID = tr_clientJobID job, co_Adapter = tr_adapter job,
       co_ClientType = tr_clientType job, co_WantedItemID = tr_wantedItemID job,
       co_Files = jv_Files v, co_SizeBytes = jv_BytesTotal v, co_CompletedAt = 0\<rparr>"

definition failed_event :: "tracked \<Rightarrow> string \<Rightarrow> string \<Rightarrow> event" where
  "failed_event job title err =
     EvFailed \<lparr>fa_ClientID = tr_clientJobID job, fa_Adapter = tr_adapter job,
       fa_ClientType = tr_clientType job, fa_WantedItemID = tr_wantedItemID job,
       fa_Title = title, fa_Error = err, fa_ErrorCode = '''', fa_Retriable = False, fa_FailedAt = 0\<rparr>"

definition progress_event :: "tracked \<Rightarrow> JobView \<Rightarrow> event" where
  "progress_event job v =
     EvProgress \<lparr>pr_ClientID = tr_clientJobID job, pr_Adapter = tr_adapter job,
       pr_ClientType = tr_clientType job, pr_WantedItemID = tr_wantedItemID job,
       pr_Title = titleOf job v, pr_State = Status_string (jv_State v),
       pr_NativeState = jv_NativeState v, pr_ProgressPct = pct (jv_BytesDone v) (jv_BytesTotal v),
       pr_DownloadedBytes = jv_BytesDone v, pr_SizeBytes = optInt64 (jv_BytesTotal v),
       pr_SpeedBps = jv_SpeedBps v, pr_EtaSec = optInt32 (jv_EtaSec v),
       pr_Seeders = optCount (jv_Seeders v), pr_Leechers = optCount (jv_Leechers v),
       pr_Health = optCount (jv_Health v), pr_EmittedAt = 0\<rparr>"

text \<open>What \<open>pollOne\<close> does with the snapshot the client gave: the switch on its state.\<close>

definition poll_view :: "tracked \<Rightarrow> JobView \<Rightarrow> poll_clock \<Rightarrow> jobs \<Rightarrow> jobs \<times> event list" where
  "poll_view job v ck jobs =
     (case jv_State v of
        StatusCompleted \<Rightarrow>
          (untrack (tr_adapter job) (tr_clientJobID job) jobs, [completed_event job v])
      | StatusFailed \<Rightarrow>
          (untrack (tr_adapter job) (tr_clientJobID job) jobs,
           [failed_event job (titleOf job v) (jv_Message v)])
      | _ \<Rightarrow>
        (case (if jv_NativeState v = NotFoundState then markMissing job (ck_mark ck) jobs
               else (False, clearMissing job jobs)) of
           (True, jobs1) \<Rightarrow>
             (untrack (tr_adapter job) (tr_clientJobID job) jobs1,
              [failed_event job (tr_title job) (''job is no longer known to '' @ tr_adapter job)])
         | (False, jobs1) \<Rightarrow>
             (case prevSample job jobs1 of
                (pb, pt) \<Rightarrow>
                  (let v' = fillDerived v pb pt (ck_derive ck)
                   in (observe job v' (ck_observe ck) jobs1, [progress_event job v'])))))"

definition pollOne ::
  "'w Registry \<Rightarrow> poll_clock \<Rightarrow> tracked \<Rightarrow> jobs \<Rightarrow> 'w \<Rightarrow> jobs \<times> event list \<times> 'w" where
  "pollOne reg ck job jobs w =
     (case Get reg (tr_adapter job) of
        None \<Rightarrow> (untrack (tr_adapter job) (tr_clientJobID job) jobs, [], w)
      | Some ad \<Rightarrow>
        (case ad_Describe ad (tr_clientJobID job) w of
           (Inl e, w') \<Rightarrow> (jobs, [], w')
         | (Inr v, w') \<Rightarrow> (case poll_view job v ck jobs of (jobs', evs) \<Rightarrow> (jobs', evs, w'))))"

text \<open>
  One tick: every job of the snapshot is polled, then the drained clients are reaped. The
  polls run concurrently, at most eight at a time, each on its own job; here they run in the
  order of the list, which stands for the order in which they finish.
\<close>

fun pollJobs ::
  "'w Registry \<Rightarrow> (string \<Rightarrow> poll_clock) \<Rightarrow> tracked list \<Rightarrow> jobs \<Rightarrow> 'w \<Rightarrow> jobs \<times> event list \<times> 'w" where
  "pollJobs reg ck [] jobs w = (jobs, [], w)"
| "pollJobs reg ck (j # js) jobs w =
     (case pollOne reg (ck (key_of j)) j jobs w of
        (jobs1, evs1, w1) \<Rightarrow>
          (case pollJobs reg ck js jobs1 w1 of (jobs2, evs2, w2) \<Rightarrow> (jobs2, evs1 @ evs2, w2)))"

definition pollAll ::
  "'w Registry \<Rightarrow> (string \<Rightarrow> poll_clock) \<Rightarrow> jobs \<Rightarrow> 'w \<Rightarrow> 'w Registry \<times> jobs \<times> event list \<times> 'w" where
  "pollAll reg ck jobs w =
     (case pollJobs reg ck (snapshot jobs) jobs w of
        (jobs', evs, w') \<Rightarrow> (snd (Reap (hasJobs jobs') reg), jobs', evs, w'))"


section \<open>Adoption\<close>

definition adopted :: "string \<Rightarrow> string \<Rightarrow> AdoptedJob \<Rightarrow> tracked" where
  "adopted cid ctype j =
     \<lparr>tr_adapter = cid, tr_clientType = ctype, tr_clientJobID = aj_ClientJobID j,
      tr_title = aj_Title j, tr_wantedItemID = '''', tr_last = StatusQueued, tr_view = NewJobView,
      tr_lastBytes = 0, tr_lastAt = None, tr_missingSince = None\<rparr>"

definition adopt_jobs :: "string \<Rightarrow> string \<Rightarrow> AdoptedJob list \<Rightarrow> jobs \<Rightarrow> jobs" where
  "adopt_jobs cid ctype js jobs = foldl (\<lambda>m j. snd (trackIfAbsent (adopted cid ctype j) m)) jobs js"

text \<open>\<open>adopt\<close> holds a lease from before it asks the client until its jobs are tracked.\<close>

definition adopt ::
  "string \<Rightarrow> 'w Registry \<Rightarrow> jobs \<Rightarrow> 'w \<Rightarrow> 'w Registry \<times> jobs \<times> 'w" where
  "adopt cid reg jobs w =
     (case Lease cid reg of
        (Inl e, reg') \<Rightarrow> (reg', jobs, w)
      | (Inr c, reg') \<Rightarrow>
        (case ad_Rehydrator (cl_Adapter c) of
           None \<Rightarrow> (release cid reg', jobs, w)
         | Some Adopt \<Rightarrow>
           (case Adopt w of
              (Inl e, w') \<Rightarrow> (release cid reg', jobs, w')
            | (Inr js, w') \<Rightarrow> (release cid reg', adopt_jobs cid (cl_Type c) js jobs, w'))))"

fun adoptExisting ::
  "string list \<Rightarrow> 'w Registry \<Rightarrow> jobs \<Rightarrow> 'w \<Rightarrow> 'w Registry \<times> jobs \<times> 'w" where
  "adoptExisting [] reg jobs w = (reg, jobs, w)"
| "adoptExisting (cid # cids) reg jobs w =
     (case adopt cid reg jobs w of (reg', jobs', w') \<Rightarrow> adoptExisting cids reg' jobs' w')"


section \<open>The budget of large adds\<close>

definition maxPayload :: int where
  "maxPayload = 50 * 2 ^ 20"

definition maxAddBody :: int where
  "maxAddBody = (maxPayload + 2) div 3 * 4 + 4 * 2 ^ 20"

definition addBodyBudget :: int where
  "addBodyBudget = 2 * maxAddBody"

definition smallAddBody :: int where
  "smallAddBody = 2 ^ 20"

text \<open>\<open>admitAdd\<close>: the bytes reserved and the new total, or \<open>None\<close> when the body does not fit.
  The release function subtracts the reserved bytes, once.\<close>

definition admitAdd :: "int \<Rightarrow> int \<Rightarrow> (int \<times> int) option" where
  "admitAdd n inFlight =
     (if 0 \<le> n \<and> n \<le> smallAddBody then Some (0, inFlight)
      else
        (let n' = (if n < 0 \<or> maxAddBody < n then maxAddBody else n)
         in if addBodyBudget < inFlight + n' then None else Some (n', inFlight + n')))"

definition admitRelease :: "int \<Rightarrow> int \<Rightarrow> int" where
  "admitRelease reserved inFlight = inFlight - reserved"


section \<open>The job map\<close>

declare map_of_eq_Some_iff [simp del] Some_eq_map_of_iff [simp del]

text \<open>Jobs are kept under their own key, each once.\<close>

definition jobs_wf :: "jobs \<Rightarrow> bool" where
  "jobs_wf jobs \<longleftrightarrow> distinct (map fst jobs) \<and> list_all (\<lambda>(k, t). k = key_of t) jobs"

text \<open>The store of jobs as the gateway uses it: put, drop and look up under the job's key, and
  ask whether a client has jobs. The registry's \<open>inUse\<close> rests on the last two lemmas.\<close>

locale job_store =
  fixes wf :: "'s \<Rightarrow> bool"
    and lookup :: "'s \<Rightarrow> string \<Rightarrow> tracked option"
    and put :: "tracked \<Rightarrow> 's \<Rightarrow> 's"
    and drop_job :: "string \<Rightarrow> string \<Rightarrow> 's \<Rightarrow> 's"
    and used :: "'s \<Rightarrow> string \<Rightarrow> bool"
  assumes wf_put: "wf s \<Longrightarrow> wf (put t s)"
    and wf_drop: "wf s \<Longrightarrow> wf (drop_job a i s)"
    and lookup_put: "lookup (put t s) = (lookup s)(key_of t \<mapsto> t)"
    and lookup_drop: "lookup (drop_job a i s) = (lookup s)(job_key a i := None)"
    and used_iff: "wf s \<Longrightarrow> used s c \<longleftrightarrow> (\<exists>k t. lookup s k = Some t \<and> tr_adapter t = c)"
begin

lemma used_put: "wf s \<Longrightarrow> used (put t s) c \<Longrightarrow> c = tr_adapter t \<or> used s c"
  by (auto simp: used_iff wf_put lookup_put split: if_splits)

lemma put_used: "wf s \<Longrightarrow> used (put t s) (tr_adapter t)"
  by (auto simp: used_iff wf_put lookup_put)

lemma used_drop: "wf s \<Longrightarrow> used (drop_job a i s) c \<Longrightarrow> used s c"
  by (auto simp: used_iff wf_drop lookup_drop split: if_splits)

end

lemma map_of_track [simp]: "map_of (track t jobs) = (map_of jobs)(key_of t \<mapsto> t)"
  by (simp add: track_def map_of_update)

lemma map_of_untrack [simp]: "map_of (untrack a i jobs) = (map_of jobs)(job_key a i := None)"
  by (simp add: untrack_def map_of_delete)

lemma jobs_wf_iff:
  "jobs_wf jobs \<longleftrightarrow> distinct (map fst jobs) \<and> (\<forall>k t. map_of jobs k = Some t \<longrightarrow> k = key_of t)"
  by (auto simp: jobs_wf_def list_all_iff dest: map_of_SomeD intro: map_of_is_SomeI)

lemma jobs_wf_Nil [simp]: "jobs_wf []"
  by (simp add: jobs_wf_def)

lemma hasJobs_iff:
  "jobs_wf jobs \<Longrightarrow> hasJobs jobs c \<longleftrightarrow> (\<exists>k t. map_of jobs k = Some t \<and> tr_adapter t = c)"
  by (force simp: jobs_wf_def hasJobs_def list_ex_iff dest: map_of_SomeD intro: map_of_is_SomeI)

interpretation jobs: job_store jobs_wf map_of track untrack hasJobs
proof unfold_locales
  show "jobs_wf s \<Longrightarrow> jobs_wf (track t s)" for s t
    by (auto simp: jobs_wf_iff) (simp add: track_def)
  show "jobs_wf s \<Longrightarrow> jobs_wf (untrack a i s)" for s a i
    by (auto simp: jobs_wf_iff untrack_def map_of_delete split: if_splits)
qed (simp_all add: hasJobs_iff)

text \<open>An update of the job under its key, as \<open>observe\<close>, \<open>markMissing\<close> and \<open>clearMissing\<close> do it.\<close>

definition same_job :: "tracked \<Rightarrow> tracked \<Rightarrow> bool" where
  "same_job t u \<longleftrightarrow> tr_adapter t = tr_adapter u \<and> tr_clientType t = tr_clientType u \<and>
     tr_clientJobID t = tr_clientJobID u \<and> tr_title t = tr_title u \<and> tr_wantedItemID t = tr_wantedItemID u"

definition touches :: "string \<Rightarrow> jobs \<Rightarrow> jobs \<Rightarrow> bool" where
  "touches k jobs jobs' \<longleftrightarrow> (jobs_wf jobs \<longrightarrow> jobs_wf jobs') \<and>
     (\<forall>k'. k' \<noteq> k \<longrightarrow> map_of jobs' k' = map_of jobs k') \<and>
     (\<forall>t'. map_of jobs' k = Some t' \<longrightarrow> (\<exists>t. map_of jobs k = Some t \<and> same_job t t'))"

definition keeps :: "string \<Rightarrow> jobs \<Rightarrow> jobs \<Rightarrow> bool" where
  "keeps k jobs jobs' \<longleftrightarrow> touches k jobs jobs' \<and> (map_of jobs' k = None \<longleftrightarrow> map_of jobs k = None)"

lemma same_job_trans: "same_job t u \<Longrightarrow> same_job u v \<Longrightarrow> same_job t v"
  by (simp add: same_job_def)

lemma touches_trans: "touches k a b \<Longrightarrow> touches k b c \<Longrightarrow> touches k a c"
  unfolding touches_def using same_job_trans by (metis (no_types))

lemma touches_untrack: "k = job_key a i \<Longrightarrow> touches k jobs (untrack a i jobs)"
  using jobs.wf_drop by (auto simp: touches_def)

lemma keeps_update:
  assumes "map_of jobs k = Some cur" "same_job cur u"
  shows "keeps k jobs (AList.update k u jobs)"
proof -
  have keys: "k' = key_of t" if "jobs_wf jobs" "map_of (AList.update k u jobs) k' = Some t" for k' t
  proof -
    have k: "k = key_of cur" using that(1) assms(1) unfolding jobs_wf_iff by blast
    show ?thesis
    proof (cases "k' = k")
      case True
      then have "t = u" using that(2) by (simp add: map_of_update)
      then show ?thesis using True k assms(2) by (simp add: same_job_def)
    next
      case False
      then have "map_of jobs k' = Some t" using that(2) by (simp add: map_of_update)
      then show ?thesis using that(1) unfolding jobs_wf_iff by blast
    qed
  qed
  have wf: "jobs_wf (AList.update k u jobs)" if w: "jobs_wf jobs"
    unfolding jobs_wf_iff
  proof (intro conjI allI impI)
    show "distinct (map fst (AList.update k u jobs))"
      using w by (intro distinct_keys_update) (simp add: jobs_wf_def)
  qed (rule keys [OF w])
  show ?thesis
    unfolding keeps_def touches_def using wf assms by (auto simp: map_of_update)
qed

lemma keeps_refl: "keeps k jobs jobs"
  by (simp add: keeps_def touches_def same_job_def)

lemma keeps_trans: "keeps k a b \<Longrightarrow> keeps k b c \<Longrightarrow> keeps k a c"
  by (simp add: keeps_def) (metis touches_trans)

lemma keeps_observe: "keeps (key_of job) jobs (observe job v now jobs)"
  by (auto simp: observe_def same_job_def keeps_refl intro: keeps_update split: option.splits)

lemma keeps_clearMissing: "keeps (key_of job) jobs (clearMissing job jobs)"
  by (auto simp: clearMissing_def same_job_def keeps_refl intro: keeps_update split: option.splits)

lemma keeps_markMissing: "keeps (key_of job) jobs (snd (markMissing job now jobs))"
  by (auto simp: markMissing_def same_job_def keeps_refl intro: keeps_update split: option.splits)

text \<open>The three ways a poll of a job can end.\<close>

lemma poll_view_cases:
  assumes "poll_view job v ck jobs = (jobs', evs)"
  obtains (ended) jobs1 ev where "keeps (key_of job) jobs jobs1"
      "jobs' = untrack (tr_adapter job) (tr_clientJobID job) jobs1" "evs = [ev]"
      "kind_of ev \<in> {''completed'', ''failed''}" "event_adapter ev = tr_adapter job"
      "event_client_id ev = tr_clientJobID job"
      "jv_State v = StatusCompleted \<and> ev = completed_event job v \<or>
       jv_State v = StatusFailed \<and> ev = failed_event job (titleOf job v) (jv_Message v) \<or>
       jv_State v \<notin> {StatusCompleted, StatusFailed} \<and> jv_NativeState v = NotFoundState \<and>
         fst (markMissing job (ck_mark ck) jobs) \<and>
         ev = failed_event job (tr_title job) (''job is no longer known to '' @ tr_adapter job)"
  | (goes_on) v' where "keeps (key_of job) jobs jobs'" "evs = [progress_event job v']"
      "jv_State v \<notin> {StatusCompleted, StatusFailed}"
      "jv_NativeState v = NotFoundState \<longrightarrow> \<not> fst (markMissing job (ck_mark ck) jobs)"
proof (cases "jv_State v \<in> {StatusCompleted, StatusFailed}")
  case True
  with assms that(1) [OF keeps_refl] show ?thesis
    by (auto simp: poll_view_def completed_event_def failed_event_def)
next
  case False
  obtain lost jobs1 where m: "(if jv_NativeState v = NotFoundState then markMissing job (ck_mark ck) jobs
      else (False, clearMissing job jobs)) = (lost, jobs1)" by fastforce
  then have k: "keeps (key_of job) jobs jobs1"
    using keeps_markMissing [of job jobs "ck_mark ck"] keeps_clearMissing [of job jobs]
    by (auto split: if_splits)
  from False have pv: "poll_view job v ck jobs = (case (lost, jobs1) of
      (True, jobs1) \<Rightarrow> (untrack (tr_adapter job) (tr_clientJobID job) jobs1,
         [failed_event job (tr_title job) (''job is no longer known to '' @ tr_adapter job)])
    | (False, jobs1) \<Rightarrow> (case prevSample job jobs1 of (pb, pt) \<Rightarrow>
         (let v' = fillDerived v pb pt (ck_derive ck)
          in (observe job v' (ck_observe ck) jobs1, [progress_event job v']))))"
    unfolding poll_view_def m [symmetric] by (cases "jv_State v") simp_all
  show ?thesis
  proof (cases lost)
    case True
    with m have "jv_NativeState v = NotFoundState" "fst (markMissing job (ck_mark ck) jobs)"
      by (auto split: if_splits)
    with pv True assms False show ?thesis
      by (intro that(1) [OF k]) (auto simp: failed_event_def)
  next
    case lost: False
    with m have "jv_NativeState v = NotFoundState \<longrightarrow> \<not> fst (markMissing job (ck_mark ck) jobs)"
      by auto
    moreover obtain pb pt where "prevSample job jobs1 = (pb, pt)" by fastforce
    ultimately show ?thesis
      using pv lost assms False
      by (intro that(2) [where v' = "fillDerived v pb pt (ck_derive ck)"])
         (auto simp: Let_def intro: keeps_trans [OF k keeps_observe])
  qed
qed

lemma keeps_other: "keeps k a b \<Longrightarrow> k' \<noteq> k \<Longrightarrow> map_of b k' = map_of a k'"
  by (simp add: keeps_def touches_def)

section \<open>Properties\<close>

text \<open>C13: What one poll of a job does. Every other job stays as it is. A job whose client is no
  longer registered is dropped without an event, and a client that cannot be asked changes
  nothing. Otherwise exactly one event about this job is published: completed exactly when the
  client says so; with a completed or failed event the job is no longer tracked, with a
  progress event it is tracked as before.\<close>

theorem pollOne_effect:
  assumes "pollOne reg ck job jobs w = (jobs', evs, w')"
  shows "(\<forall>k. k \<noteq> key_of job \<longrightarrow> map_of jobs' k = map_of jobs k) \<and>
    (case Get reg (tr_adapter job) of
       None \<Rightarrow> evs = [] \<and> map_of jobs' (key_of job) = None
     | Some ad \<Rightarrow>
       (case fst (ad_Describe ad (tr_clientJobID job) w) of
          Inl e \<Rightarrow> evs = [] \<and> jobs' = jobs
        | Inr v \<Rightarrow>
          (\<exists>ev. evs = [ev] \<and> event_adapter ev = tr_adapter job \<and> event_client_id ev = tr_clientJobID job \<and>
            (kind_of ev = ''completed'' \<longleftrightarrow> jv_State v = StatusCompleted) \<and>
            (kind_of ev \<in> {''completed'', ''failed''} \<and> map_of jobs' (key_of job) = None \<or>
             kind_of ev = ''progress'' \<and> (map_of jobs' (key_of job) = None \<longleftrightarrow> map_of jobs (key_of job) = None)))))"
proof (cases "Get reg (tr_adapter job)")
  case None
  with assms show ?thesis by (auto simp: pollOne_def)
next
  case (Some ad)
  obtain r w1 where d: "ad_Describe ad (tr_clientJobID job) w = (r, w1)" by fastforce
  show ?thesis
  proof (cases r)
    case (Inl e)
    with Some d assms show ?thesis by (auto simp: pollOne_def)
  next
    case (Inr v)
    with Some d assms have pv: "poll_view job v ck jobs = (jobs', evs)"
      by (auto simp: pollOne_def split: prod.splits)
    from pv show ?thesis
    proof (cases rule: poll_view_cases)
      case (ended jobs1 ev)
      then show ?thesis using Some d Inr keeps_other [OF ended(1)]
        by (auto simp: completed_event_def failed_event_def)
    next
      case (goes_on v')
      then show ?thesis using Some d Inr keeps_other [OF goes_on(1)]
        by (auto simp: progress_event_def keeps_def)
    qed
  qed
qed

text \<open>A tracked job of the environment client, for evaluation.\<close>

definition demo_job :: tracked where
  "demo_job = adopted ''jdownloader'' ''jdownloader'' \<lparr>aj_ClientJobID = ''7'', aj_Title = ''t''\<rparr>"

definition demo_clock :: poll_clock where
  "demo_clock = \<lparr>ck_mark = 0, ck_derive = 0, ck_observe = 0\<rparr>"

theorem pollOne_effect_witness:
  "pollOne (empty_Registry :: unit Registry) demo_clock demo_job (track demo_job []) () = ([], [], ()) \<and>
   map_of ([] :: jobs) (key_of demo_job) = None"
proof -
  have p: "pollOne (empty_Registry :: unit Registry) demo_clock demo_job (track demo_job []) () = ([], [], ())"
    by (simp add: pollOne_def Get_def empty_Registry_def untrack_def track_def)
  from pollOne_effect [OF p] p show ?thesis by (simp add: Get_def empty_Registry_def)
qed

lemma poll_view_missing:
  assumes "map_of jobs (key_of job) = Some cur" "poll_view job v ck jobs = (jobs', evs)"
    "map_of jobs' (key_of job) = Some cur'"
  shows "jv_State v \<notin> {StatusCompleted, StatusFailed} \<and> tr_missingSince cur' =
    (if jv_NativeState v = NotFoundState
     then (case tr_missingSince cur of None \<Rightarrow> Some (ck_mark ck) | Some t \<Rightarrow> Some t) else None)"
  using assms
  by (auto simp: poll_view_def markMissing_def clearMissing_def prevSample_def observe_def map_of_update Let_def
      split: Status.splits if_splits option.splits prod.splits bool.splits)

text \<open>A poll that found the job neither ended nor known.\<close>

definition missing :: "JobView \<Rightarrow> bool" where
  "missing v \<longleftrightarrow> jv_State v \<notin> {StatusCompleted, StatusFailed} \<and> jv_NativeState v = NotFoundState"

definition poll_views :: "tracked \<Rightarrow> (JobView \<times> poll_clock) list \<Rightarrow> jobs \<Rightarrow> jobs" where
  "poll_views job obs jobs = foldl (\<lambda>js (v, ck). fst (poll_view job v ck js)) jobs obs"

lemma poll_views_snoc [simp]:
  "poll_views job [] jobs = jobs"
  "poll_views job (obs @ [(v, ck)]) jobs = fst (poll_view job v ck (poll_views job obs jobs))"
  by (simp_all add: poll_views_def)

lemma poll_view_tracked:
  "map_of (fst (poll_view job v ck jobs)) (key_of job) = Some cur' \<Longrightarrow> \<exists>cur. map_of jobs (key_of job) = Some cur"
proof -
  assume a: "map_of (fst (poll_view job v ck jobs)) (key_of job) = Some cur'"
  obtain jobs' evs where pv: "poll_view job v ck jobs = (jobs', evs)" by fastforce
  from pv show ?thesis
  proof (cases rule: poll_view_cases)
    case (goes_on v')
    with a pv show ?thesis by (auto simp: keeps_def)
  qed (use a pv in auto)
qed

lemma missing_since:
  assumes "map_of jobs (key_of job) = Some t0" "tr_missingSince t0 = None"
    "map_of (poll_views job obs jobs) (key_of job) = Some cur" "tr_missingSince cur = Some since"
  shows "\<exists>pre v ck mid. obs = pre @ (v, ck) # mid \<and> ck_mark ck = since \<and> missing v \<and> list_all (missing \<circ> fst) mid"
  using assms(3,4)
proof (induction obs arbitrary: cur rule: rev_induct)
  case Nil
  with assms(1,2) show ?case by simp
next
  case (snoc o1 obs)
  obtain v ck where o1: "o1 = (v, ck)" by fastforce
  let ?jobs = "poll_views job obs jobs"
  obtain jobs' evs where pv: "poll_view job v ck ?jobs = (jobs', evs)" by fastforce
  with snoc.prems o1 have cur: "map_of jobs' (key_of job) = Some cur" by simp
  with pv obtain prev where prev: "map_of ?jobs (key_of job) = Some prev"
    using poll_view_tracked [of job v ck ?jobs cur] by auto
  from poll_view_missing [OF prev pv cur] snoc.prems(2)
  have nf: "missing v" and ms: "(case tr_missingSince prev of None \<Rightarrow> Some (ck_mark ck) | Some t \<Rightarrow> Some t) = Some since"
    by (auto simp: missing_def split: if_splits)
  show ?case
  proof (cases "tr_missingSince prev")
    case None
    with ms nf o1 show ?thesis by (intro exI [of _ obs] exI [of _ v] exI [of _ ck] exI [of _ "[]"]) auto
  next
    case (Some t)
    with ms have "tr_missingSince prev = Some since" by simp
    from snoc.IH [OF prev this] obtain pre v0 ck0 mid where
      "obs = pre @ (v0, ck0) # mid" "ck_mark ck0 = since" "missing v0" "list_all (missing \<circ> fst) mid" by blast
    moreover from this o1 nf have "obs @ [o1] = pre @ (v0, ck0) # (mid @ [(v, ck)])"
      "list_all (missing \<circ> fst) (mid @ [(v, ck)])" by simp_all
    ultimately show ?thesis by blast
  qed
qed

text \<open>C14: A job is given up as lost only after its client has not known it for more than ten
  minutes without interruption. When a poll that finds the job missing drops it, there was an
  earlier poll, more than ten minutes before by the clock, since which every successful poll
  found it missing.\<close>

theorem lost_after_grace:
  assumes "map_of jobs (key_of job) = Some t0" "tr_missingSince t0 = None"
    "map_of (poll_views job obs jobs) (key_of job) \<noteq> None" "missing v"
    "map_of (fst (poll_view job v ck (poll_views job obs jobs))) (key_of job) = None"
  shows "\<exists>pre v1 ck1 mid. obs = pre @ (v1, ck1) # mid \<and> missing v1 \<and> list_all (missing \<circ> fst) mid \<and>
    10 * 60 * 10 ^ 9 < ck_mark ck - ck_mark ck1"
proof -
  let ?jobs = "poll_views job obs jobs"
  obtain cur where cur: "map_of ?jobs (key_of job) = Some cur" using assms(3) by auto
  obtain jobs' evs where pv: "poll_view job v ck ?jobs = (jobs', evs)" by fastforce
  from pv have "fst (markMissing job (ck_mark ck) ?jobs)"
  proof (cases rule: poll_view_cases)
    case (ended jobs1 ev)
    with assms(4) show ?thesis by (auto simp: missing_def)
  next
    case (goes_on v')
    with assms(5) pv cur show ?thesis by (auto simp: keeps_def)
  qed
  with cur obtain since where "tr_missingSince cur = Some since" "lostAfter < ck_mark ck - since"
    by (auto simp: markMissing_def split: option.splits)
  with missing_since [OF assms(1,2) cur] show ?thesis by (auto simp: lostAfter_def)
qed

definition demo_later :: poll_clock where
  "demo_later = demo_clock\<lparr>ck_mark := 601 * 10 ^ 9\<rparr>"

theorem lost_after_grace_witness:
  "map_of (fst (poll_view demo_job not_found_view demo_later
     (poll_views demo_job [(not_found_view, demo_clock)] (track demo_job [])))) (key_of demo_job) = None \<and>
   10 * 60 * 10 ^ 9 < ck_mark demo_later - ck_mark demo_clock"
proof -
  let ?jobs = "track demo_job []"
  have 1: "map_of ?jobs (key_of demo_job) = Some demo_job" by simp
  have 2: "tr_missingSince demo_job = None" by (simp add: demo_job_def adopted_def)
  have m: "missing not_found_view" by code_simp
  have 3: "map_of (poll_views demo_job [(not_found_view, demo_clock)] ?jobs) (key_of demo_job) \<noteq> None"
    "map_of (fst (poll_view demo_job not_found_view demo_later
       (poll_views demo_job [(not_found_view, demo_clock)] ?jobs))) (key_of demo_job) = None"
    by code_simp+
  from lost_after_grace [OF 1 2 3(1) m 3(2)] 3(2) show ?thesis
    by (auto simp: Cons_eq_append_conv)
qed



text \<open>Deriving a rate and a remaining time only fills gaps: a rate and a remaining time the
  client reported are kept, and nothing else of the snapshot changes.\<close>

theorem fillDerived_fills:
  "(0 < jv_SpeedBps v \<longrightarrow> jv_SpeedBps (fillDerived v pb pt now) = jv_SpeedBps v) \<and>
   (0 \<le> jv_EtaSec v \<longrightarrow> jv_EtaSec (fillDerived v pb pt now) = jv_EtaSec v) \<and>
   (fillDerived v pb pt now)\<lparr>jv_SpeedBps := jv_SpeedBps v, jv_EtaSec := jv_EtaSec v\<rparr> = v"
  by (auto simp: fillDerived_def Let_def split: option.splits)

theorem fillDerived_fills_witness:
  "jv_EtaSec (fillDerived (NewJobView\<lparr>jv_EtaSec := 5, jv_SpeedBps := 1, jv_BytesTotal := 9\<rparr>) 0 None 0) = 5"
  using fillDerived_fills [of "NewJobView\<lparr>jv_EtaSec := 5, jv_SpeedBps := 1, jv_BytesTotal := 9\<rparr>" 0 None 0]
  by simp

text \<open>A remaining time of \<open>2 ^ 31\<close> seconds or more is reported wrongly: the conversion to
  32 bits wraps. A download of 3 GB at one byte per second gets a negative remaining time.\<close>

theorem eta_wraps:
  "jv_EtaSec (fillDerived (NewJobView\<lparr>jv_SpeedBps := 1, jv_BytesTotal := 3000000000\<rparr>) 0 None 0) = 3000000000 \<and>
   optInt32 3000000000 = Some (- 1294967296)"
  by (simp add: fillDerived_def NewJobView_def go_quot_def optInt32_def wrap32_def wrap64_def)

lemma trackIfAbsent_keeps: "map_of jobs k = Some t \<Longrightarrow> map_of (snd (trackIfAbsent u jobs)) k = Some t"
  by (auto simp: trackIfAbsent_def map_of_update split: option.splits)

lemma adopt_jobs_keeps: "map_of jobs k = Some t \<Longrightarrow> map_of (adopt_jobs cid ctype js jobs) k = Some t"
  unfolding adopt_jobs_def by (induction js arbitrary: jobs) (simp_all add: trackIfAbsent_keeps)

lemma adopt_jobs_new:
  "map_of jobs k = None \<Longrightarrow> map_of (adopt_jobs cid ctype js jobs) k = Some t \<Longrightarrow>
     \<exists>j \<in> set js. t = adopted cid ctype j"
  unfolding adopt_jobs_def
proof (induction js arbitrary: jobs)
  case (Cons j js)
  let ?jobs = "snd (trackIfAbsent (adopted cid ctype j) jobs)"
  show ?case
  proof (cases "map_of ?jobs k")
    case None
    with Cons.IH [OF None] Cons.prems(2) show ?thesis by auto
  next
    case (Some u)
    with Cons.prems(1) have "u = adopted cid ctype j"
      by (auto simp: trackIfAbsent_def map_of_update split: option.splits if_splits)
    moreover have "map_of (adopt_jobs cid ctype js ?jobs) k = Some u" using Some by (rule adopt_jobs_keeps)
    ultimately show ?thesis using Cons.prems(2) by (simp add: adopt_jobs_def)
  qed
qed simp

lemma jobs_wf_adopt_jobs: "jobs_wf jobs \<Longrightarrow> jobs_wf (adopt_jobs cid ctype js jobs)"
  unfolding adopt_jobs_def
proof (induction js arbitrary: jobs)
  case (Cons j js)
  have "jobs_wf (snd (trackIfAbsent (adopted cid ctype j) jobs))"
    using Cons.prems jobs.wf_put [of jobs "adopted cid ctype j"]
    by (auto simp: trackIfAbsent_def track_def split: option.splits)
  then show ?case using Cons.IH by simp
qed simp

lemma adopt_effect:
  assumes "reg_wf reg" "adopt cid reg jobs w = (reg', jobs', w')"
  shows "(\<forall>k t. map_of jobs k = Some t \<longrightarrow> map_of jobs' k = Some t) \<and>
    (\<forall>k t. map_of jobs k = None \<longrightarrow> map_of jobs' k = Some t \<longrightarrow>
       (\<exists>c Adopt js j. Lookup reg cid = Some c \<and> ad_Rehydrator (cl_Adapter c) = Some Adopt \<and>
          Adopt w = (Inr js, w') \<and> j \<in> set js \<and> t = adopted cid (cl_Type c) j)) \<and>
    r_clients reg' = r_clients reg \<and> lease_count reg' = lease_count reg"
proof (cases cid reg rule: Lease_cases)
  case (leased e)
  let ?r = "snd (Lease cid reg)"
  have L: "lease_count (release cid ?r) = lease_count reg" "r_clients (release cid ?r) = r_clients reg"
    using lease_release [OF assms(1), of cid] leased(3) by simp_all
  have reg': "reg' = release cid ?r" using assms(2) leased
    by (auto simp: adopt_def split: option.splits prod.splits sum.splits)
  show ?thesis
  proof (cases "\<exists>Adopt js. ad_Rehydrator (e_adapter e) = Some Adopt \<and> Adopt w = (Inr js, w')")
    case True
    then obtain Adopt js where ad: "ad_Rehydrator (e_adapter e) = Some Adopt" "Adopt w = (Inr js, w')" by blast
    let ?c = "entry_client e"
    have c: "Lookup reg cid = Some ?c" "ad_Rehydrator (cl_Adapter ?c) = Some Adopt"
      using ad leased(1) by (simp_all add: Lookup_def entry_client_def)
    have jobs': "jobs' = adopt_jobs cid (cl_Type ?c) js jobs"
      using assms(2) leased ad by (auto simp: adopt_def entry_client_def)
    have "\<exists>c Adopt js j. Lookup reg cid = Some c \<and> ad_Rehydrator (cl_Adapter c) = Some Adopt \<and>
        Adopt w = (Inr js, w') \<and> j \<in> set js \<and> t = adopted cid (cl_Type c) j"
      if "map_of jobs k = None" "map_of jobs' k = Some t" for k t
      using adopt_jobs_new [OF that(1) that(2) [unfolded jobs']] c ad(2) by blast
    then show ?thesis using adopt_jobs_keeps [of jobs] reg' L unfolding jobs' by simp
  next
    case False
    then have "jobs' = jobs" using assms(2) leased
      by (auto simp: adopt_def entry_client_def split: option.splits prod.splits sum.splits)
    then show ?thesis using reg' L by simp
  qed
qed (use assms in \<open>auto simp: adopt_def\<close>)

lemma adopt_wf:
  assumes "reg_wf reg" "jobs_wf jobs" "adopt cid reg jobs w = (reg', jobs', w')"
  shows "reg_wf reg' \<and> jobs_wf jobs'"
  using assms reg_wf_Lease [OF assms(1), of cid]
  by (auto simp: adopt_def reg_wf_release jobs_wf_adopt_jobs split: prod.splits sum.splits option.splits)

text \<open>C18: Adoption never touches a job that is tracked: its state and its wanted item survive, and
  the job map keeps each job once, under its own key. What it adds are jobs of the adopted client
  that the client itself listed, in their initial state, and the lease it took is given back.\<close>

theorem adopt_preserves:
  assumes "reg_wf reg" "jobs_wf jobs" "adopt cid reg jobs w = (reg', jobs', w')"
  shows "jobs_wf jobs' \<and>
    (\<forall>k t. map_of jobs k = Some t \<longrightarrow> map_of jobs' k = Some t) \<and>
    (\<forall>k t. map_of jobs k = None \<longrightarrow> map_of jobs' k = Some t \<longrightarrow>
       (\<exists>c Adopt js j. Lookup reg cid = Some c \<and> ad_Rehydrator (cl_Adapter c) = Some Adopt \<and>
          Adopt w = (Inr js, w') \<and> j \<in> set js \<and> t = adopted cid (cl_Type c) j)) \<and>
    r_clients reg' = r_clients reg \<and> lease_count reg' = lease_count reg"
  using adopt_effect [OF assms(1,3)] adopt_wf [OF assms] by simp

text \<open>A client with one job in flight.\<close>

definition demo_adopting :: "unit Registry" where
  "demo_adopting = NewRegistry [Some (demo_adapter\<lparr>ad_Rehydrator :=
     Some (\<lambda>w. (Inr [\<lparr>aj_ClientJobID = ''7'', aj_Title = ''again''\<rparr>, \<lparr>aj_ClientJobID = ''8'', aj_Title = ''n''\<rparr>], w))\<rparr>)]"

theorem adopt_preserves_witness:
  "\<exists>reg' jobs' w'. adopt ''jdownloader'' demo_adopting (track demo_job []) () = (reg', jobs', w') \<and>
     map_of jobs' (key_of demo_job) = Some demo_job \<and> length jobs' = 2"
proof -
  obtain reg' jobs' w' where a: "adopt ''jdownloader'' demo_adopting (track demo_job []) () = (reg', jobs', w')"
    by (rule prod_cases3)
  have "map_of (track demo_job []) (key_of demo_job) = Some demo_job" by simp
  moreover have "length (fst (snd (adopt ''jdownloader'' demo_adopting (track demo_job []) ()))) = 2" by code_simp
  moreover have "reg_wf demo_adopting" by (simp add: demo_adopting_def reg_wf_NewRegistry)
  moreover have "jobs_wf (track demo_job [])" by (rule jobs.wf_put) simp
  ultimately show ?thesis using adopt_preserves [OF _ _ a] a by auto
qed

text \<open>C19: The budget of large adds is never exceeded: a body is admitted only with the bytes it
  may need, the total stays within the budget, and a body is refused only when it does not fit.
  Two bodies of the largest size always fit.\<close>

theorem admitAdd_budget:
  assumes "0 \<le> inFlight" "inFlight \<le> addBodyBudget"
  shows "(case admitAdd n inFlight of
            Some (reserved, total') \<Rightarrow>
              0 \<le> reserved \<and> reserved \<le> maxAddBody \<and> total' = inFlight + reserved \<and> total' \<le> addBodyBudget \<and>
              (smallAddBody < n \<and> n \<le> maxAddBody \<longrightarrow> reserved = n) \<and>
              admitRelease reserved total' = inFlight
          | None \<Rightarrow> addBodyBudget < inFlight + maxAddBody) \<and>
         (inFlight \<le> maxAddBody \<longrightarrow> admitAdd n inFlight \<noteq> None)"
  using assms
  by (auto simp: admitAdd_def admitRelease_def Let_def smallAddBody_def addBodyBudget_def maxAddBody_def
      maxPayload_def split: option.splits if_splits)

theorem admitAdd_budget_witness:
  "admitAdd (-1) 0 = Some (maxAddBody, maxAddBody) \<and> admitAdd (-1) maxAddBody \<noteq> None \<and>
   admitAdd (-1) addBodyBudget = None"
  using admitAdd_budget [of 0 "-1"] admitAdd_budget [of maxAddBody "-1"]
  by (simp add: admitAdd_def addBodyBudget_def maxAddBody_def maxPayload_def)

end
