(* ===== verification/Handlers.thy ===== *)
theory Handlers
  imports Tracker
begin

text \<open>
  The HTTP handlers of the gateway (cmd/server/main.go). A handler is a function of the
  request, the gateway and the world; it answers with a status code, the header it sets
  beside the content type, and a body given by its fields before JSON encoding, and it
  returns the events it published. A handler runs while others run; it is one function here,
  and the theory of the whole system splits it at the points where others come in between.
\<close>

record 'w gateway =
  gw_reg :: "'w Registry"
  gw_jobs :: jobs
  gw_inFlight :: int
  gw_stopping :: bool
  gw_bg :: "string list"     \<comment> \<open>adoptions started by pushes that have not run yet\<close>

definition newGateway :: "'w Registry \<Rightarrow> 'w gateway" where
  "newGateway reg = \<lparr>gw_reg = reg, gw_jobs = [], gw_inFlight = 0, gw_stopping = False, gw_bg = []\<rparr>"

record request =
  q_adapter :: string         \<comment> \<open>URL parameter\<close>
  q_id :: string              \<comment> \<open>URL parameter\<close>
  q_Authorization :: string
  q_ContentLength :: int
  q_Body :: bytes

record jobDTO =
  jd_Adapter :: string
  jd_ClientJobID :: string
  jd_WantedItemID :: string
  jd_Title :: string
  jd_State :: string
  jd_NativeState :: string
  jd_ProgressPct :: rat
  jd_Downloaded :: int
  jd_SizeBytes :: "int option"
  jd_SpeedBps :: int
  jd_EtaSec :: "int option"
  jd_Seeders :: "int option"
  jd_Leechers :: "int option"
  jd_Health :: "int option"

record configTestResponse =
  ct_Reachable :: bool
  ct_Version :: string
  ct_Error :: string
  ct_Status :: ClientStatus

datatype body =
    NoBody
  | Text string                                           \<comment> \<open>plain text, from \<open>http.Error\<close>\<close>
  | Fields "(string \<times> string) list"                      \<comment> \<open>an object of strings\<close>
  | Ids "string list"
  | Jobs "jobDTO list"
  | Described jobDTO "string list option" string                 \<comment> \<open>describeDTO: Files and Message\<close>
  | Statuses "ClientStatus list"
  | TypeList "TypeInfo list"
  | ClientList int "ClientInfo list"
  | ApplyReport int "string list" "ApplyError list"
  | TestReport configTestResponse

record response =
  rp_Code :: int
  rp_RetryAfter :: "string option"
  rp_Body :: body

definition writeJSON :: "int \<Rightarrow> body \<Rightarrow> response" where
  "writeJSON code b = \<lparr>rp_Code = code, rp_RetryAfter = None, rp_Body = b\<rparr>"

definition writeError :: "int \<Rightarrow> string \<Rightarrow> response" where
  "writeError code msg = writeJSON code (Fields [(''error'', msg)])"


section \<open>Reading a body\<close>

text \<open>
  A decoder of a JSON value, with the one error the code tells apart: \<open>Inl True\<close> is a
  \<open>base64.CorruptInputError\<close>, \<open>Inl False\<close> any other.
\<close>

definition decodeJSON :: "bytes \<Rightarrow> int \<Rightarrow> (json \<Rightarrow> bool + 'a) \<Rightarrow> response + 'a" where
  "decodeJSON bdy limit dec =
     (let tooLarge = writeError 413 (''request body exceeds '' @ itoa (limit div 2 ^ 20) @ '' MiB'');
          corrupt = writeError 400 ''payload_b64 is not valid base64'';
          invalid = writeError 400 ''invalid JSON body''
      in case scan_json (take (nat limit) bdy) of
           Scanned v _ \<Rightarrow>
             (case dec v of Inr r \<Rightarrow> Inr r | Inl True \<Rightarrow> Inl corrupt | Inl False \<Rightarrow> Inl invalid)
         | Scan_eof \<Rightarrow> Inl (if limit < int (length bdy) then tooLarge else invalid)
         | Scan_syntax \<Rightarrow> Inl invalid)"

record addRequest =
  rq_Adapter :: string
  rq_Client :: string
  rq_Source :: string
  rq_Title :: string
  rq_SavePath :: string
  rq_WantedItemID :: string
  rq_Payload :: bytes
  rq_PayloadName :: string
  rq_Category :: string

definition zero_addRequest :: addRequest where
  "zero_addRequest = \<lparr>rq_Adapter = '''', rq_Client = '''', rq_Source = '''', rq_Title = '''', rq_SavePath = '''',
     rq_WantedItemID = '''', rq_Payload = [], rq_PayloadName = '''', rq_Category = ''''\<rparr>"

text \<open>A \<open>[]byte\<close> field: base64 text, or an array of numbers below 256; \<open>null\<close> is nil.\<close>

definition dec_byte :: "json \<Rightarrow> char option" where
  "dec_byte v = (case dec_int64 v 0 of Some n \<Rightarrow> if 0 \<le> n \<and> n < 256 then Some (byte_of (nat n)) else None
     | None \<Rightarrow> None)"

definition dec_bytes :: "json \<Rightarrow> bytes option" where
  "dec_bytes v = (case v of JStr s \<Rightarrow> b64_decode s | _ \<Rightarrow> dec_list dec_byte v)"

definition addRequest_fields :: "addRequest field list" where
  "addRequest_fields =
     [string_field ''adapter'' rq_Adapter rq_Adapter_update,
      string_field ''client'' rq_Client rq_Client_update,
      string_field ''source'' rq_Source rq_Source_update,
      string_field ''title'' rq_Title rq_Title_update,
      string_field ''save_path'' rq_SavePath rq_SavePath_update,
      string_field ''wanted_item_id'' rq_WantedItemID rq_WantedItemID_update,
      (''payload_b64'', \<lambda>v r. map_option (\<lambda>b. r\<lparr>rq_Payload := b\<rparr>) (dec_bytes v)),
      string_field ''payload_name'' rq_PayloadName rq_PayloadName_update,
      string_field ''category'' rq_Category rq_Category_update]"

text \<open>The first member that does not fit its field decides the error.\<close>

fun first_error :: "(string \<times> json) list \<Rightarrow> bool" where
  "first_error [] = False"
| "first_error ((k, v) # ms) =
     (case find_field addRequest_fields k of
        None \<Rightarrow> first_error ms
      | Some f \<Rightarrow>
        (case f v zero_addRequest of
           Some _ \<Rightarrow> first_error ms
         | None \<Rightarrow> fold_key k = fold_key ''payload_b64'' \<and> (case v of JStr _ \<Rightarrow> True | _ \<Rightarrow> False)))"

definition dec_addRequest :: "json \<Rightarrow> bool + addRequest" where
  "dec_addRequest v =
     (case dec_struct addRequest_fields zero_addRequest v of
        Some r \<Rightarrow> Inr r
      | None \<Rightarrow> Inl (case v of JObj ms \<Rightarrow> first_error ms | _ \<Rightarrow> False))"


section \<open>Adding a download\<close>

definition add_job :: "addRequest \<Rightarrow> 'w Client \<Rightarrow> Job" where
  "add_job req c =
     \<lparr>job_ID = rq_WantedItemID req, job_Source = rq_Source req,
      job_SavePath = (if rq_SavePath req = '''' then cl_SavePath c else rq_SavePath req),
      job_Title = rq_Title req,
      job_Category = (if rq_Category req = '''' then cl_Category c else rq_Category req),
      job_Payload = rq_Payload req, job_PayloadName = rq_PayloadName req\<rparr>"

definition added :: "string \<Rightarrow> 'w Client \<Rightarrow> addRequest \<Rightarrow> string \<Rightarrow> tracked" where
  "added cid c req clientJobID =
     \<lparr>tr_adapter = cid, tr_clientType = cl_Type c, tr_clientJobID = clientJobID,
      tr_title = rq_Title req, tr_wantedItemID = rq_WantedItemID req, tr_last = StatusQueued,
      tr_view = NewJobView, tr_lastBytes = 0, tr_lastAt = None, tr_missingSince = None\<rparr>"

definition started_event :: "string \<Rightarrow> 'w Client \<Rightarrow> addRequest \<Rightarrow> string \<Rightarrow> event" where
  "started_event cid c req clientJobID =
     EvStarted \<lparr>sr_ClientID = clientJobID, sr_Adapter = cid, sr_ClientType = cl_Type c,
       sr_WantedItemID = rq_WantedItemID req, sr_Title = rq_Title req, sr_SizeBytes = None,
       sr_StartedAt = 0\<rparr>"

text \<open>The part of \<open>handleAdd\<close> that runs under the lease: the answer, the jobs and the events.\<close>

definition add_leased ::
  "(nat \<Rightarrow> bool) \<Rightarrow> string \<Rightarrow> 'w Client \<Rightarrow> addRequest \<Rightarrow> jobs \<Rightarrow> 'w \<Rightarrow> response \<times> jobs \<times> event list \<times> 'w" where
  "add_leased up cid c req jobs w =
     (let noPayload = writeError 400 (cl_Type c @ '' does not accept a payload; send a source link'') in
      if (case LookupType (cl_Type c) of Some ti \<Rightarrow> rq_Payload req \<noteq> [] \<and> \<not> ty_AcceptsPayload ti | None \<Rightarrow> False)
      then (noPayload, jobs, [], w)
      else
        (case ad_Add (cl_Adapter c) (add_job req c) w of
           (Inl e, w') \<Rightarrow>
             if e = ErrPayloadUnsupported then (noPayload, jobs, [], w')
             else (writeError 502 (PublicError up (Some e)), jobs, [], w')
         | (Inr clientJobID, w') \<Rightarrow>
             (writeJSON 202 (Fields [(''adapter'', cid), (''client'', cid), (''client_job_id'', clientJobID)]),
              track (added cid c req clientJobID) jobs, [started_event cid c req clientJobID], w')))"

definition add_target :: "addRequest \<Rightarrow> response + string" where
  "add_target req =
     (let cid = (if rq_Client req = '''' then rq_Adapter req else rq_Client req) in
      if rq_Client req \<noteq> '''' \<and> rq_Adapter req \<noteq> '''' \<and> rq_Client req \<noteq> rq_Adapter req
      then Inl (writeError 400 ''client and adapter name different clients'')
      else if cid = '''' \<or> rq_Source req = '''' \<and> rq_Payload req = []
      then Inl (writeError 400 ''client (or adapter) and source or payload_b64 are required'')
      else Inr cid)"

definition lease_error :: "(nat \<Rightarrow> bool) \<Rightarrow> string \<Rightarrow> go_error \<Rightarrow> response" where
  "lease_error up cid e =
     (if e = ErrUnknownClient then writeError 404 (''no such client: '' @ cid)
      else if e = ErrClientDraining
      then writeError 409 (''client '' @ cid @ '' was removed and accepts no new downloads'')
      else writeError 500 (Error up e))"

definition handleAdd ::
  "(nat \<Rightarrow> bool) \<Rightarrow> request \<Rightarrow> 'w gateway \<Rightarrow> 'w \<Rightarrow> response \<times> 'w gateway \<times> event list \<times> 'w" where
  "handleAdd up rq g w =
     (case admitAdd (q_ContentLength rq) (gw_inFlight g) of
        None \<Rightarrow>
          ((writeError 429 ''too many large adds in progress; retry shortly'')\<lparr>rp_RetryAfter := Some ''5''\<rparr>, g, [], w)
      | Some (reserved, inFlight) \<Rightarrow>
        (let g1 = g\<lparr>gw_inFlight := inFlight\<rparr>;
             done = \<lambda>resp g' evs w'.
               (resp, g'\<lparr>gw_inFlight := admitRelease reserved (gw_inFlight g')\<rparr>, evs, w')
         in case decodeJSON (q_Body rq) maxAddBody dec_addRequest of
              Inl resp \<Rightarrow> done resp g1 [] w
            | Inr req \<Rightarrow>
              (case add_target req of
                 Inl resp \<Rightarrow> done resp g1 [] w
               | Inr cid \<Rightarrow>
                 (case Lease cid (gw_reg g1) of
                    (Inl e, reg) \<Rightarrow> done (lease_error up cid e) (g1\<lparr>gw_reg := reg\<rparr>) [] w
                  | (Inr c, reg) \<Rightarrow>
                    (case add_leased up cid c req (gw_jobs g1) w of
                       (resp, jobs, evs, w') \<Rightarrow>
                         done resp (g1\<lparr>gw_reg := release cid reg, gw_jobs := jobs\<rparr>) evs w')))))"


section \<open>The other handlers\<close>

definition handleRemove ::
  "(nat \<Rightarrow> bool) \<Rightarrow> request \<Rightarrow> 'w gateway \<Rightarrow> 'w \<Rightarrow> response \<times> 'w gateway \<times> 'w" where
  "handleRemove up rq g w =
     (case Get (gw_reg g) (q_adapter rq) of
        None \<Rightarrow> (writeError 404 ''no such client'', g, w)
      | Some ad \<Rightarrow>
        (case ad_Remove ad (q_id rq) w of
           (Some e, w') \<Rightarrow> (writeError 502 (PublicError up (Some e)), g, w')
         | (None, w') \<Rightarrow>
           (writeJSON 204 NoBody, g\<lparr>gw_jobs := untrack (q_adapter rq) (q_id rq) (gw_jobs g)\<rparr>, w')))"

text \<open>The fields of a DTO that come from a snapshot.\<close>

definition view_DTO :: "string \<Rightarrow> string \<Rightarrow> string \<Rightarrow> string \<Rightarrow> Status \<Rightarrow> JobView \<Rightarrow> jobDTO" where
  "view_DTO adapter clientJobID wanted title state v =
     \<lparr>jd_Adapter = adapter, jd_ClientJobID = clientJobID, jd_WantedItemID = wanted, jd_Title = title,
      jd_State = Status_string state, jd_NativeState = jv_NativeState v,
      jd_ProgressPct = pct (jv_BytesDone v) (jv_BytesTotal v), jd_Downloaded = jv_BytesDone v,
      jd_SizeBytes = optInt64 (jv_BytesTotal v), jd_SpeedBps = jv_SpeedBps v,
      jd_EtaSec = optInt32 (jv_EtaSec v), jd_Seeders = optCount (jv_Seeders v),
      jd_Leechers = optCount (jv_Leechers v), jd_Health = optCount (jv_Health v)\<rparr>"

definition handleList :: "'w gateway \<Rightarrow> response" where
  "handleList g =
     writeJSON 200 (Jobs (map (\<lambda>(k, t).
       view_DTO (tr_adapter t) (tr_clientJobID t) (tr_wantedItemID t) (titleOf t (tr_view t)) (tr_last t) (tr_view t))
       (gw_jobs g)))"

definition handleDescribe ::
  "(nat \<Rightarrow> bool) \<Rightarrow> request \<Rightarrow> 'w gateway \<Rightarrow> 'w \<Rightarrow> response \<times> 'w" where
  "handleDescribe up rq g w =
     (let name = q_adapter rq; jid = q_id rq in
      case Get (gw_reg g) name of
        None \<Rightarrow> (writeError 404 ''no such client'', w)
      | Some ad \<Rightarrow>
        (case ad_Describe ad jid w of
           (Inl e, w') \<Rightarrow> (writeError 502 (PublicError up (Some e)), w')
         | (Inr v, w') \<Rightarrow>
           if jv_NativeState v = NotFoundState
           then (writeJSON 404 (Fields [(''error'', name @ '' does not know job '' @ jid), (''adapter'', name),
                   (''client_job_id'', jid), (''native_state'', NotFoundState)]), w')
           else
             (let (wanted, title) =
                (case map_of (gw_jobs g) (job_key name jid) of
                   Some t \<Rightarrow> (tr_wantedItemID t, titleOf t v) | None \<Rightarrow> ('''', jv_Title v))
              in (writeJSON 200 (Described (view_DTO name jid wanted title (jv_State v) v) (jv_Files v) (jv_Message v)), w'))))"

definition handleControl ::
  "(nat \<Rightarrow> bool) \<Rightarrow> string \<Rightarrow> request \<Rightarrow> 'w gateway \<Rightarrow> 'w \<Rightarrow> response \<times> 'w" where
  "handleControl up action rq g w =
     (case Get (gw_reg g) (q_adapter rq) of
        None \<Rightarrow> (writeError 404 ''no such client'', w)
      | Some ad \<Rightarrow>
        (case ad_Controller ad of
           None \<Rightarrow> (writeError 501 (q_adapter rq @ '' cannot '' @ action), w)
         | Some ctrl \<Rightarrow>
           (case (if action = ''pause'' then ctl_Pause ctrl (q_id rq) w else ctl_Resume ctrl (q_id rq) w) of
              (Some e, w') \<Rightarrow> (writeError 502 (PublicError up (Some e)), w')
            | (None, w') \<Rightarrow> (writeJSON 204 NoBody, w'))))"

fun client_statuses :: "'w Client list \<Rightarrow> 'w \<Rightarrow> ClientStatus list \<times> 'w" where
  "client_statuses [] w = ([], w)"
| "client_statuses (c # cs) w =
     (case (case ad_Reporter (cl_Adapter c) of
              Some rep \<Rightarrow> rep w
            | None \<Rightarrow> ((NamedStatus (ad_Name (cl_Adapter c)))\<lparr>cs_Error := ''status not supported by this adapter''\<rparr>, w)) of
        (st, w1) \<Rightarrow>
          (case client_statuses cs w1 of
             (sts, w2) \<Rightarrow> (st\<lparr>cs_ID := cl_ID c, cs_Type := cl_Type c\<rparr> # sts, w2)))"

definition handleClientStatus :: "'w gateway \<Rightarrow> 'w \<Rightarrow> response \<times> 'w" where
  "handleClientStatus g w =
     (case client_statuses (Active (gw_reg g)) w of (sts, w') \<Rightarrow> (writeJSON 200 (Statuses sts), w'))"

definition handleReady :: "bool \<Rightarrow> 'w gateway \<Rightarrow> response" where
  "handleReady pubReady g =
     (if gw_stopping g \<or> \<not> pubReady then writeJSON 503 (Fields [(''status'', ''not ready'')])
      else writeJSON 200 (Fields [(''status'', ''ready'')]))"

definition handleClients :: "'w gateway \<Rightarrow> response" where
  "handleClients g = writeJSON 200 (Ids (Names (gw_reg g)))"


section \<open>Properties\<close>

lemma response_codes [simp]:
  "rp_Code (writeJSON n b) = n" "rp_Code (writeError n m) = n" "rp_Code (r\<lparr>rp_RetryAfter := x\<rparr>) = rp_Code r"
  by (simp_all add: writeJSON_def writeError_def)

lemma decodeJSON_take [code]:
  "decodeJSON bdy limit dec =
     (case scan_json (if int (length bdy) \<le> limit then bdy else take (nat limit) bdy) of
        Scanned v _ \<Rightarrow>
          (case dec v of Inr r \<Rightarrow> Inr r
           | Inl True \<Rightarrow> Inl (writeError 400 ''payload_b64 is not valid base64'')
           | Inl False \<Rightarrow> Inl (writeError 400 ''invalid JSON body''))
      | Scan_eof \<Rightarrow> Inl (if limit < int (length bdy)
          then writeError 413 (''request body exceeds '' @ itoa (limit div 2 ^ 20) @ '' MiB'')
          else writeError 400 ''invalid JSON body'')
      | Scan_syntax \<Rightarrow> Inl (writeError 400 ''invalid JSON body''))"
proof -
  have "(if int (length bdy) \<le> limit then bdy else take (nat limit) bdy) = take (nat limit) bdy"
    by auto
  then show ?thesis unfolding decodeJSON_def Let_def by (simp only:)
qed

lemma decodeJSON_code: "decodeJSON bdy limit dec = Inl resp \<Longrightarrow> rp_Code resp \<in> {400, 413}"
  by (auto simp: decodeJSON_def Let_def split: scan.splits sum.splits bool.splits if_splits)

lemma add_target_code: "add_target req = Inl resp \<Longrightarrow> rp_Code resp = 400"
  by (auto simp: add_target_def Let_def split: if_splits)

lemma lease_error_code: "rp_Code (lease_error up cid e) \<in> {404, 409, 500}"
  by (simp add: lease_error_def)

lemma add_leased_cases:
  assumes "add_leased up cid c req jobs w = (resp, jobs', evs, w')"
  obtains (accepted) jid where "ad_Add (cl_Adapter c) (add_job req c) w = (Inr jid, w')"
      "resp = writeJSON 202 (Fields [(''adapter'', cid), (''client'', cid), (''client_job_id'', jid)])"
      "jobs' = track (added cid c req jid) jobs" "evs = [started_event cid c req jid]"
  | (refused) "rp_Code resp \<in> {400, 502}" "jobs' = jobs" "evs = []"
      "w' = w \<or> (\<exists>e. ad_Add (cl_Adapter c) (add_job req c) w = (Inl e, w'))"
proof (cases "ad_Add (cl_Adapter c) (add_job req c) w")
  case (Pair res w1)
  with assms accepted refused show thesis
    by (cases res) (auto simp: add_leased_def Let_def split: if_splits option.splits)
qed


text \<open>C5: What an add does. It always gives given what it took: the registered clients, the
  lease counts and the bytes reserved are as before. It is answered with 202 exactly when the
  client it names is registered and not draining and that client accepted the job; then the
  job is tracked under the client's id and one started event is published. On every other
  answer no job and no event appears, and if the client was called at all it refused.\<close>

theorem handleAdd_effect:
  assumes "reg_wf (gw_reg g)" "handleAdd up rq g w = (resp, g', evs, w')"
  shows "r_clients (gw_reg g') = r_clients (gw_reg g) \<and> lease_count (gw_reg g') = lease_count (gw_reg g) \<and>
    gw_inFlight g' = gw_inFlight g \<and>
    (if rp_Code resp = 202
     then \<exists>req cid e jid. decodeJSON (q_Body rq) maxAddBody dec_addRequest = Inr req \<and>
            add_target req = Inr cid \<and> map_of (r_clients (gw_reg g)) cid = Some e \<and> \<not> e_draining e \<and>
            ad_Add (e_adapter e) (add_job req (entry_client e)) w = (Inr jid, w') \<and>
            gw_jobs g' = track (added cid (entry_client e) req jid) (gw_jobs g) \<and>
            evs = [started_event cid (entry_client e) req jid]
     else gw_jobs g' = gw_jobs g \<and> evs = [] \<and>
       (w' = w \<or> (\<exists>cid e job err. map_of (r_clients (gw_reg g)) cid = Some e \<and> \<not> e_draining e \<and>
                     ad_Add (e_adapter e) job w = (Inl err, w'))))"
proof (cases "admitAdd (q_ContentLength rq) (gw_inFlight g)")
  case None
  then show ?thesis using assms by (auto simp: handleAdd_def)
next
  case (Some p)
  obtain reserved inFlight where p: "p = (reserved, inFlight)" by (cases p)
  have given: "admitRelease reserved inFlight = gw_inFlight g"
    using Some p by (auto simp: admitAdd_def admitRelease_def Let_def split: if_splits)
  consider (bad) resp0 where "decodeJSON (q_Body rq) maxAddBody dec_addRequest = Inl resp0"
    | (target) req resp0 where "decodeJSON (q_Body rq) maxAddBody dec_addRequest = Inr req" "add_target req = Inl resp0"
    | (ok) req cid where "decodeJSON (q_Body rq) maxAddBody dec_addRequest = Inr req" "add_target req = Inr cid"
    by (metis sum.exhaust)
  then show ?thesis
  proof cases
    case bad
    then show ?thesis using assms Some p given decodeJSON_code [OF bad] by (auto simp: handleAdd_def)
  next
    case target
    then show ?thesis using assms Some p given add_target_code [OF target(2)] by (auto simp: handleAdd_def)
  next
    case ok
    note run = assms(2) [unfolded handleAdd_def Some p, simplified, unfolded ok, simplified, unfolded ok, simplified]
    show ?thesis
    proof (cases cid "gw_reg g" rule: Lease_cases)
      case (leased e)
      obtain resp1 jobs1 evs1 w1 where run1: "add_leased up cid (entry_client e) req (gw_jobs g) w = (resp1, jobs1, evs1, w1)"
        by (metis prod_cases4)
      have r: "resp = resp1" "evs = evs1" "w' = w1" "gw_jobs g' = jobs1" "gw_inFlight g' = gw_inFlight g"
        "gw_reg g' = release cid (snd (Lease cid (gw_reg g)))"
        using run leased run1 given by auto
      have same: "r_clients (gw_reg g') = r_clients (gw_reg g)" "lease_count (gw_reg g') = lease_count (gw_reg g)"
        using lease_release [OF assms(1), of cid] leased(3) by (simp_all add: r(6))
      from run1 show ?thesis
      proof (cases rule: add_leased_cases)
        case (accepted jid)
        then show ?thesis using r(1-5) leased(1,2) same ok by (auto simp: entry_client_def)
      next
        case refused
        then have "w' = w \<or> (\<exists>cid e job err. map_of (r_clients (gw_reg g)) cid = Some e \<and> \<not> e_draining e \<and>
            ad_Add (e_adapter e) job w = (Inl err, w'))"
          using r(3) leased(1,2) by (auto simp: entry_client_def)
        then show ?thesis using refused(1-3) r(1-5) same by auto
      qed
    qed (use run given lease_error_code in \<open>auto simp: lease_error_def\<close>)
  qed
qed

text \<open>A client that accepts every job, and a request to it.\<close>

definition demo_accepting :: "unit Registry" where
  "demo_accepting = NewRegistry [Some (demo_adapter\<lparr>ad_Add := \<lambda>j w. (Inr ''42'', w)\<rparr>)]"

definition demo_add :: request where
  \<open>demo_add = \<lparr>q_adapter = '''', q_id = '''', q_Authorization = '''', q_ContentLength = 37,
     q_Body = ''{"client":"jdownloader","source":"u"}''\<rparr>\<close>

theorem handleAdd_effect_witness:
  "(case handleAdd (\<lambda>_. True) demo_add (newGateway demo_accepting) () of
      (resp, g', evs, w') \<Rightarrow> rp_Code resp = 202 \<and> map_of (gw_jobs g') ''jdownloader:42'' \<noteq> None \<and>
        lease_count (gw_reg g') ''jdownloader'' = 0 \<and> length evs = 1)"
proof -
  obtain resp g' evs w' where h: "handleAdd (\<lambda>_. True) demo_add (newGateway demo_accepting) () = (resp, g', evs, w')"
    by (metis prod_cases4)
  have "rp_Code (fst (handleAdd (\<lambda>_. True) demo_add (newGateway demo_accepting) ())) = 202"
    "lease_count demo_accepting ''jdownloader'' = 0"
    "map_of (gw_jobs (fst (snd (handleAdd (\<lambda>_. True) demo_add (newGateway demo_accepting) ())))) ''jdownloader:42'' \<noteq> None"
    by code_simp+
  moreover have "reg_wf (gw_reg (newGateway demo_accepting))"
    by (simp add: newGateway_def demo_accepting_def reg_wf_NewRegistry)
  ultimately show ?thesis using handleAdd_effect [OF _ h] h by (auto simp: newGateway_def)
qed

end
