(* ===== verification/ConfigApi.thy ===== *)
theory ConfigApi
  imports Handlers
begin

text \<open>
  The client configuration API (cmd/server/config.go): listing types and clients, replacing
  the pushed clients as a set, and testing a client without registering it.
\<close>

definition maxConfigBody :: int where
  "maxConfigBody = 2 ^ 20"

definition handleConfigTypes :: response where
  "handleConfigTypes = writeJSON 200 (TypeList Types)"

definition handleConfigClients :: "'w gateway \<Rightarrow> response" where
  "handleConfigClients g =
     (case Config (gw_reg g) of (revision, clients) \<Rightarrow> writeJSON 200 (ClientList revision clients))"

definition ClientSpec_fields :: "ClientSpec field list" where
  "ClientSpec_fields =
     [string_field ''id'' sp_ID sp_ID_update,
      string_field ''type'' sp_Type sp_Type_update,
      string_field ''baseUrl'' sp_BaseURL sp_BaseURL_update,
      string_field ''auth'' sp_Auth sp_Auth_update,
      string_field ''username'' sp_Username sp_Username_update,
      string_field ''secret'' sp_Secret sp_Secret_update,
      string_field ''category'' sp_Category sp_Category_update,
      string_field ''savePath'' sp_SavePath sp_SavePath_update,
      (''protocols'', \<lambda>v s. map_option (\<lambda>ps. s\<lparr>sp_Protocols := ps\<rparr>) (dec_list (\<lambda>p. dec_string p '''') v))]"

definition dec_ClientSpec :: "json \<Rightarrow> ClientSpec option" where
  "dec_ClientSpec v = dec_struct ClientSpec_fields zero_ClientSpec v"

text \<open>Both fields of a push are pointers: \<open>null\<close> and a missing member are \<open>None\<close>.\<close>

record configPush =
  cp_Revision :: "int option"
  cp_Clients :: "ClientSpec list option"

definition configPush_fields :: "configPush field list" where
  "configPush_fields =
     [(''revision'', \<lambda>v r. (case v of
         JNull \<Rightarrow> Some (r\<lparr>cp_Revision := None\<rparr>)
       | _ \<Rightarrow> map_option (\<lambda>n. r\<lparr>cp_Revision := Some n\<rparr>) (dec_int64 v 0))),
      (''clients'', \<lambda>v r. (case v of
         JNull \<Rightarrow> Some (r\<lparr>cp_Clients := None\<rparr>)
       | _ \<Rightarrow> map_option (\<lambda>cs. r\<lparr>cp_Clients := Some cs\<rparr>) (dec_list dec_ClientSpec v)))]"

definition dec_configPush :: "json \<Rightarrow> bool + configPush" where
  "dec_configPush v =
     (case dec_struct configPush_fields \<lparr>cp_Revision = None, cp_Clients = None\<rparr> v of
        Some r \<Rightarrow> Inr r | None \<Rightarrow> Inl False)"

text \<open>The adoptions of the started clients are left in \<open>gw_bg\<close> for the goroutines.\<close>

definition handleConfigApply ::
  "'w ext \<Rightarrow> request \<Rightarrow> 'w gateway \<Rightarrow> 'w \<Rightarrow> response \<times> 'w gateway \<times> 'w" where
  "handleConfigApply x rq g w =
     (case decodeJSON (q_Body rq) maxConfigBody dec_configPush of
        Inl resp \<Rightarrow> (resp, g, w)
      | Inr req \<Rightarrow>
        (case cp_Revision req of
           None \<Rightarrow> (writeError 400 ''revision is required and must not be negative'', g, w)
         | Some revision \<Rightarrow>
           if revision < 0 then (writeError 400 ''revision is required and must not be negative'', g, w)
           else
             (case cp_Clients req of
                None \<Rightarrow> (writeError 400 ''clients is required; send [] to remove every client'', g, w)
              | Some specs \<Rightarrow>
                (case Apply x revision specs (hasJobs (gw_jobs g)) (gw_reg g) w of
                   (res, reg, w') \<Rightarrow>
                     (writeJSON 200 (ApplyReport (res_Revision res) (res_Applied res) (res_Errors res)),
                      g\<lparr>gw_reg := reg, gw_bg := gw_bg g @ map cl_ID (res_Started res)\<rparr>, w')))))"

definition dec_testSpec :: "json \<Rightarrow> bool + ClientSpec" where
  "dec_testSpec v = (case dec_ClientSpec v of Some s \<Rightarrow> Inr s | None \<Rightarrow> Inl False)"

definition test_start :: "ClientSpec \<Rightarrow> configTestResponse" where
  "test_start spec =
     \<lparr>ct_Reachable = False, ct_Version = '''', ct_Error = '''',
      ct_Status = (NamedStatus (trim_space (sp_Type spec)))
        \<lparr>cs_ID := trim_space (sp_ID spec), cs_Type := trim_space (sp_Type spec)\<rparr>\<rparr>"

definition test_fail :: "configTestResponse \<Rightarrow> string \<Rightarrow> response" where
  "test_fail out msg =
     writeJSON 200 (TestReport (out\<lparr>ct_Error := msg, ct_Status := (ct_Status out)\<lparr>cs_Error := msg\<rparr>\<rparr>))"

text \<open>The status part of a test that reached its endpoint.\<close>

definition test_status ::
  "'w Adapter \<Rightarrow> configTestResponse \<Rightarrow> 'w \<Rightarrow> response \<times> 'w" where
  "test_status ad out w =
     (case ad_Reporter ad of
        Some rep \<Rightarrow>
          (case rep w of
             (st, w') \<Rightarrow>
               (writeJSON 200 (TestReport (out\<lparr>ct_Status :=
                  st\<lparr>cs_ID := cs_ID (ct_Status out), cs_Type := cs_Type (ct_Status out)\<rparr>\<rparr>)), w'))
      | None \<Rightarrow>
          (writeJSON 200 (TestReport (out\<lparr>ct_Status := (ct_Status out)
             \<lparr>cs_Name := ad_Name ad, cs_Reachable := ct_Reachable out\<rparr>\<rparr>)), w))"

definition handleConfigTest ::
  "'w ext \<Rightarrow> request \<Rightarrow> 'w \<Rightarrow> response \<times> 'w" where
  "handleConfigTest x rq w =
     (case decodeJSON (q_Body rq) maxConfigBody dec_testSpec of
        Inl resp \<Rightarrow> (resp, w)
      | Inr spec \<Rightarrow>
        (let out = test_start spec in
         if cs_ID (ct_Status out) \<noteq> '''' \<and> \<not> ValidClientID (cs_ID (ct_Status out))
         then (test_fail out ''id must match ^[a-z0-9][a-z0-9-]{0,39}$'', w)
         else
           (case NewClient x spec w of
              (Inl err, w1) \<Rightarrow> (test_fail out err, w1)
            | (Inr (ad, _), w1) \<Rightarrow>
              (case ad_Prober ad of
                 None \<Rightarrow> test_status ad out w1
               | Some probe \<Rightarrow>
                 (case probe w1 of
                    (Inl e, w2) \<Rightarrow> (test_fail out (PublicError (x_IsPrint x) (Some e)), w2)
                  | (Inr version, w2) \<Rightarrow>
                    test_status ad (out\<lparr>ct_Version := version, ct_Reachable := True\<rparr>) w2)))))"


section \<open>Properties\<close>

text \<open>C20: A push replaces the clients only when it says what they should be. Either the body
  carries a revision that is not negative and a list of clients, and the registry becomes what
  \<open>Apply\<close> makes of them, with the adoption of every started client left to do; or the
  push is refused with 400 or 413 and nothing changes. A body without \<open>clients\<close>, or with
  \<open>null\<close> for it, never removes a client. No push touches the jobs.\<close>

theorem handleConfigApply_guard:
  assumes "handleConfigApply x rq g w = (resp, g', w')"
  shows "(\<exists>revision specs res reg.
            decodeJSON (q_Body rq) maxConfigBody dec_configPush =
              Inr \<lparr>cp_Revision = Some revision, cp_Clients = Some specs\<rparr> \<and> 0 \<le> revision \<and>
            Apply x revision specs (hasJobs (gw_jobs g)) (gw_reg g) w = (res, reg, w') \<and>
            resp = writeJSON 200 (ApplyReport (res_Revision res) (res_Applied res) (res_Errors res)) \<and>
            g' = g\<lparr>gw_reg := reg, gw_bg := gw_bg g @ map cl_ID (res_Started res)\<rparr>) \<or>
         rp_Code resp \<in> {400, 413} \<and> g' = g \<and> w' = w"
proof (cases "decodeJSON (q_Body rq) maxConfigBody dec_configPush")
  case (Inl resp0)
  then show ?thesis using assms decodeJSON_code [OF Inl] by (auto simp: handleConfigApply_def)
next
  case (Inr req)
  then show ?thesis using assms
    by (cases req) (auto simp: handleConfigApply_def split: option.splits if_splits prod.splits)
qed

text \<open>A push that leaves the clients out, and one that empties them.\<close>

definition demo_push :: "string \<Rightarrow> request" where
  "demo_push bdy = \<lparr>q_adapter = '''', q_id = '''', q_Authorization = '''', q_ContentLength = int (length bdy),
     q_Body = bdy\<rparr>"

theorem handleConfigApply_guard_witness:
  \<open>fst (snd (handleConfigApply demo_ext (demo_push ''{"revision":3}'') (newGateway empty_Registry) ())) =
     newGateway empty_Registry \<and>
   r_revision (gw_reg (fst (snd (handleConfigApply demo_ext (demo_push ''{"revision":3,"clients":[]}'')
     (newGateway empty_Registry) ())))) = 3\<close>
proof -
  let ?h = \<open>handleConfigApply demo_ext (demo_push ''{"revision":3}'') (newGateway empty_Registry) ()\<close>
  have \<open>rp_Code (fst ?h) = 400\<close> by code_simp
  moreover obtain resp g' w' where h: "?h = (resp, g', w')" by (rule prod_cases3)
  ultimately have "fst (snd ?h) = newGateway empty_Registry"
    using handleConfigApply_guard [OF h] by auto
  moreover have \<open>r_revision (gw_reg (fst (snd (handleConfigApply demo_ext (demo_push ''{"revision":3,"clients":[]}'')
     (newGateway empty_Registry) ())))) = 3\<close> by code_simp
  ultimately show ?thesis by blast
qed

text \<open>What a test reports. Every readable request is answered with 200; \<open>reachable\<close> is
  true only when the spec is valid, the client built from it can be probed and the probe
  succeeded, and then the version is the one the probe read. The id of the status is the
  trimmed id of the request, whatever the endpoint answered.\<close>

theorem handleConfigTest_report:
  assumes "decodeJSON (q_Body rq) maxConfigBody dec_testSpec = Inr spec"
    "handleConfigTest x rq w = (resp, w')"
  shows "\<exists>r. resp = writeJSON 200 (TestReport r) \<and> cs_ID (ct_Status r) = trim_space (sp_ID spec) \<and>
           (ct_Reachable r \<longrightarrow> (\<exists>s ad w1 probe w2. PrepareSpec spec = Inr s \<and> buildClient x s w = (ad, w1) \<and>
              ad_Prober ad = Some probe \<and> probe w1 = (Inr (ct_Version r), w2) \<and> ct_Error r = ''''))"
  using assms
  by (auto simp: handleConfigTest_def test_status_def test_fail_def test_start_def NewClient_def Let_def NamedStatus_def
      split: if_splits sum.splits prod.splits option.splits)

theorem handleConfigTest_report_witness:
  \<open>\<exists>r. fst (handleConfigTest demo_ext (demo_push ''{"id":"A"}'') ()) = writeJSON 200 (TestReport r) \<and>
     cs_ID (ct_Status r) = ''A'' \<and> \<not> ct_Reachable r\<close>
proof -
  have d: \<open>decodeJSON (q_Body (demo_push ''{"id":"A"}'')) maxConfigBody dec_testSpec = Inr (zero_ClientSpec\<lparr>sp_ID := ''A''\<rparr>)\<close>
    by code_simp
  have t: "trim_space ''A'' = ''A''" and p: "\<not> isl (PrepareSpec (zero_ClientSpec\<lparr>sp_ID := ''A''\<rparr>)) \<longleftrightarrow> False"
    by code_simp+
  obtain resp w' where h: \<open>handleConfigTest demo_ext (demo_push ''{"id":"A"}'') () = (resp, w')\<close> by (rule prod.exhaust)
  from handleConfigTest_report [OF d h] h p show ?thesis by (auto simp: t)
qed

end
