(* ===== verification/Auth.thy ===== *)
theory Auth
  imports Errors
begin

text \<open>
  Bearer authentication of the API routes (internal/auth/oidc.go). The OIDC library is a
  parameter: building a provider for an issuer, verifying a raw token, and reading the two
  claims of a verified token.
\<close>

record ('v, 't, 'w) oidc =
  oi_NewProvider :: "string \<Rightarrow> 'w \<Rightarrow> (go_error + 'v) \<times> 'w"
  oi_Verify :: "'v \<Rightarrow> string \<Rightarrow> 'w \<Rightarrow> (go_error + 't) \<times> 'w"
  oi_Claims :: "'t \<Rightarrow> (string \<times> string) option"   \<comment> \<open>azp and client_id\<close>

text \<open>\<open>verifier\<close> is \<open>Some\<close> exactly when \<open>ready\<close> is true; the set of allowed clients is a
  list.\<close>

record 'v Verifier =
  v_issuer :: string
  v_allowed :: "string list"
  v_verifier :: "'v option"

definition NewVerifier :: "string \<Rightarrow> string list \<Rightarrow> 'v Verifier" where
  "NewVerifier iss allowedClients =
     (let issuer = trim_space iss;
          allowed = filter (\<lambda>cid. cid \<noteq> '''') (map trim_space allowedClients)
      in \<lparr>v_issuer = issuer, v_allowed = (if issuer \<noteq> '''' then allowed else []), v_verifier = None\<rparr>)"

text \<open>The clients as they are logged: a Go map has each key once.\<close>

definition keys :: "string list \<Rightarrow> string list" where
  "keys allowed = sort (remdups allowed)"

text \<open>What \<open>NewVerifier\<close> logs: the level and the message of each line, with the attributes.\<close>

datatype level = Info | Warn

definition em_dash :: string where
  "em_dash = map byte_of [0xE2, 0x80, 0x94]"

definition NewVerifier_log :: "string \<Rightarrow> string list \<Rightarrow> (level \<times> string \<times> (string \<times> string list) list) list" where
  "NewVerifier_log iss allowedClients =
     (let issuer = trim_space iss;
          allowed = filter (\<lambda>cid. cid \<noteq> '''') (map trim_space allowedClients)
      in if issuer = '''' then
           (Warn, ''OIDC_ISSUER unset '' @ em_dash
              @ '' gateway /api routes are UNAUTHENTICATED (set OIDC_ISSUER to require a bearer)'', [])
           # (if allowed \<noteq> []
              then [(Warn, ''ALLOWED_CLIENTS is ignored without OIDC_ISSUER; the client configuration API stays disabled'', [])]
              else [])
         else if allowed \<noteq> [] then
           [(Info, ''gateway OIDC enabled for allowed clients only'',
             [(''issuer'', [issuer]), (''allowed_clients'', keys allowed)])]
         else [(Info, ''gateway OIDC enabled'', [(''issuer'', [issuer])])])"

definition ParseClientList :: "string \<Rightarrow> string list" where
  "ParseClientList s = filter (\<lambda>cid. cid \<noteq> '''') (map trim_space (split_on (CHR '','') s))"

definition Enabled :: "'v Verifier \<Rightarrow> bool" where
  "Enabled v \<longleftrightarrow> v_issuer v \<noteq> ''''"

definition Restricted :: "'v Verifier \<Rightarrow> bool" where
  "Restricted v \<longleftrightarrow> v_issuer v \<noteq> '''' \<and> v_allowed v \<noteq> []"

definition ensure ::
  "('v, 't, 'w) oidc \<Rightarrow> 'v Verifier \<Rightarrow> 'w \<Rightarrow> (go_error + 'v) \<times> 'v Verifier \<times> 'w" where
  "ensure oi v w =
     (case v_verifier v of
        Some ver \<Rightarrow> (Inr ver, v, w)
      | None \<Rightarrow>
        (case oi_NewProvider oi (v_issuer v) w of
           (Inl e, w') \<Rightarrow> (Inl e, v, w')
         | (Inr ver, w') \<Rightarrow> (Inr ver, v\<lparr>v_verifier := Some ver\<rparr>, w')))"

definition allows :: "('v, 't, 'w) oidc \<Rightarrow> 'v Verifier \<Rightarrow> 't \<Rightarrow> bool" where
  "allows oi v tok =
     (case oi_Claims oi tok of
        None \<Rightarrow> False
      | Some (azp, clientID) \<Rightarrow>
        azp \<noteq> '''' \<and> azp \<in> set (v_allowed v) \<or> clientID \<noteq> '''' \<and> clientID \<in> set (v_allowed v))"

text \<open>What the middleware does with a request: hand it to the next handler, or answer it.\<close>

datatype gate = Next | Refuse int string

definition Middleware ::
  "(nat \<Rightarrow> bool) \<Rightarrow> ('v, 't, 'w) oidc \<Rightarrow> 'v Verifier \<Rightarrow> string \<Rightarrow> 'w \<Rightarrow> gate \<times> 'v Verifier \<times> 'w" where
  "Middleware up oi v authz w =
     (if \<not> Enabled v then (Next, v, w)
      else if \<not> has_prefix authz ''Bearer '' then (Refuse 401 ''missing bearer token'', v, w)
      else
        (case ensure oi v w of
           (Inl e, v', w') \<Rightarrow> (Refuse 503 ''oidc provider unavailable'', v', w')
         | (Inr ver, v', w') \<Rightarrow>
           (case oi_Verify oi ver (trim_prefix authz ''Bearer '') w' of
              (Inl e, w'') \<Rightarrow> (Refuse 401 (''invalid token: '' @ Error up e), v', w'')
            | (Inr tok, w'') \<Rightarrow>
              if Restricted v' \<and> \<not> allows oi v' tok
              then (Refuse 403 ''this client is not allowed to call the gateway'', v', w'')
              else (Next, v', w''))))"


section \<open>Properties\<close>

text \<open>The start of the process says what the gate will do: a warning exactly when it is open, and the
  allowed clients, each once and in order, exactly when tokens are limited to them.\<close>

lemma keys_sorted: "set (keys allowed) = set allowed" "sorted (keys allowed)" "distinct (keys allowed)"
  by (simp_all add: keys_def)

lemma NewVerifier_log_gate:
  "(\<exists>m as. (Warn, m, as) \<in> set (NewVerifier_log iss cids)) \<longleftrightarrow> \<not> Enabled (NewVerifier iss cids)"
  "(\<exists>m as ks. (Info, m, as) \<in> set (NewVerifier_log iss cids) \<and> (''allowed_clients'', ks) \<in> set as) \<longleftrightarrow>
     Restricted (NewVerifier iss cids)"
  by (auto simp: NewVerifier_log_def NewVerifier_def Enabled_def Restricted_def Let_def)

text \<open>The verifier a gate holds was built for the configured issuer.\<close>

definition issued_by :: "('v, 't, 'w) oidc \<Rightarrow> 'v Verifier \<Rightarrow> bool" where
  "issued_by oi v \<longleftrightarrow>
     (case v_verifier v of None \<Rightarrow> True | Some ver \<Rightarrow> \<exists>w w'. oi_NewProvider oi (v_issuer v) w = (Inr ver, w'))"

lemma ensure_Inr:
  assumes "ensure oi v w = (Inr ver, v', w')" "issued_by oi v"
  shows "issued_by oi v' \<and> v_issuer v' = v_issuer v \<and> v_allowed v' = v_allowed v \<and>
    (\<exists>w0 w1. oi_NewProvider oi (v_issuer v) w0 = (Inr ver, w1))"
  using assms by (auto simp: ensure_def issued_by_def split: option.splits prod.splits sum.splits) blast

lemma ensure_Inl: "ensure oi v w = (Inl e, v', w') \<Longrightarrow> v' = v \<and> v_verifier v = None"
  by (auto simp: ensure_def split: option.splits prod.splits sum.splits)

lemma Middleware_Next:
  assumes "Middleware up oi v authz w = (Next, v', w')" "Enabled v"
  obtains raw ver tok w2 where "authz = ''Bearer '' @ raw" "ensure oi v w = (Inr ver, v', w2)"
    "oi_Verify oi ver raw w2 = (Inr tok, w')" "Restricted v' \<longrightarrow> allows oi v' tok"
  using assms
  by (auto simp: Middleware_def trim_prefix_def has_prefix_iff split: if_splits prod.splits sum.splits)

lemma Middleware_through:
  assumes "issued_by oi v" "Enabled v" "Middleware up oi v authz w = (Next, v', w')"
  shows "\<exists>raw ver tok w0 w1 w2. authz = ''Bearer '' @ raw \<and>
           oi_NewProvider oi (v_issuer v) w0 = (Inr ver, w1) \<and>
           oi_Verify oi ver raw w2 = (Inr tok, w') \<and>
           (Restricted v \<longrightarrow> (\<exists>azp cid. oi_Claims oi tok = Some (azp, cid) \<and>
              (azp \<noteq> '''' \<and> azp \<in> set (v_allowed v) \<or> cid \<noteq> '''' \<and> cid \<in> set (v_allowed v))))"
  using assms(3,2)
proof (cases rule: Middleware_Next)
  case (1 raw ver tok w2)
  have same: "v_issuer v' = v_issuer v" "v_allowed v' = v_allowed v"
    and prov: "\<exists>w0 w1. oi_NewProvider oi (v_issuer v) w0 = (Inr ver, w1)"
    using ensure_Inr [OF 1(2) assms(1)] by auto
  have "Restricted v \<longrightarrow> (\<exists>azp cid. oi_Claims oi tok = Some (azp, cid) \<and>
      (azp \<noteq> '''' \<and> azp \<in> set (v_allowed v) \<or> cid \<noteq> '''' \<and> cid \<in> set (v_allowed v)))"
    using 1(4) same by (auto simp: Restricted_def allows_def split: option.splits prod.splits)
  with 1 prov show ?thesis by blast
qed

text \<open>C21: Who gets past the gate. When an issuer is configured, only a request with a bearer
  token that a verifier of this issuer accepted; when clients are restricted, only one whose
  azp or client_id claim is an allowed client.\<close>

theorem Middleware_sound:
  assumes "issued_by oi v" "Enabled v" "Middleware up oi v authz w = (Next, v', w')"
  shows "\<exists>raw ver tok w0 w1 w2. authz = ''Bearer '' @ raw \<and>
           oi_NewProvider oi (v_issuer v) w0 = (Inr ver, w1) \<and>
           oi_Verify oi ver raw w2 = (Inr tok, w') \<and>
           (Restricted v \<longrightarrow> (\<exists>azp cid. oi_Claims oi tok = Some (azp, cid) \<and>
              (azp \<noteq> '''' \<and> azp \<in> set (v_allowed v) \<or> cid \<noteq> '''' \<and> cid \<in> set (v_allowed v))))"
  using assms by (rule Middleware_through)

text \<open>An issuer that answers, whose tokens name their client in both claims.\<close>

definition demo_oidc :: "(string, string, unit) oidc" where
  "demo_oidc = \<lparr>oi_NewProvider = \<lambda>iss w. (Inr iss, w), oi_Verify = \<lambda>ver raw w. (Inr raw, w),
     oi_Claims = \<lambda>tok. Some (tok, tok)\<rparr>"

definition demo_verifier :: "string Verifier" where
  "demo_verifier = NewVerifier ''https://idp'' [''acquire'']"

lemma demo_verifier_simps:
  "v_issuer demo_verifier = ''https://idp''" "v_allowed demo_verifier = [''acquire'']"
  "v_verifier demo_verifier = None"
  by code_simp+

theorem Middleware_sound_witness:
  "fst (Middleware (\<lambda>_. True) demo_oidc demo_verifier ''Bearer acquire'' ()) = Next \<and>
   fst (Middleware (\<lambda>_. True) demo_oidc demo_verifier ''Bearer other'' ()) \<noteq> Next"
proof
  show "fst (Middleware (\<lambda>_. True) demo_oidc demo_verifier ''Bearer acquire'' ()) = Next" by code_simp
  have i: "issued_by demo_oidc demo_verifier" "Enabled demo_verifier"
    by (simp_all add: issued_by_def Enabled_def demo_verifier_simps)
  show "fst (Middleware (\<lambda>_. True) demo_oidc demo_verifier ''Bearer other'' ()) \<noteq> Next"
  proof
    assume "fst (Middleware (\<lambda>_. True) demo_oidc demo_verifier ''Bearer other'' ()) = Next"
    then obtain v' w' where "Middleware (\<lambda>_. True) demo_oidc demo_verifier ''Bearer other'' () = (Next, v', w')"
      by (metis prod.exhaust_sel)
    from Middleware_sound [OF i this] show False
      by (auto simp: demo_oidc_def Restricted_def demo_verifier_simps)
  qed
qed

text \<open>C22: The gate heals itself, and never skips the token. While the issuer cannot be reached a
  request with a bearer token is answered 503 and nothing is remembered of the failure. The first
  provider that is built is kept, so no later request is refused for that reason; and every
  request that is not answered 503, the one that built the provider included, is decided by what
  the verifier says of its token: 401 when it is refused, 403 when its client is not allowed, and
  otherwise it is let through.\<close>

theorem Middleware_heals:
  assumes "Enabled v" "Middleware up oi v (''Bearer '' @ raw) w = (g, v', w')"
  shows "(g = Refuse 503 ''oidc provider unavailable'' \<longleftrightarrow>
            v_verifier v = None \<and> isl (fst (oi_NewProvider oi (v_issuer v) w))) \<and>
         (if g = Refuse 503 ''oidc provider unavailable'' then v' = v
          else \<exists>ver w1 r. (v_verifier v = Some ver \<and> w1 = w \<or>
                  v_verifier v = None \<and> oi_NewProvider oi (v_issuer v) w = (Inr ver, w1)) \<and>
               v' = v\<lparr>v_verifier := Some ver\<rparr> \<and> oi_Verify oi ver raw w1 = (r, w') \<and>
               (case r of
                  Inl e \<Rightarrow> g = Refuse 401 (''invalid token: '' @ Error up e)
                | Inr tok \<Rightarrow> g = (if v_allowed v \<noteq> [] \<and> \<not> allows oi v tok
                    then Refuse 403 ''this client is not allowed to call the gateway'' else Next)))"
proof (cases "ensure oi v w")
  case (fields r v1 w1)
  show ?thesis
  proof (cases r)
    case (Inl e)
    with fields assms(1) have "Middleware up oi v (''Bearer '' @ raw) w = (Refuse 503 ''oidc provider unavailable'', v1, w1)"
      by (simp add: Middleware_def has_prefix_def)
    then have g: "g = Refuse 503 ''oidc provider unavailable''" "v' = v1" using assms(2) by simp_all
    have v: "v1 = v" "v_verifier v = None" using ensure_Inl Inl fields by metis+
    then have "isl (fst (oi_NewProvider oi (v_issuer v) w))"
      using Inl fields by (simp add: ensure_def split: prod.splits sum.splits)
    with g v show ?thesis by simp
  next
    case (Inr ver)
    have v1: "v1 = v\<lparr>v_verifier := Some ver\<rparr>" and
      ens: "v_verifier v = Some ver \<and> w1 = w \<or> v_verifier v = None \<and> oi_NewProvider oi (v_issuer v) w = (Inr ver, w1)"
      using fields Inr by (cases v; auto simp: ensure_def split: option.splits prod.splits sum.splits)+
    have al: "allows oi v1 = allows oi v" "Restricted v1 \<longleftrightarrow> v_allowed v \<noteq> []"
      using assms(1) by (simp_all add: v1 allows_def fun_eq_iff Restricted_def Enabled_def split: option.split)
    obtain rt w2 where rt: "oi_Verify oi ver raw w1 = (rt, w2)" by (rule prod.exhaust)
    have g: "v' = v1" "w' = w2"
      "g = (case rt of Inl e \<Rightarrow> Refuse 401 (''invalid token: '' @ Error up e)
         | Inr tok \<Rightarrow> if v_allowed v \<noteq> [] \<and> \<not> allows oi v tok
             then Refuse 403 ''this client is not allowed to call the gateway'' else Next)"
      using fields Inr rt assms al
      by (auto simp: Middleware_def has_prefix_def trim_prefix_def split: sum.splits if_splits)
    then have no: "g \<noteq> Refuse 503 ''oidc provider unavailable''" by (auto split: sum.splits if_splits)
    have "\<not> (v_verifier v = None \<and> isl (fst (oi_NewProvider oi (v_issuer v) w)))" using ens by auto
    moreover have "v' = v\<lparr>v_verifier := Some ver\<rparr> \<and> oi_Verify oi ver raw w1 = (rt, w')" using g(1,2) v1 rt by simp
    moreover have "case rt of Inl e \<Rightarrow> g = Refuse 401 (''invalid token: '' @ Error up e)
       | Inr tok \<Rightarrow> g = (if v_allowed v \<noteq> [] \<and> \<not> allows oi v tok
           then Refuse 403 ''this client is not allowed to call the gateway'' else Next)"
      using g(3) by (cases rt) simp_all
    ultimately show ?thesis using ens no unfolding if_not_P [OF no] by blast
  qed
qed

theorem Middleware_heals_witness:
  "fst (Middleware (\<lambda>_. True) demo_oidc demo_verifier (''Bearer '' @ ''other'') ()) =
     Refuse 403 ''this client is not allowed to call the gateway'' \<and>
   v_verifier (fst (snd (Middleware (\<lambda>_. True) demo_oidc demo_verifier (''Bearer '' @ ''other'') ()))) = Some ''https://idp''"
proof -
  have e: "Enabled demo_verifier" by (simp add: Enabled_def demo_verifier_simps)
  obtain g v' w' where m: "Middleware (\<lambda>_. True) demo_oidc demo_verifier (''Bearer '' @ ''other'') () = (g, v', w')"
    by (rule prod_cases3)
  have "\<not> isl (fst (oi_NewProvider demo_oidc (v_issuer demo_verifier) ()))" by (simp add: demo_oidc_def)
  with Middleware_heals [OF e m] show ?thesis
    unfolding m by (auto simp: demo_oidc_def demo_verifier_simps allows_def split: if_splits)
qed

end
