(* ===== verification/Server.thy ===== *)
theory Server
  imports ConfigApi Auth
begin

text \<open>
  The server around the handlers (cmd/server/main.go): the clients configured through the
  environment, the start of the process, the poll loop, the routes with the gate in front of
  the API, and shutdown. Which route a request takes is chi's business: the router is a
  parameter that picks one of the registered routes or answers itself.
\<close>


section \<open>The environment\<close>

definition envOr :: "(string \<Rightarrow> string option) \<Rightarrow> string \<Rightarrow> string \<Rightarrow> string" where
  "envOr env k d = (case env k of Some v \<Rightarrow> if v \<noteq> '''' then v else d | None \<Rightarrow> d)"

text \<open>\<open>time.ParseDuration\<close> is \<open>parse_duration\<close>, in nanoseconds; \<open>None\<close> is an error.\<close>

definition envDur :: "(string \<Rightarrow> int option) \<Rightarrow> (string \<Rightarrow> string option) \<Rightarrow> string \<Rightarrow> int \<Rightarrow> int" where
  "envDur parse_duration env k d =
     (if Getenv env k \<noteq> '''' then (case parse_duration (Getenv env k) of Some n \<Rightarrow> n | None \<Rightarrow> d) else d)"

definition authMode :: "bool \<Rightarrow> string \<Rightarrow> string" where
  "authMode credentials mode = (if credentials then mode else AuthNone)"

text \<open>The three clients, each registered when its base URL is set.\<close>

definition env_odownloader :: "'w ext \<Rightarrow> (string \<Rightarrow> string option) \<Rightarrow> 'w Registry \<Rightarrow> 'w Registry" where
  "env_odownloader x env reg =
     (let base = Getenv env ''ODOWNLOADER_BASE_URL''; token = Getenv env ''ODOWNLOADER_TOKEN'' in
      if base = '''' then reg
      else AddEnv (zero_ClientSpec\<lparr>sp_BaseURL := base, sp_Auth := authMode (token \<noteq> '''') AuthToken, sp_Secret := token\<rparr>)
             (Some (odownloader_adapter x (NewODownloader base token))) reg)"

definition env_qbittorrent ::
  "'w ext \<Rightarrow> (string \<Rightarrow> string option) \<Rightarrow> 'w Registry \<Rightarrow> 'w \<Rightarrow> 'w Registry \<times> 'w" where
  "env_qbittorrent x env reg w =
     (let base = Getenv env ''QBITTORRENT_BASE_URL'';
          user = Getenv env ''QBITTORRENT_USER''; pass = Getenv env ''QBITTORRENT_PASS'' in
      if base = '''' then (reg, w)
      else
        (case NewQBittorrent x base user pass w of
           (q, w') \<Rightarrow>
             (AddEnv (zero_ClientSpec\<lparr>sp_BaseURL := base, sp_Auth := authMode (user \<noteq> '''') AuthBasic,
                        sp_Username := user, sp_Secret := pass\<rparr>)
                (Some (qbittorrent_adapter x q)) reg, w')))"

definition env_nzbget :: "'w ext \<Rightarrow> (string \<Rightarrow> string option) \<Rightarrow> 'w Registry \<Rightarrow> 'w Registry" where
  "env_nzbget x env reg =
     (let base = Getenv env ''NZBGET_URL''; user = Getenv env ''NZBGET_USER'';
          pass = Getenv env ''NZBGET_PASS''; category = Getenv env ''NZBGET_CATEGORY'' in
      if base = '''' then reg
      else AddEnv (zero_ClientSpec\<lparr>sp_BaseURL := base, sp_Auth := authMode (user \<noteq> '''') AuthBasic,
                     sp_Username := user, sp_Secret := pass, sp_Category := category\<rparr>)
             (Some (nzbget_adapter x (NewNZBGet base user pass category))) reg)"

definition registerEnvClients ::
  "'w ext \<Rightarrow> (string \<Rightarrow> string option) \<Rightarrow> 'w Registry \<Rightarrow> 'w \<Rightarrow> 'w Registry \<times> 'w" where
  "registerEnvClients x env reg w =
     (case env_qbittorrent x env (env_odownloader x env reg) w of
        (reg', w') \<Rightarrow> (env_nzbget x env reg', w'))"


section \<open>Start, polling and shutdown\<close>

record 'w process =
  ps_addr :: string
  ps_gateway :: "'w gateway"
  ps_pub :: "'w Publisher"
  ps_poll :: int

text \<open>
  \<open>main\<close> up to serving: the clients of the environment, the publisher (its failure ends the
  process with exit code 1), the gateway, and the adoption of what is already running.
\<close>

definition boot ::
  "'w ext \<Rightarrow> ('cert, 'pool) tls_ext \<Rightarrow>
     (string list \<Rightarrow> ('cert, 'pool) producer_config \<Rightarrow> 'w \<Rightarrow> (go_error + 'w producer) \<times> 'w) \<Rightarrow>
     (string \<Rightarrow> int option) \<Rightarrow> (string \<Rightarrow> string option) \<Rightarrow> 'w \<Rightarrow> (int + 'w process) \<times> 'w" where
  "boot x t newSyncProducer parse_duration env w =
     (let addr = envOr env ''DOWNLOAD_GATEWAY_ADDR'' '':8080'' in
      case registerEnvClients x env (NewRegistry []) w of
        (reg, w1) \<Rightarrow>
          (case NewPublisher t newSyncProducer (ConfigFromEnv env) w1 of
             (Inl e, w2) \<Rightarrow> (Inl 1, w2)
           | (Inr pub, w2) \<Rightarrow>
             (let gw = newGateway reg; poll = envDur parse_duration env ''POLL_INTERVAL'' (5 * 10 ^ 9) in
              case adoptExisting (Names (gw_reg gw)) (gw_reg gw) (gw_jobs gw) w2 of
                (reg', jobs', w3) \<Rightarrow>
                  (Inr \<lparr>ps_addr = addr, ps_gateway = gw\<lparr>gw_reg := reg', gw_jobs := jobs'\<rparr>,
                        ps_pub = pub, ps_poll = poll\<rparr>, w3))))"

definition boot_verifier :: "(string \<Rightarrow> string option) \<Rightarrow> 'v Verifier" where
  "boot_verifier env = NewVerifier (Getenv env ''OIDC_ISSUER'') (ParseClientList (Getenv env ''ALLOWED_CLIENTS''))"

text \<open>The ticks of the poll loop, one per clock of the list, until the context is done.\<close>

fun poll_ticks ::
  "(string \<Rightarrow> poll_clock) list \<Rightarrow> 'w gateway \<Rightarrow> 'w \<Rightarrow> 'w gateway \<times> event list \<times> 'w" where
  "poll_ticks [] g w = (g, [], w)"
| "poll_ticks (ck # cks) g w =
     (case pollAll (gw_reg g) ck (gw_jobs g) w of
        (reg', jobs', evs, w') \<Rightarrow>
          (case poll_ticks cks (g\<lparr>gw_reg := reg', gw_jobs := jobs'\<rparr>) w' of
             (g', evs', w'') \<Rightarrow> (g', evs @ evs', w'')))"

text \<open>\<open>time.NewTicker\<close> panics on an interval that is not positive, which ends the process: \<open>None\<close>.\<close>

definition pollLoop ::
  "int \<Rightarrow> (string \<Rightarrow> poll_clock) list \<Rightarrow> 'w gateway \<Rightarrow> 'w \<Rightarrow> ('w gateway \<times> event list \<times> 'w) option" where
  "pollLoop poll cks g w = (if poll \<le> 0 then None else Some (poll_ticks cks g w))"

definition begin_shutdown :: "'w gateway \<Rightarrow> 'w gateway" where
  "begin_shutdown g = g\<lparr>gw_stopping := True\<rparr>"

text \<open>The end of \<open>main\<close>: readiness is withdrawn, the server is given time to finish its requests
  (\<open>srv.Shutdown\<close> is a parameter), and the deferred \<open>Close\<close> releases the producer.\<close>

definition shutdown :: "('w \<Rightarrow> 'w) \<Rightarrow> 'w process \<Rightarrow> 'w \<Rightarrow> 'w process \<times> 'w" where
  "shutdown srvShutdown p w =
     (let g = begin_shutdown (ps_gateway p); w1 = srvShutdown w in
      case Close (Some (ps_pub p)) w1 of
        (_, pub', w2) \<Rightarrow>
          (p\<lparr>ps_gateway := g, ps_pub := (case pub' of Some q \<Rightarrow> q | None \<Rightarrow> ps_pub p)\<rparr>, w2))"


section \<open>Routes\<close>

datatype endpoint =
    Healthz | Readyz | Metrics | ListClients | ClientStatuses | AddDownload | RemoveDownload
  | ListDownloads | DescribeDownload | PauseDownload | ResumeDownload
  | ConfigTypes | ConfigClients | ConfigApply | ConfigTest

text \<open>A route: its method (\<open>None\<close> for any), its pattern, whether it is in the group behind
  the middleware, and the handler.\<close>

record route =
  rt_Method :: "string option"
  rt_Pattern :: string
  rt_Guarded :: bool
  rt_Endpoint :: endpoint

definition route :: "string \<Rightarrow> string \<Rightarrow> bool \<Rightarrow> endpoint \<Rightarrow> route" where
  "route m p b e = \<lparr>rt_Method = Some m, rt_Pattern = p, rt_Guarded = b, rt_Endpoint = e\<rparr>"

definition ops_routes :: "route list" where
  "ops_routes =
     [route ''GET'' ''/healthz'' False Healthz,
      route ''GET'' ''/readyz'' False Readyz,
      \<lparr>rt_Method = None, rt_Pattern = ''/metrics'', rt_Guarded = False, rt_Endpoint = Metrics\<rparr>]"

definition api_routes :: "route list" where
  "api_routes =
     [route ''GET'' ''/api/v1/clients'' True ListClients,
      route ''GET'' ''/api/v1/clients/status'' True ClientStatuses,
      route ''POST'' ''/api/v1/downloads'' True AddDownload,
      route ''DELETE'' ''/api/v1/downloads/{adapter}/{id}'' True RemoveDownload,
      route ''GET'' ''/api/v1/downloads'' True ListDownloads,
      route ''GET'' ''/api/v1/downloads/{adapter}/{id}'' True DescribeDownload,
      route ''POST'' ''/api/v1/downloads/{adapter}/{id}/pause'' True PauseDownload,
      route ''POST'' ''/api/v1/downloads/{adapter}/{id}/resume'' True ResumeDownload]"

definition config_routes :: "route list" where
  "config_routes =
     [route ''GET'' ''/api/v1/config/types'' True ConfigTypes,
      route ''GET'' ''/api/v1/config/clients'' True ConfigClients,
      route ''PUT'' ''/api/v1/config/clients'' True ConfigApply,
      route ''POST'' ''/api/v1/config/clients/test'' True ConfigTest]"

definition routes :: "'v Verifier \<Rightarrow> route list" where
  "routes v = ops_routes @ api_routes @ (if Restricted v then config_routes else [])"

text \<open>One handler, with the events it published; \<open>metrics\<close> is what the
  Prometheus handler answers.\<close>

definition run_endpoint ::
  "'w ext \<Rightarrow> (nat \<Rightarrow> bool) \<Rightarrow> response \<Rightarrow> bool \<Rightarrow> endpoint \<Rightarrow> request \<Rightarrow> 'w gateway \<Rightarrow> 'w \<Rightarrow>
     response \<times> 'w gateway \<times> event list \<times> 'w" where
  "run_endpoint x up metrics pubReady ep rq g w =
     (case ep of
        Healthz \<Rightarrow> (writeJSON 200 (Fields [(''status'', ''ok'')]), g, [], w)
      | Readyz \<Rightarrow> (handleReady pubReady g, g, [], w)
      | Metrics \<Rightarrow> (metrics, g, [], w)
      | ListClients \<Rightarrow> (handleClients g, g, [], w)
      | ClientStatuses \<Rightarrow> (case handleClientStatus g w of (resp, w') \<Rightarrow> (resp, g, [], w'))
      | AddDownload \<Rightarrow> handleAdd up rq g w
      | RemoveDownload \<Rightarrow> (case handleRemove up rq g w of (resp, g', w') \<Rightarrow> (resp, g', [], w'))
      | ListDownloads \<Rightarrow> (handleList g, g, [], w)
      | DescribeDownload \<Rightarrow> (case handleDescribe up rq g w of (resp, w') \<Rightarrow> (resp, g, [], w'))
      | PauseDownload \<Rightarrow> (case handleControl up ''pause'' rq g w of (resp, w') \<Rightarrow> (resp, g, [], w'))
      | ResumeDownload \<Rightarrow> (case handleControl up ''resume'' rq g w of (resp, w') \<Rightarrow> (resp, g, [], w'))
      | ConfigTypes \<Rightarrow> (handleConfigTypes, g, [], w)
      | ConfigClients \<Rightarrow> (handleConfigClients g, g, [], w)
      | ConfigApply \<Rightarrow> (case handleConfigApply x rq g w of (resp, g', w') \<Rightarrow> (resp, g', [], w'))
      | ConfigTest \<Rightarrow> (case handleConfigTest x rq w of (resp, w') \<Rightarrow> (resp, g, [], w')))"

text \<open>
  What the router makes of a request, given its method and path: its own answer (404, 405), or
  a route with the URL parameters filled in. The code relies on chi choosing among the
  registered routes, by method, and leaving the rest of the request alone.
\<close>

type_synonym router = "route list \<Rightarrow> string \<times> string \<Rightarrow> request \<Rightarrow> response + route \<times> request"

definition router_ok :: "router \<Rightarrow> bool" where
  "router_ok chi \<longleftrightarrow> (\<forall>rs target rq rt rq'. chi rs target rq = Inr (rt, rq') \<longrightarrow>
     rt \<in> set rs \<and> rt_Method rt \<in> {None, Some (fst target)} \<and>
     (\<exists>a i. rq' = rq\<lparr>q_adapter := a, q_id := i\<rparr>))"

definition http_error :: "int \<Rightarrow> string \<Rightarrow> response" where
  "http_error code msg = writeJSON code (Text (msg @ [CHR 0x0A]))"

text \<open>The routes are registered once; what decides them never changes in a verifier.\<close>

definition serve ::
  "'w ext \<Rightarrow> (nat \<Rightarrow> bool) \<Rightarrow> ('v, 't, 'w) oidc \<Rightarrow> router \<Rightarrow> response \<Rightarrow> bool \<Rightarrow>
     string \<times> string \<Rightarrow> request \<Rightarrow> 'v Verifier \<Rightarrow> 'w gateway \<Rightarrow> 'w \<Rightarrow>
     response \<times> 'v Verifier \<times> 'w gateway \<times> event list \<times> 'w" where
  "serve x up oi chi metrics pubReady target rq v g w =
     (case chi (routes v) target rq of
        Inl resp \<Rightarrow> (resp, v, g, [], w)
      | Inr (rt, rq') \<Rightarrow>
        (case (if rt_Guarded rt then Middleware up oi v (q_Authorization rq') w else (Next, v, w)) of
           (Refuse code msg, v', w') \<Rightarrow> (http_error code msg, v', g, [], w')
         | (Next, v', w') \<Rightarrow>
           (case run_endpoint x up metrics pubReady (rt_Endpoint rt) rq' g w' of
              (resp, g', evs, w'') \<Rightarrow> (resp, v', g', evs, w''))))"


section \<open>Properties\<close>

text \<open>The entry of a client configured through the environment.\<close>

definition env_entry :: "string \<Rightarrow> bool \<Rightarrow> string \<times> 'w entry \<Rightarrow> bool" where
  "env_entry cid secret = (\<lambda>(k, e). k = cid \<and> sp_ID (e_spec e) = cid \<and> sp_Type (e_spec e) = cid \<and>
     ad_Name (e_adapter e) = cid \<and> e_source e = SourceEnv \<and> \<not> e_draining e \<and>
     sp_Secret (e_spec e) = '''' \<and> e_secretSet e = secret)"

lemma AddEnv_entry:
  assumes "sp_ID spec = ''''" "sp_Type spec = ''''"
  obtains e where "AddEnv spec (Some ad) r = r\<lparr>r_clients := AList.update (ad_Name ad) e (r_clients r)\<rparr>"
    "env_entry (ad_Name ad) (sp_Secret spec \<noteq> '''') (ad_Name ad, e)"
proof (rule that)
  let ?s = "env_spec spec ad"
  let ?e = "\<lparr>e_spec = ?s\<lparr>sp_Secret := ''''\<rparr>, e_secretSet = (sp_Secret ?s \<noteq> ''''), e_source = SourceEnv,
    e_adapter = ad, e_hash = zero_hash, e_draining = False\<rparr>"
  have s: "sp_ID ?s = ad_Name ad" "sp_Type ?s = ad_Name ad" "sp_Secret ?s = sp_Secret spec"
    using assms by (simp_all add: env_spec_def Let_def split: option.splits)
  show "AddEnv spec (Some ad) r = r\<lparr>r_clients := AList.update (ad_Name ad) ?e (r_clients r)\<rparr>"
    by (simp add: AddEnv_def s)
  show "env_entry (ad_Name ad) (sp_Secret spec \<noteq> '''') (ad_Name ad, ?e)" by (simp add: env_entry_def s)
qed

lemma adapter_names [simp]:
  "ad_Name (odownloader_adapter x d) = ''odownloader''" "ad_Name (nzbget_adapter x n) = ''nzbget''"
  "ad_Name (qbittorrent_adapter x q) = ''qbittorrent''"
  by (simp_all add: odownloader_adapter_def nzbget_adapter_def qbittorrent_adapter_def)

lemma zero_spec_id [simp]: "sp_ID zero_ClientSpec = ''''" "sp_Type zero_ClientSpec = ''''"
  by (simp_all add: zero_ClientSpec_def)

lemma env_odownloader_cases:
  obtains "Getenv env ''ODOWNLOADER_BASE_URL'' = ''''" "env_odownloader x env r = r"
  | e where "Getenv env ''ODOWNLOADER_BASE_URL'' \<noteq> ''''"
      "env_odownloader x env r = r\<lparr>r_clients := AList.update ''odownloader'' e (r_clients r)\<rparr>"
      "env_entry ''odownloader'' (Getenv env ''ODOWNLOADER_TOKEN'' \<noteq> '''') (''odownloader'', e)"
proof (cases "Getenv env ''ODOWNLOADER_BASE_URL'' = ''''")
  case False
  let ?spec = "zero_ClientSpec\<lparr>sp_BaseURL := Getenv env ''ODOWNLOADER_BASE_URL'',
    sp_Auth := authMode (Getenv env ''ODOWNLOADER_TOKEN'' \<noteq> '''') AuthToken, sp_Secret := Getenv env ''ODOWNLOADER_TOKEN''\<rparr>"
  show ?thesis
    by (rule AddEnv_entry [of ?spec "odownloader_adapter x (NewODownloader (Getenv env ''ODOWNLOADER_BASE_URL'')
          (Getenv env ''ODOWNLOADER_TOKEN''))" r])
       (use False that(2) in \<open>auto simp: env_odownloader_def Let_def\<close>)
qed (use that in \<open>simp add: env_odownloader_def Let_def\<close>)

lemma env_nzbget_cases:
  obtains "Getenv env ''NZBGET_URL'' = ''''" "env_nzbget x env r = r"
  | e where "Getenv env ''NZBGET_URL'' \<noteq> ''''"
      "env_nzbget x env r = r\<lparr>r_clients := AList.update ''nzbget'' e (r_clients r)\<rparr>"
      "env_entry ''nzbget'' (Getenv env ''NZBGET_PASS'' \<noteq> '''') (''nzbget'', e)"
proof (cases "Getenv env ''NZBGET_URL'' = ''''")
  case False
  let ?spec = "zero_ClientSpec\<lparr>sp_BaseURL := Getenv env ''NZBGET_URL'',
    sp_Auth := authMode (Getenv env ''NZBGET_USER'' \<noteq> '''') AuthBasic, sp_Username := Getenv env ''NZBGET_USER'',
    sp_Secret := Getenv env ''NZBGET_PASS'', sp_Category := Getenv env ''NZBGET_CATEGORY''\<rparr>"
  show ?thesis
    by (rule AddEnv_entry [of ?spec "nzbget_adapter x (NewNZBGet (Getenv env ''NZBGET_URL'')
          (Getenv env ''NZBGET_USER'') (Getenv env ''NZBGET_PASS'') (Getenv env ''NZBGET_CATEGORY''))" r])
       (use False that(2) in \<open>auto simp: env_nzbget_def Let_def\<close>)
qed (use that in \<open>simp add: env_nzbget_def Let_def\<close>)

lemma env_qbittorrent_cases:
  obtains "Getenv env ''QBITTORRENT_BASE_URL'' = ''''" "fst (env_qbittorrent x env r w) = r"
  | e where "Getenv env ''QBITTORRENT_BASE_URL'' \<noteq> ''''"
      "fst (env_qbittorrent x env r w) = r\<lparr>r_clients := AList.update ''qbittorrent'' e (r_clients r)\<rparr>"
      "env_entry ''qbittorrent'' (Getenv env ''QBITTORRENT_PASS'' \<noteq> '''') (''qbittorrent'', e)"
proof (cases "Getenv env ''QBITTORRENT_BASE_URL'' = ''''")
  case False
  let ?b = "Getenv env ''QBITTORRENT_BASE_URL''" and ?u = "Getenv env ''QBITTORRENT_USER''"
    and ?p = "Getenv env ''QBITTORRENT_PASS''"
  let ?spec = "zero_ClientSpec\<lparr>sp_BaseURL := ?b, sp_Auth := authMode (?u \<noteq> '''') AuthBasic, sp_Username := ?u, sp_Secret := ?p\<rparr>"
  obtain q w' where q: "NewQBittorrent x ?b ?u ?p w = (q, w')" by (rule prod.exhaust)
  show ?thesis
    by (rule AddEnv_entry [of ?spec "qbittorrent_adapter x q" r])
       (use False that(2) q in \<open>auto simp: env_qbittorrent_def Let_def\<close>)
qed (use that in \<open>simp add: env_qbittorrent_def Let_def\<close>)

text \<open>The clients the environment can configure: id, base URL variable, secret variable.\<close>

definition env_vars :: "(string \<times> string \<times> string) list" where
  "env_vars = [(''odownloader'', ''ODOWNLOADER_BASE_URL'', ''ODOWNLOADER_TOKEN''),
     (''qbittorrent'', ''QBITTORRENT_BASE_URL'', ''QBITTORRENT_PASS''), (''nzbget'', ''NZBGET_URL'', ''NZBGET_PASS'')]"

lemma env_registry:
  shows "list_all2 (\<lambda>(cid, url, secret). env_entry cid (Getenv env secret \<noteq> ''''))
     (filter (\<lambda>(cid, url, secret). Getenv env url \<noteq> '''') env_vars)
     (r_clients (fst (registerEnvClients x env (NewRegistry []) w)))"
    and "r_leases (fst (registerEnvClients x env (NewRegistry []) w)) = []"
    and "r_revision (fst (registerEnvClients x env (NewRegistry []) w)) = 0"
proof -
  let ?r1 = "env_odownloader x env (NewRegistry [])" and ?r2 = "\<lambda>r. fst (env_qbittorrent x env r w)"
  have all: "fst (registerEnvClients x env (NewRegistry []) w) = env_nzbget x env (?r2 ?r1)"
    by (simp add: registerEnvClients_def split: prod.splits)
  have e: "NewRegistry [] = empty_Registry" by (simp add: NewRegistry_def)
  have "list_all2 (\<lambda>(cid, url, secret). env_entry cid (Getenv env secret \<noteq> ''''))
     (filter (\<lambda>(cid, url, secret). Getenv env url \<noteq> '''') env_vars) (r_clients (env_nzbget x env (?r2 ?r1))) \<and>
     r_leases (env_nzbget x env (?r2 ?r1)) = [] \<and> r_revision (env_nzbget x env (?r2 ?r1)) = 0"
    unfolding e
    by (rule env_odownloader_cases [of env x empty_Registry]; rule env_qbittorrent_cases [of env x "env_odownloader x env empty_Registry" w];
        rule env_nzbget_cases [of env x "fst (env_qbittorrent x env (env_odownloader x env empty_Registry) w)"])
       (simp_all add: env_vars_def empty_Registry_def)
  then show "list_all2 (\<lambda>(cid, url, secret). env_entry cid (Getenv env secret \<noteq> ''''))
       (filter (\<lambda>(cid, url, secret). Getenv env url \<noteq> '''') env_vars)
       (r_clients (fst (registerEnvClients x env (NewRegistry []) w)))"
    "r_leases (fst (registerEnvClients x env (NewRegistry []) w)) = []"
    "r_revision (fst (registerEnvClients x env (NewRegistry []) w)) = 0"
    unfolding all by blast+
qed

text \<open>The clients of the environment are exactly those whose base URL variable is set, in
  a fixed order, each under its type's name; none drains, none keeps its secret, and whether a
  secret is set is what the environment says.\<close>

theorem registerEnvClients_spec:
  "list_all2 (\<lambda>(cid, url, secret). env_entry cid (Getenv env secret \<noteq> ''''))
     (filter (\<lambda>(cid, url, secret). Getenv env url \<noteq> '''') env_vars)
     (r_clients (fst (registerEnvClients x env (NewRegistry []) w)))"
  by (rule env_registry)

lemma list_all2_right: "list_all2 P xs ys \<Longrightarrow> (\<And>x y. x \<in> set xs \<Longrightarrow> P x y \<Longrightarrow> Q y) \<Longrightarrow> list_all Q ys"
  by (induction rule: list_all2_induct) auto

text \<open>What every registered client of the process has at the start.\<close>

definition fresh_registry :: "'w Registry \<Rightarrow> bool" where
  "fresh_registry r \<longleftrightarrow> reg_wf r \<and> r_leases r = [] \<and> r_revision r = 0 \<and>
     list_all (\<lambda>(cid, e). e_source e = SourceEnv \<and> ValidClientID cid) (r_clients r)"

lemma fresh_env: "fresh_registry (fst (registerEnvClients x env (NewRegistry []) w))"
proof -
  have valid: "list_all (\<lambda>(cid, url, secret). ValidClientID cid) env_vars" by code_simp
  have "list_all (\<lambda>(cid, e). e_source e = SourceEnv \<and> ValidClientID cid)
      (r_clients (fst (registerEnvClients x env (NewRegistry []) w)))"
    by (rule list_all2_right [OF env_registry(1)]) (use valid in \<open>auto simp: env_entry_def list_all_iff\<close>)
  moreover have "reg_wf (fst (registerEnvClients x env (NewRegistry []) w))"
    by (simp add: registerEnvClients_def env_odownloader_def env_qbittorrent_def env_nzbget_def Let_def
        reg_wf_AddEnv reg_wf_NewRegistry split: prod.splits)
  ultimately show ?thesis by (simp add: fresh_registry_def env_registry(2,3))
qed

text \<open>The invariant of the gateway between two requests: a tracked job always has its client.\<close>

definition gw_ok :: "'w gateway \<Rightarrow> bool" where
  "gw_ok g \<longleftrightarrow> reg_wf (gw_reg g) \<and> jobs_wf (gw_jobs g) \<and>
     (\<forall>k t. map_of (gw_jobs g) k = Some t \<longrightarrow> registered (gw_reg g) (tr_adapter t))"

lemma adopt_ok:
  assumes "gw_ok g" "adopt cid (gw_reg g) (gw_jobs g) w = (reg', jobs', w')"
  shows "gw_ok (g\<lparr>gw_reg := reg', gw_jobs := jobs'\<rparr>)" "r_clients reg' = r_clients (gw_reg g)"
    "lease_count reg' = lease_count (gw_reg g)"
proof -
  have wf: "reg_wf (gw_reg g)" "jobs_wf (gw_jobs g)" using assms(1) by (simp_all add: gw_ok_def)
  note eff = adopt_effect [OF wf(1) assms(2)]
  then show cl: "r_clients reg' = r_clients (gw_reg g)" "lease_count reg' = lease_count (gw_reg g)" by simp_all
  have "registered reg' (tr_adapter t)" if "map_of jobs' k = Some t" for k t
  proof (cases "map_of (gw_jobs g) k")
    case None
    with eff that obtain c j where "Lookup (gw_reg g) cid = Some c" "t = adopted cid (cl_Type c) j" by metis
    then show ?thesis by (auto simp: registered_iff cl adopted_def Lookup_def)
  next
    case (Some u)
    with eff that have "map_of (gw_jobs g) k = Some t" by auto
    with assms(1) show ?thesis by (auto simp: gw_ok_def registered_iff cl)
  qed
  with adopt_wf [OF wf assms(2)] show "gw_ok (g\<lparr>gw_reg := reg', gw_jobs := jobs'\<rparr>)" by (simp add: gw_ok_def)
qed

lemma adoptExisting_ok:
  assumes "gw_ok g" "adoptExisting cids (gw_reg g) (gw_jobs g) w = (reg', jobs', w')"
  shows "gw_ok (g\<lparr>gw_reg := reg', gw_jobs := jobs'\<rparr>) \<and> r_clients reg' = r_clients (gw_reg g) \<and>
    lease_count reg' = lease_count (gw_reg g)"
  using assms
proof (induction cids arbitrary: g w)
  case (Cons cid cids)
  obtain reg1 jobs1 w1 where a: "adopt cid (gw_reg g) (gw_jobs g) w = (reg1, jobs1, w1)" by (rule prod_cases3)
  let ?g = "g\<lparr>gw_reg := reg1, gw_jobs := jobs1\<rparr>"
  from Cons.IH [of ?g w1] adopt_ok [OF Cons.prems(1) a] Cons.prems(2) a show ?case by simp
qed (auto simp: gw_ok_def)

lemma adopt_revision: "adopt cid reg jobs w = (reg', jobs', w') \<Longrightarrow> r_revision reg' = r_revision reg"
  by (auto simp: adopt_def Lease_def release_def Let_def split: option.splits prod.splits sum.splits if_splits)

lemma adoptExisting_revision: "adoptExisting cids reg jobs w = (reg', jobs', w') \<Longrightarrow> r_revision reg' = r_revision reg"
  by (induction cids arbitrary: reg jobs w) (auto dest: adopt_revision split: prod.splits)

lemma boot_serves:
  assumes "boot x t newSyncProducer parse_duration env w = (Inr p, w')"
  shows "gw_ok (ps_gateway p) \<and>
    r_clients (gw_reg (ps_gateway p)) = r_clients (fst (registerEnvClients x env (NewRegistry []) w)) \<and>
    (\<forall>cid. lease_count (gw_reg (ps_gateway p)) cid = 0) \<and>
    r_revision (gw_reg (ps_gateway p)) = 0 \<and>
    gw_inFlight (ps_gateway p) = 0 \<and> gw_bg (ps_gateway p) = [] \<and>
    rp_Code (handleReady (Ready (Some (ps_pub p))) (ps_gateway p)) = 200"
proof -
  obtain reg w1 where reg: "registerEnvClients x env (NewRegistry []) w = (reg, w1)" by (rule prod.exhaust)
  then have fresh: "fresh_registry reg" using fresh_env [of x env w] by simp
  from assms reg obtain pub w2 where pub: "NewPublisher t newSyncProducer (ConfigFromEnv env) w1 = (Inr pub, w2)"
    by (auto simp: boot_def Let_def split: prod.splits sum.splits)
  then have ready: "\<not> pub_closed pub" by (auto simp: NewPublisher_def split: if_splits sum.splits prod.splits)
  let ?g = "newGateway reg"
  obtain reg' jobs' w3 where a: "adoptExisting (Names (gw_reg ?g)) (gw_reg ?g) (gw_jobs ?g) w2 = (reg', jobs', w3)"
    by (rule prod_cases3)
  have "gw_ok ?g" using fresh by (simp add: gw_ok_def newGateway_def fresh_registry_def)
  from adoptExisting_ok [OF this a]
  have ok: "gw_ok (?g\<lparr>gw_reg := reg', gw_jobs := jobs'\<rparr>)" "r_clients reg' = r_clients reg"
    "lease_count reg' = lease_count reg" by (simp_all add: newGateway_def)
  have "r_revision reg' = 0"
    using adoptExisting_revision [OF a] fresh by (simp add: newGateway_def fresh_registry_def)
  note ok = ok this
  have p: "ps_gateway p = ?g\<lparr>gw_reg := reg', gw_jobs := jobs'\<rparr>" "ps_pub p = pub"
    using assms reg pub a by (auto simp: boot_def Let_def)
  have "\<forall>cid. lease_count reg cid = 0" using fresh by (simp add: fresh_registry_def lease_count_def)
  with ok ready show ?thesis
    by (simp add: p reg) (simp add: newGateway_def handleReady_def Ready_def)
qed

lemma boot_poll:
  assumes "boot x t newSyncProducer parse_duration env w = (Inr p, w')"
  shows "ps_poll p \<le> 0 \<longleftrightarrow>
    Getenv env ''POLL_INTERVAL'' \<noteq> '''' \<and> (\<exists>n \<le> 0. parse_duration (Getenv env ''POLL_INTERVAL'') = Some n)"
  using assms by (auto simp: boot_def Let_def envDur_def split: prod.splits sum.splits option.splits if_splits)

lemma shutdown_unready:
  assumes "shutdown srvShutdown p w = (p', w')"
  shows "pub_closed (ps_pub p')" "rp_Code (handleReady b (ps_gateway p')) = 503"
  using assms by (auto simp: shutdown_def Close_def begin_shutdown_def handleReady_def Let_def split: option.splits prod.splits)

text \<open>C24: The state a process serves from. When it starts at all, its registry holds the clients
  of the environment and nothing else, at revision 0 and with no lease; the jobs it tracks are
  jobs of these clients; nothing is reserved or pending, and it reports itself ready. Its poll loop
  runs unless \<open>POLL_INTERVAL\<close> is a duration that is not positive, which brings the process down;
  and once it shuts down it is not ready any more and its publisher is closed.\<close>

theorem boot_state:
  assumes "boot x t newSyncProducer parse_duration env w = (Inr p, w')"
  shows "gw_ok (ps_gateway p) \<and>
    r_clients (gw_reg (ps_gateway p)) = r_clients (fst (registerEnvClients x env (NewRegistry []) w)) \<and>
    (\<forall>cid. lease_count (gw_reg (ps_gateway p)) cid = 0) \<and>
    r_revision (gw_reg (ps_gateway p)) = 0 \<and>
    gw_inFlight (ps_gateway p) = 0 \<and> gw_bg (ps_gateway p) = [] \<and>
    rp_Code (handleReady (Ready (Some (ps_pub p))) (ps_gateway p)) = 200 \<and>
    (pollLoop (ps_poll p) cks g w1 = None \<longleftrightarrow>
       Getenv env ''POLL_INTERVAL'' \<noteq> '''' \<and> (\<exists>n \<le> 0. parse_duration (Getenv env ''POLL_INTERVAL'') = Some n)) \<and>
    (\<forall>p' w2. shutdown srvShutdown p w1 = (p', w2) \<longrightarrow>
       pub_closed (ps_pub p') \<and> rp_Code (handleReady b (ps_gateway p')) = 503)"
  using boot_serves [OF assms] boot_poll [OF assms] shutdown_unready [of srvShutdown p w1] by (auto simp: pollLoop_def)

text \<open>A process with one client from the environment and no Kafka.\<close>

definition demo_env :: "string \<Rightarrow> string option" where
  "demo_env k = (if k = ''NZBGET_URL'' then Some ''http://n'' else None)"

theorem boot_state_witness:
  "\<exists>p w'. boot demo_ext demo_tls (\<lambda>_ _ w. (Inl (ErrText ''down''), w)) (\<lambda>_. None) demo_env () = (Inr p, w') \<and>
     map fst (r_clients (gw_reg (ps_gateway p))) = [''nzbget''] \<and> pollLoop (ps_poll p) [] (ps_gateway p) () \<noteq> None"
proof -
  let ?b = "boot demo_ext demo_tls (\<lambda>_ _ w. (Inl (ErrText ''down''), w)) (\<lambda>_. None) demo_env ()"
  obtain r w' where b: "?b = (r, w')" by (rule prod.exhaust)
  have "\<not> isl (fst ?b)" by code_simp
  then obtain p where p: "?b = (Inr p, w')" using b by (cases r) auto
  have "map fst (r_clients (fst (registerEnvClients demo_ext demo_env (NewRegistry []) ()))) = [''nzbget'']" by code_simp
  moreover have "Getenv demo_env ''POLL_INTERVAL'' = ''''" by code_simp
  ultimately show ?thesis using boot_state [OF p] p by auto
qed


lemma Lease_same_clients: "Lease cid r = (res, r') \<Longrightarrow> r_clients r' = r_clients r"
  using Lease_clients [of cid r] by simp

lemma handleAdd_clients: "handleAdd up rq g w = (resp, g', evs, w') \<Longrightarrow> r_clients (gw_reg g') = r_clients (gw_reg g)"
  by (auto simp: handleAdd_def Let_def dest: Lease_same_clients split: option.splits prod.splits sum.splits)

lemma handleRemove_reg: "handleRemove up rq g w = (resp, g', w') \<Longrightarrow> gw_reg g' = gw_reg g"
  by (auto simp: handleRemove_def split: option.splits prod.splits)

text \<open>Which handlers can change the clients, and which the gateway at all.\<close>

lemma run_endpoint_effect:
  assumes "run_endpoint x up metrics pubReady ep rq g w = (resp, g', evs, w')"
  shows "g' = g \<and> evs = [] \<or> ep \<in> {AddDownload, RemoveDownload, ConfigApply}"
    and "r_clients (gw_reg g') = r_clients (gw_reg g) \<or> ep = ConfigApply"
proof -
  show "g' = g \<and> evs = [] \<or> ep \<in> {AddDownload, RemoveDownload, ConfigApply}"
    using assms by (cases ep) (auto simp: run_endpoint_def split: prod.splits)
  then consider "g' = g" | "ep = AddDownload" | "ep = RemoveDownload" | "ep = ConfigApply" by blast
  then show "r_clients (gw_reg g') = r_clients (gw_reg g) \<or> ep = ConfigApply"
  proof cases
    case 2
    then show ?thesis using assms by (simp add: run_endpoint_def handleAdd_clients)
  next
    case 3
    then show ?thesis using assms by (auto simp: run_endpoint_def dest: handleRemove_reg split: prod.splits)
  qed simp_all
qed

text \<open>A bearer token that a verifier of the configured issuer accepted, and one issued to an
  allowed client.\<close>

definition bearer_ok :: "('v, 't, 'w) oidc \<Rightarrow> 'v Verifier \<Rightarrow> string \<Rightarrow> 't \<Rightarrow> bool" where
  "bearer_ok oi v authz tok \<longleftrightarrow> (\<exists>raw ver w0 w1 w2 w3. authz = ''Bearer '' @ raw \<and>
     oi_NewProvider oi (v_issuer v) w0 = (Inr ver, w1) \<and> oi_Verify oi ver raw w2 = (Inr tok, w3))"

lemma routes_guarded:
  assumes "rt \<in> set (routes v)" "rt_Endpoint rt \<in> {AddDownload, RemoveDownload, ConfigApply}"
  shows "rt_Guarded rt" "rt_Endpoint rt = ConfigApply \<longrightarrow> Restricted v"
  using assms by (auto simp: routes_def ops_routes_def api_routes_def config_routes_def route_def split: if_splits)

lemma Middleware_Next_ok:
  assumes "issued_by oi v" "Enabled v" "Middleware up oi v authz w = (Next, v', w')"
  shows "\<exists>tok. bearer_ok oi v authz tok \<and> (Restricted v \<longrightarrow> allows oi v tok)"
  using Middleware_through [OF assms] unfolding bearer_ok_def allows_def by fastforce

lemma Middleware_verifier:
  assumes "issued_by oi v" "Middleware up oi v authz w = (d, v', w')"
  shows "issued_by oi v' \<and> v_issuer v' = v_issuer v \<and> v_allowed v' = v_allowed v"
proof -
  have "issued_by oi v1 \<and> v_issuer v1 = v_issuer v \<and> v_allowed v1 = v_allowed v"
    if "ensure oi v w = (r, v1, w1)" for r v1 w1
    using that assms(1) by (cases r) (auto dest: ensure_Inr ensure_Inl)
  with assms show ?thesis by (auto simp: Middleware_def split: if_splits prod.splits sum.splits)
qed

text \<open>C8: Nothing of the gateway changes without passing the gate. With an issuer configured, a
  request that changes the gateway or publishes an event carries a bearer token the issuer's
  verifier accepted. The registered clients change only when callers are restricted to named
  clients, and only by a request whose token was issued to one of them. Serving a request
  leaves the gate as strict as it was.\<close>

theorem serve_gate:
  assumes "router_ok chi" "issued_by oi v"
    "serve x up oi chi metrics pubReady target rq v g w = (resp, v', g', evs, w')"
  shows "(Enabled v \<and> (g' \<noteq> g \<or> evs \<noteq> []) \<longrightarrow> (\<exists>tok. bearer_ok oi v (q_Authorization rq) tok)) \<and>
    (r_clients (gw_reg g') \<noteq> r_clients (gw_reg g) \<longrightarrow>
       Restricted v \<and> (\<exists>tok. bearer_ok oi v (q_Authorization rq) tok \<and> allows oi v tok)) \<and>
    issued_by oi v' \<and> v_issuer v' = v_issuer v \<and> v_allowed v' = v_allowed v"
proof (cases "chi (routes v) target rq")
  case (Inl r)
  then show ?thesis using assms by (simp add: serve_def)
next
  case (Inr p)
  then obtain rt rq' where p: "chi (routes v) target rq = Inr (rt, rq')" by (cases p) auto
  have rt: "rt \<in> set (routes v)" "q_Authorization rq' = q_Authorization rq"
    using assms(1) [unfolded router_ok_def, rule_format, OF p] by auto
  obtain d v1 w1 where gate: "(if rt_Guarded rt then Middleware up oi v (q_Authorization rq) w else (Next, v, w)) = (d, v1, w1)"
    by (rule prod_cases3)
  then have v1: "issued_by oi v1 \<and> v_issuer v1 = v_issuer v \<and> v_allowed v1 = v_allowed v"
    using assms(2) Middleware_verifier [OF assms(2)] by (auto split: if_splits)
  note served = assms(3) [unfolded serve_def p sum.case prod.case rt(2) gate]
  show ?thesis
  proof (cases d)
    case (Refuse code msg)
    then show ?thesis using served v1 by auto
  next
    case Next
    obtain resp1 g1 evs1 w2 where run: "run_endpoint x up metrics pubReady (rt_Endpoint rt) rq' g w1 = (resp1, g1, evs1, w2)"
      by (metis prod_cases4)
    have out: "v' = v1" "g' = g1" "evs = evs1" using served Next run by auto
    have tok: "\<exists>tok. bearer_ok oi v (q_Authorization rq) tok \<and> (Restricted v \<longrightarrow> allows oi v tok)"
      if "rt_Endpoint rt \<in> {AddDownload, RemoveDownload, ConfigApply}" "Enabled v"
      using Middleware_Next_ok [OF assms(2) that(2)] gate Next routes_guarded(1) [OF rt(1) that(1)] by auto
    from run_endpoint_effect [OF run] out v1 show ?thesis
      using tok routes_guarded(2) [OF rt(1)] by (auto simp: Restricted_def Enabled_def)
  qed
qed

text \<open>A router for patterns without parameters.\<close>

definition demo_router :: "route list \<Rightarrow> string \<times> string \<Rightarrow> request \<Rightarrow> response + route \<times> request" where
  "demo_router rs target rq =
     (case filter (\<lambda>rt. rt_Method rt = Some (fst target) \<and> rt_Pattern rt = snd target) rs of
        [] \<Rightarrow> Inl (http_error 404 ''404 page not found'') | rt # _ \<Rightarrow> Inr (rt, rq))"

lemma demo_router_ok: "router_ok demo_router"
  unfolding router_ok_def demo_router_def
proof (intro allI impI)
  fix rs target rt rq' and rq :: request
  assume a: "(case filter (\<lambda>rt. rt_Method rt = Some (fst target) \<and> rt_Pattern rt = snd target) rs of
      [] \<Rightarrow> Inl (http_error 404 ''404 page not found'') | rt # _ \<Rightarrow> Inr (rt, rq)) = Inr (rt, rq')"
  then have "rt \<in> set (filter (\<lambda>rt. rt_Method rt = Some (fst target) \<and> rt_Pattern rt = snd target) rs)" "rq' = rq"
    by (auto split: list.splits simp del: set_filter)
  moreover have "\<exists>a i. rq = rq\<lparr>q_adapter := a, q_id := i\<rparr>"
    by (rule exI [of _ "q_adapter rq"], rule exI [of _ "q_id rq"]) simp
  ultimately show "rt \<in> set rs \<and> rt_Method rt \<in> {None, Some (fst target)} \<and> (\<exists>a i. rq' = rq\<lparr>q_adapter := a, q_id := i\<rparr>)"
    by auto
qed

definition demo_call :: "string \<Rightarrow> string \<Rightarrow> request" where
  \<open>demo_call authz bdy = (demo_push bdy)\<lparr>q_Authorization := authz\<rparr>\<close>

theorem serve_gate_witness:
  \<open>r_clients (gw_reg (fst (snd (snd (serve demo_ext (\<lambda>_. True) demo_oidc demo_router handleConfigTypes True
     (''PUT'', ''/api/v1/config/clients'') (demo_call ''Bearer other'' ''{"revision":3,"clients":[]}'')
     demo_verifier (newGateway demo_accepting) ()))))) = r_clients demo_accepting\<close>
proof -
  let ?s = \<open>serve demo_ext (\<lambda>_. True) demo_oidc demo_router handleConfigTypes True
     (''PUT'', ''/api/v1/config/clients'') (demo_call ''Bearer other'' ''{"revision":3,"clients":[]}'')
     demo_verifier (newGateway demo_accepting) ()\<close>
  obtain resp v' g' evs w' where s: "?s = (resp, v', g', evs, w')" by (metis prod_cases5)
  have "issued_by demo_oidc demo_verifier" by (simp add: issued_by_def demo_verifier_simps)
  note gate = serve_gate [OF demo_router_ok this s]
  have "\<not> (bearer_ok demo_oidc demo_verifier ''Bearer other'' tok \<and> allows demo_oidc demo_verifier tok)" for tok
    by (auto simp: bearer_ok_def allows_def demo_oidc_def demo_verifier_simps)
  with gate s show ?thesis by (auto simp: demo_call_def newGateway_def)
qed

end
