(* ===== verification/System.thy ===== *)
theory System
  imports Server "HOL-Library.Multiset"
begin

text \<open>
  The gateway under concurrency. Handlers, adoptions and polls are goroutines; each runs
  through stages, and between two stages anything else may happen. A stage is what the code
  does under one lock, or one call to a client. \<open>task_step\<close> is a stage of one
  goroutine; the theory's step relation lets any task take a stage, lets requests arrive, and
  lets a push or a reap hold the registry's lock while it asks for the jobs of one client
  after the other (\<open>inUse\<close>, under the other lock) and then changes the clients at once.
  The world can change at any time, so a client may answer anything at any call.
\<close>


section \<open>Goroutines\<close>

text \<open>
  What is left to do of a goroutine. An add holds its reserved bytes from its admission to its
  end, and a lease of its client from the lease until after its job is tracked and published;
  an adoption holds a lease until its jobs are tracked.
\<close>

datatype 'w task =
    AddArrived request
  | AddAdmitted int request
  | AddCalling int string "'w Client" addRequest
  | AddAccepted int string tracked event
  | AddTracked int string event
  | AddFinished int string
  | AddReleased int
  | RemoveArrived string string
  | RemoveCalling string string "'w Adapter"
  | RemoveFinished string string
  | AdoptPending string
  | AdoptCalling string "'w Client"
  | AdoptTracking string string "AdoptedJob list"
  | AdoptFinished string
  | PollPending tracked
  | PollAsking tracked "'w Adapter"
  | PollSeen tracked JobView
  | PollDerive tracked JobView
  | PollProgress tracked JobView
  | PollObserve tracked JobView
  | PollEnd tracked event
  | PollDrop tracked

text \<open>
  A stage of a task. The first argument says whether the registry's lock is free; the tasks
  that take over, the gateway, the events published and the world come out.
\<close>

inductive task_step ::
  "bool \<Rightarrow> 'w task \<Rightarrow> 'w gateway \<Rightarrow> 'w \<Rightarrow> 'w task list \<Rightarrow> 'w gateway \<Rightarrow> event list \<Rightarrow> 'w \<Rightarrow> bool" where
  add_refused: "task_step fr (AddArrived rq) g w [] g [] w"
    if "admitAdd (q_ContentLength rq) (gw_inFlight g) = None"
| add_admitted: "task_step fr (AddArrived rq) g w [AddAdmitted n rq] (g\<lparr>gw_inFlight := m\<rparr>) [] w"
    if "admitAdd (q_ContentLength rq) (gw_inFlight g) = Some (n, m)"
| add_bad_body: "task_step fr (AddAdmitted n rq) g w [AddReleased n] g [] w"
    if "decodeJSON (q_Body rq) maxAddBody dec_addRequest = Inl resp"
| add_bad_target: "task_step fr (AddAdmitted n rq) g w [AddReleased n] g [] w"
    if "decodeJSON (q_Body rq) maxAddBody dec_addRequest = Inr req" "add_target req = Inl resp"
| add_no_client: "task_step True (AddAdmitted n rq) g w [AddReleased n] (g\<lparr>gw_reg := reg\<rparr>) [] w"
    if "decodeJSON (q_Body rq) maxAddBody dec_addRequest = Inr req" "add_target req = Inr cid"
       "Lease cid (gw_reg g) = (Inl e, reg)"
| add_leased: "task_step True (AddAdmitted n rq) g w [AddCalling n cid c req] (g\<lparr>gw_reg := reg\<rparr>) [] w"
    if "decodeJSON (q_Body rq) maxAddBody dec_addRequest = Inr req" "add_target req = Inr cid"
       "Lease cid (gw_reg g) = (Inr c, reg)"
| add_called: "task_step fr (AddCalling n cid c req) g w
      (case evs of [] \<Rightarrow> [AddFinished n cid]
       | ev # _ \<Rightarrow> [AddAccepted n cid (added cid c req (event_client_id ev)) ev]) g [] w'"
    if "add_leased up cid c req (gw_jobs g) w = (resp, jobs, evs, w')"
| add_tracked: "task_step fr (AddAccepted n cid t ev) g w [AddTracked n cid ev]
      (g\<lparr>gw_jobs := track t (gw_jobs g)\<rparr>) [] w"
| add_published: "task_step fr (AddTracked n cid ev) g w [AddFinished n cid] g [ev] w"
| add_released: "task_step True (AddFinished n cid) g w [AddReleased n]
      (g\<lparr>gw_reg := release cid (gw_reg g)\<rparr>) [] w"
| add_ended: "task_step fr (AddReleased n) g w [] (g\<lparr>gw_inFlight := admitRelease n (gw_inFlight g)\<rparr>) [] w"
| remove_no_client: "task_step True (RemoveArrived cid jid) g w [] g [] w"
    if "Get (gw_reg g) cid = None"
| remove_found: "task_step True (RemoveArrived cid jid) g w [RemoveCalling cid jid ad] g [] w"
    if "Get (gw_reg g) cid = Some ad"
| remove_failed: "task_step fr (RemoveCalling cid jid ad) g w [] g [] w'"
    if "ad_Remove ad jid w = (Some e, w')"
| remove_called: "task_step fr (RemoveCalling cid jid ad) g w [RemoveFinished cid jid] g [] w'"
    if "ad_Remove ad jid w = (None, w')"
| remove_untracked: "task_step fr (RemoveFinished cid jid) g w []
      (g\<lparr>gw_jobs := untrack cid jid (gw_jobs g)\<rparr>) [] w"
| adopt_gone: "task_step True (AdoptPending cid) g w [] (g\<lparr>gw_reg := reg\<rparr>) [] w"
    if "Lease cid (gw_reg g) = (Inl e, reg)"
| adopt_leased: "task_step True (AdoptPending cid) g w [AdoptCalling cid c] (g\<lparr>gw_reg := reg\<rparr>) [] w"
    if "Lease cid (gw_reg g) = (Inr c, reg)"
| adopt_unable: "task_step fr (AdoptCalling cid c) g w [AdoptFinished cid] g [] w"
    if "ad_Rehydrator (cl_Adapter c) = None"
| adopt_failed: "task_step fr (AdoptCalling cid c) g w [AdoptFinished cid] g [] w'"
    if "ad_Rehydrator (cl_Adapter c) = Some Adopt" "Adopt w = (Inl e, w')"
| adopt_listed: "task_step fr (AdoptCalling cid c) g w [AdoptTracking cid (cl_Type c) js] g [] w'"
    if "ad_Rehydrator (cl_Adapter c) = Some Adopt" "Adopt w = (Inr js, w')"
| adopt_tracked: "task_step fr (AdoptTracking cid ctype (j # js)) g w [AdoptTracking cid ctype js]
      (g\<lparr>gw_jobs := snd (trackIfAbsent (adopted cid ctype j) (gw_jobs g))\<rparr>) [] w"
| adopt_all: "task_step fr (AdoptTracking cid ctype []) g w [AdoptFinished cid] g [] w"
| adopt_released: "task_step True (AdoptFinished cid) g w [] (g\<lparr>gw_reg := release cid (gw_reg g)\<rparr>) [] w"
| poll_gone: "task_step True (PollPending job) g w [PollDrop job] g [] w"
    if "Get (gw_reg g) (tr_adapter job) = None"
| poll_found: "task_step True (PollPending job) g w [PollAsking job ad] g [] w"
    if "Get (gw_reg g) (tr_adapter job) = Some ad"
| poll_failed: "task_step fr (PollAsking job ad) g w [] g [] w'"
    if "ad_Describe ad (tr_clientJobID job) w = (Inl e, w')"
| poll_described: "task_step fr (PollAsking job ad) g w [PollSeen job v] g [] w'"
    if "ad_Describe ad (tr_clientJobID job) w = (Inr v, w')"
| poll_completed: "task_step fr (PollSeen job v) g w [PollEnd job (completed_event job v)] g [] w"
    if "jv_State v = StatusCompleted"
| poll_job_failed: "task_step fr (PollSeen job v) g w [PollEnd job (failed_event job (titleOf job v) (jv_Message v))] g [] w"
    if "jv_State v = StatusFailed"
| poll_lost: "task_step fr (PollSeen job v) g w
      [PollEnd job (failed_event job (tr_title job) (''job is no longer known to '' @ tr_adapter job))]
      (g\<lparr>gw_jobs := jobs\<rparr>) [] w"
    if "jv_State v \<notin> {StatusCompleted, StatusFailed}" "jv_NativeState v = NotFoundState"
       "markMissing job now (gw_jobs g) = (True, jobs)"
| poll_missing: "task_step fr (PollSeen job v) g w [PollDerive job v] (g\<lparr>gw_jobs := jobs\<rparr>) [] w"
    if "jv_State v \<notin> {StatusCompleted, StatusFailed}" "jv_NativeState v = NotFoundState"
       "markMissing job now (gw_jobs g) = (False, jobs)"
| poll_known: "task_step fr (PollSeen job v) g w [PollDerive job v] (g\<lparr>gw_jobs := clearMissing job (gw_jobs g)\<rparr>) [] w"
    if "jv_State v \<notin> {StatusCompleted, StatusFailed}" "jv_NativeState v \<noteq> NotFoundState"
| poll_derived: "task_step fr (PollDerive job v) g w [PollProgress job (fillDerived v pb pt now)] g [] w"
    if "prevSample job (gw_jobs g) = (pb, pt)"
| poll_published: "task_step fr (PollProgress job v) g w [PollObserve job v] g [progress_event job v] w"
| poll_observed: "task_step fr (PollObserve job v) g w [] (g\<lparr>gw_jobs := observe job v now (gw_jobs g)\<rparr>) [] w"
| poll_ended: "task_step fr (PollEnd job ev) g w [PollDrop job] g [ev] w"
| poll_dropped: "task_step fr (PollDrop job) g w []
      (g\<lparr>gw_jobs := untrack (tr_adapter job) (tr_clientJobID job) (gw_jobs g)\<rparr>) [] w"


section \<open>The whole process\<close>

text \<open>Who holds the registry's lock for longer than one stage, and the answers to \<open>inUse\<close> so
  far.\<close>

datatype lock_op = PushOp int "ClientSpec list" | ReapOp

record 'w sys =
  sy_gw :: "'w gateway"
  sy_tasks :: "'w task multiset"
  sy_lock :: "(lock_op \<times> (string \<rightharpoonup> bool)) option"
  sy_ticking :: bool            \<comment> \<open>a poll tick is under way\<close>
  sy_log :: "event list"
  sy_world :: 'w

definition start :: "'w gateway \<Rightarrow> 'w \<Rightarrow> 'w sys" where
  "start g w = \<lparr>sy_gw = g, sy_tasks = {#}, sy_lock = None, sy_ticking = False, sy_log = [], sy_world = w\<rparr>"

fun poll_job :: "'w task \<Rightarrow> tracked option" where
  "poll_job (PollPending job) = Some job"
| "poll_job (PollAsking job ad) = Some job"
| "poll_job (PollSeen job v) = Some job"
| "poll_job (PollDerive job v) = Some job"
| "poll_job (PollProgress job v) = Some job"
| "poll_job (PollObserve job v) = Some job"
| "poll_job (PollEnd job ev) = Some job"
| "poll_job (PollDrop job) = Some job"
| "poll_job _ = None"

text \<open>Every client that is not protected by a lease has been asked about.\<close>

definition all_asked :: "(string \<rightharpoonup> bool) \<Rightarrow> 'w Registry \<Rightarrow> bool" where
  "all_asked ans r \<longleftrightarrow> (\<forall>cid. registered r cid \<and> lease_count r cid = 0 \<longrightarrow> ans cid \<noteq> None)"

text \<open>Some task takes a stage.\<close>

inductive own_step :: "'w sys \<Rightarrow> 'w sys \<Rightarrow> bool" where
  own: "own_step s (s\<lparr>sy_gw := g, sy_tasks := sy_tasks s - {#t#} + mset ts, sy_log := sy_log s @ evs, sy_world := w\<rparr>)"
    if "t \<in># sy_tasks s" "task_step (sy_lock s = None) t (sy_gw s) (sy_world s) ts g evs w"

inductive sstep :: "'w ext \<Rightarrow> 'w sys \<Rightarrow> 'w sys \<Rightarrow> bool" for x :: "'w ext" where
  run: "sstep x s s'" if "own_step s s'"
| world: "sstep x s (s\<lparr>sy_world := w\<rparr>)"
| add_request: "sstep x s (s\<lparr>sy_tasks := add_mset (AddArrived rq) (sy_tasks s)\<rparr>)"
| remove_request: "sstep x s (s\<lparr>sy_tasks := add_mset (RemoveArrived cid jid) (sy_tasks s)\<rparr>)"
| adopt_started: "sstep x s (s\<lparr>sy_gw := (sy_gw s)\<lparr>gw_bg := cids\<rparr>, sy_tasks := add_mset (AdoptPending cid) (sy_tasks s)\<rparr>)"
    if "gw_bg (sy_gw s) = cid # cids"
| tick: "sstep x s (s\<lparr>sy_ticking := True, sy_tasks := sy_tasks s + mset (map PollPending (snapshot (gw_jobs (sy_gw s))))\<rparr>)"
    if "\<not> sy_ticking s"
| push: "sstep x s (s\<lparr>sy_lock := Some (PushOp revision specs, Map.empty)\<rparr>)"
    if "sy_lock s = None" "0 \<le> revision"
| reap: "sstep x s (s\<lparr>sy_lock := Some (ReapOp, Map.empty)\<rparr>)"
    if "sy_lock s = None" "sy_ticking s" "\<forall>t \<in># sy_tasks s. poll_job t = None"
| in_use: "sstep x s (s\<lparr>sy_lock := Some (opn, ans(cid \<mapsto> hasJobs (gw_jobs (sy_gw s)) cid))\<rparr>)"
    if "sy_lock s = Some (opn, ans)" "ans cid = None"
| pushed: "sstep x s (s\<lparr>sy_lock := None, sy_world := w,
      sy_gw := (sy_gw s)\<lparr>gw_reg := reg, gw_bg := gw_bg (sy_gw s) @ map cl_ID (res_Started res)\<rparr>\<rparr>)"
    if "sy_lock s = Some (PushOp revision specs, ans)" "all_asked ans (gw_reg (sy_gw s))"
       "Apply x revision specs (\<lambda>cid. ans cid = Some True) (gw_reg (sy_gw s)) (sy_world s) = (res, reg, w)"
| reaped: "sstep x s (s\<lparr>sy_lock := None, sy_ticking := False, sy_gw := (sy_gw s)\<lparr>gw_reg := reg\<rparr>\<rparr>)"
    if "sy_lock s = Some (ReapOp, ans)" "all_asked ans (gw_reg (sy_gw s))"
       "Reap (\<lambda>cid. ans cid = Some True) (gw_reg (sy_gw s)) = (cids, reg)"

inductive reachable :: "'w ext \<Rightarrow> 'w sys \<Rightarrow> 'w sys \<Rightarrow> bool" for x :: "'w ext" and s0 :: "'w sys" where
  init: "reachable x s0 s0"
| step: "reachable x s0 s \<Longrightarrow> sstep x s s' \<Longrightarrow> reachable x s0 s'"


section \<open>What one stage does\<close>

declare map_of_eq_Some_iff [simp del] Some_eq_map_of_iff [simp del]

text \<open>The client a task holds a lease of, and the bytes it has reserved.\<close>

fun leased_by :: "'w task \<Rightarrow> string option" where
  "leased_by (AddCalling n cid c req) = Some cid"
| "leased_by (AddAccepted n cid t ev) = Some cid"
| "leased_by (AddTracked n cid ev) = Some cid"
| "leased_by (AddFinished n cid) = Some cid"
| "leased_by (AdoptCalling cid c) = Some cid"
| "leased_by (AdoptTracking cid ctype js) = Some cid"
| "leased_by (AdoptFinished cid) = Some cid"
| "leased_by _ = None"

fun reserved :: "'w task \<Rightarrow> int" where
  "reserved (AddAdmitted n rq) = n"
| "reserved (AddCalling n cid c req) = n"
| "reserved (AddAccepted n cid t ev) = n"
| "reserved (AddTracked n cid ev) = n"
| "reserved (AddFinished n cid) = n"
| "reserved (AddReleased n) = n"
| "reserved _ = 0"

definition holds :: "string \<Rightarrow> 'w task \<Rightarrow> int" where
  "holds cid t = (if leased_by t = Some cid then 1 else 0)"

text \<open>A task is about its own client: the job an add will track is one of the leased client,
  and a polled job has a client id.\<close>

definition task_ok :: "'w task \<Rightarrow> bool" where
  "task_ok t \<longleftrightarrow> 0 \<le> reserved t \<and> (\<forall>n cid job ev. t = AddAccepted n cid job ev \<longrightarrow> tr_adapter job = cid) \<and>
     (\<forall>job. poll_job t = Some job \<longrightarrow> ValidClientID (tr_adapter job))"

lemma task_step_clients:
  assumes "task_step fr t g w ts g' evs w'"
  shows "r_clients (gw_reg g') = r_clients (gw_reg g)" "gw_bg g' = gw_bg g" "\<not> fr \<Longrightarrow> gw_reg g' = gw_reg g"
  using assms by (cases; auto dest: Lease_same_clients)+

lemma task_step_reg_wf:
  assumes "task_step fr t g w ts g' evs w'" "reg_wf (gw_reg g)"
  shows "reg_wf (gw_reg g')"
proof -
  have "reg_wf reg" if "Lease cid (gw_reg g) = (res, reg)" for cid res reg
    using reg_wf_Lease [OF assms(2), of cid] that by simp
  with assms show ?thesis by cases (auto simp: reg_wf_release)
qed

lemma task_step_leases:
  assumes "task_step fr t g w ts g' evs w'" "reg_wf (gw_reg g)" "holds cid t \<le> lease_count (gw_reg g) cid"
  shows "lease_count (gw_reg g') cid + holds cid t = lease_count (gw_reg g) cid + sum_list (map (holds cid) ts)"
proof -
  have "lease_count reg cid = lease_count (gw_reg g) cid + (if cid = c \<and> \<not> isl res then 1 else 0)"
    if "Lease c (gw_reg g) = (res, reg)" for c res reg
    using Lease_count [of c "gw_reg g" cid] that by simp
  with assms show ?thesis
    by cases (auto simp: holds_def release_count split: list.splits)
qed


lemma admitAdd_SomeD:
  assumes "admitAdd n m = Some (k, m')"
  shows "0 \<le> k" "m' = m + k" "m \<le> addBodyBudget \<Longrightarrow> m' \<le> addBodyBudget"
  using assms by (auto simp: admitAdd_def Let_def smallAddBody_def maxAddBody_def maxPayload_def split: if_splits)

lemma task_step_budget:
  assumes "task_step fr t g w ts g' evs w'"
  shows "gw_inFlight g' + reserved t = gw_inFlight g + sum_list (map reserved ts)"
    and "0 \<le> reserved t \<Longrightarrow> gw_inFlight g \<le> addBodyBudget \<Longrightarrow> gw_inFlight g' \<le> addBodyBudget"
  using assms by (cases; auto simp: admitRelease_def dest: admitAdd_SomeD split: list.splits)+

text \<open>No stage tracks a job of a client it holds no lease of.\<close>

definition job_clients :: "jobs \<Rightarrow> string set" where
  "job_clients jobs = {cid. \<exists>k t. map_of jobs k = Some t \<and> tr_adapter t = cid}"

lemma hasJobs_clients: "jobs_wf jobs \<Longrightarrow> hasJobs jobs cid \<longleftrightarrow> cid \<in> job_clients jobs"
  by (auto simp: hasJobs_iff job_clients_def)

lemma job_clients_track: "job_clients (track t jobs) \<subseteq> insert (tr_adapter t) (job_clients jobs)"
  by (auto simp: job_clients_def split: if_splits)

lemma job_clients_untrack: "job_clients (untrack a i jobs) \<subseteq> job_clients jobs"
  by (auto simp: job_clients_def split: if_splits)

lemma job_clients_keeps:
  assumes "keeps k jobs jobs'"
  shows "job_clients jobs' \<subseteq> job_clients jobs"
proof
  fix cid assume "cid \<in> job_clients jobs'"
  then obtain k' t where t: "map_of jobs' k' = Some t" "tr_adapter t = cid" by (auto simp: job_clients_def)
  show "cid \<in> job_clients jobs"
    using assms t by (cases "k' = k") (auto simp: job_clients_def keeps_def touches_def same_job_def split: option.splits)
qed

text \<open>The ways a stage can change the job map.\<close>

lemma task_step_jobs_cases:
  assumes "task_step fr t g w ts g' evs w'"
  obtains (same) "gw_jobs g' = gw_jobs g"
  | (tracks) n cid job ev where "t = AddAccepted n cid job ev" "gw_jobs g' = track job (gw_jobs g)"
  | (adopts) cid ctype j js where "t = AdoptTracking cid ctype (j # js)"
      "gw_jobs g' = snd (trackIfAbsent (adopted cid ctype j) (gw_jobs g))"
  | (removes) cid jid where "t = RemoveFinished cid jid" "gw_jobs g' = untrack cid jid (gw_jobs g)"
  | (drops) job where "t = PollDrop job" "gw_jobs g' = untrack (tr_adapter job) (tr_clientJobID job) (gw_jobs g)"
  | (polls) job where "poll_job t = Some job" "keeps (key_of job) (gw_jobs g) (gw_jobs g')"
proof -
  have mark: "keeps (key_of job) (gw_jobs g) jobs" if "markMissing job now (gw_jobs g) = (b, jobs)" for job now b jobs
    using keeps_markMissing [of job "gw_jobs g" now] that by simp
  show thesis
    using assms
  proof cases
    case (poll_lost v job now jobs)
    then show thesis using mark [OF poll_lost(8)] by (intro polls) simp_all
  next
    case (poll_missing v job now jobs)
    then show thesis using mark [OF poll_missing(8)] by (intro polls) simp_all
  next
    case (poll_known v job)
    then show thesis using keeps_clearMissing by (intro polls) simp_all
  next
    case (poll_observed job v now)
    then show thesis using keeps_observe by (intro polls) simp_all
  qed (auto intro: that)
qed

lemma job_clients_adopt:
  "job_clients (snd (trackIfAbsent (adopted cid ctype j) jobs)) \<subseteq> insert cid (job_clients jobs)"
  by (auto simp: trackIfAbsent_def job_clients_def map_of_update adopted_def split: option.splits if_splits)

lemma jobs_wf_adopt: "jobs_wf jobs \<Longrightarrow> jobs_wf (snd (trackIfAbsent t jobs))"
  using jobs.wf_put [of jobs t] by (simp add: trackIfAbsent_def track_def split: option.splits)

lemma task_step_jobs:
  assumes "task_step fr t g w ts g' evs w'" "task_ok t"
  shows "job_clients (gw_jobs g') \<subseteq> job_clients (gw_jobs g) \<union> {cid. leased_by t = Some cid}"
    and "jobs_wf (gw_jobs g) \<Longrightarrow> jobs_wf (gw_jobs g')"
proof -
  note intros = job_clients_track [THEN subsetD] job_clients_untrack [THEN subsetD]
    job_clients_adopt [THEN subsetD] job_clients_keeps [THEN subsetD]
  show "job_clients (gw_jobs g') \<subseteq> job_clients (gw_jobs g) \<union> {cid. leased_by t = Some cid}"
    using assms(1) by (cases rule: task_step_jobs_cases) (use assms(2) in \<open>auto simp: task_ok_def dest: intros\<close>)
  show "jobs_wf (gw_jobs g) \<Longrightarrow> jobs_wf (gw_jobs g')"
    using assms(1) by (cases rule: task_step_jobs_cases)
      (auto simp: keeps_def touches_def jobs.wf_put jobs.wf_drop jobs_wf_adopt)
qed

lemma task_step_ok:
  assumes "task_step fr t g w ts g' evs w'" "task_ok t" "t' \<in> set ts"
  shows "task_ok t'"
  using assms by cases (auto simp: task_ok_def added_def dest: admitAdd_SomeD split: list.splits)


section \<open>The invariant\<close>

text \<open>
  Every lease of the registry is held by a task and every reserved byte belongs to one; every
  tracked job has its client; and while the lock is held for a push or a reap, a client that
  was not in use when asked about can only have got a job from a task that leases it.
\<close>

definition held :: "string \<Rightarrow> 'w task multiset \<Rightarrow> int" where
  "held cid ts = sum_mset (image_mset (holds cid) ts)"

definition answers_ok :: "'w sys \<Rightarrow> bool" where
  "answers_ok s \<longleftrightarrow> (case sy_lock s of None \<Rightarrow> True
     | Some (opn, ans) \<Rightarrow> (\<forall>cid. ans cid = Some False \<and> cid \<in> job_clients (gw_jobs (sy_gw s)) \<longrightarrow>
         0 < lease_count (gw_reg (sy_gw s)) cid))"

definition sys_ok :: "'w sys \<Rightarrow> bool" where
  "sys_ok s \<longleftrightarrow> reg_wf (gw_reg (sy_gw s)) \<and> jobs_wf (gw_jobs (sy_gw s)) \<and>
     (\<forall>cid. registered (gw_reg (sy_gw s)) cid \<longrightarrow> ValidClientID cid) \<and>
     (\<forall>cid. lease_count (gw_reg (sy_gw s)) cid = held cid (sy_tasks s)) \<and>
     gw_inFlight (sy_gw s) = sum_mset (image_mset reserved (sy_tasks s)) \<and> gw_inFlight (sy_gw s) \<le> addBodyBudget \<and>
     (\<forall>cid \<in> job_clients (gw_jobs (sy_gw s)). registered (gw_reg (sy_gw s)) cid) \<and>
     (\<forall>t \<in># sy_tasks s. task_ok t) \<and> answers_ok s"

lemma holds_nonneg [simp]: "0 \<le> holds cid t"
  by (simp add: holds_def)

lemma held_nonneg [simp]: "0 \<le> held cid ts"
  by (induction ts) (simp_all add: held_def)

lemma held_add [simp]: "held cid (add_mset t ts) = holds cid t + held cid ts" "held cid {#} = 0"
  "held cid (ts + us) = held cid ts + held cid us" "held cid (mset xs) = sum_list (map (holds cid) xs)"
  by (simp_all add: held_def flip: sum_mset_sum_list)

lemma sys_okD:
  assumes "sys_ok s" "t \<in># sy_tasks s"
  shows "task_ok t" "holds cid t \<le> lease_count (gw_reg (sy_gw s)) cid"
    "leased_by t = Some cid \<Longrightarrow> registered (gw_reg (sy_gw s)) cid"
proof -
  obtain ts where ts: "sy_tasks s = add_mset t ts" using assms(2) by (metis insert_DiffM)
  have L: "lease_count (gw_reg (sy_gw s)) c = held c (sy_tasks s)" for c using assms(1) by (simp add: sys_ok_def)
  show "task_ok t" using assms by (simp add: sys_ok_def)
  show "holds cid t \<le> lease_count (gw_reg (sy_gw s)) cid" by (simp add: L ts)
  assume "leased_by t = Some cid"
  then have "0 < lease_count (gw_reg (sy_gw s)) cid"
    using held_nonneg [of cid ts] by (simp add: L ts holds_def add_pos_nonneg)
  moreover have "reg_wf (gw_reg (sy_gw s))" using assms(1) by (simp add: sys_ok_def)
  ultimately show "registered (gw_reg (sy_gw s)) cid" by (rule reg.leased [rotated])
qed


lemma sys_ok_run:
  assumes ok: "sys_ok s" and t: "t \<in># sy_tasks s"
    and st: "task_step (sy_lock s = None) t (sy_gw s) (sy_world s) ts g evs w"
  shows "sys_ok (s\<lparr>sy_gw := g, sy_tasks := sy_tasks s - {#t#} + mset ts, sy_log := sy_log s @ evs, sy_world := w\<rparr>)"
proof -
  let ?g = "sy_gw s"
  obtain us where us: "sy_tasks s = add_mset t us" using t by (metis insert_DiffM)
  note tok = sys_okD [OF ok t]
  have wf: "reg_wf (gw_reg ?g)" "jobs_wf (gw_jobs ?g)" and inv: "gw_inFlight ?g \<le> addBodyBudget"
    "gw_inFlight ?g = reserved t + sum_mset (image_mset reserved us)"
    and L: "\<And>cid. lease_count (gw_reg ?g) cid = holds cid t + held cid us"
    and jobs: "\<And>cid. cid \<in> job_clients (gw_jobs ?g) \<Longrightarrow> registered (gw_reg ?g) cid"
    and valid: "\<And>cid. registered (gw_reg ?g) cid \<Longrightarrow> ValidClientID cid"
    and all: "\<And>u. u \<in># us \<Longrightarrow> task_ok u" and ans: "answers_ok s"
    using ok by (simp_all add: sys_ok_def us)
  have reg: "registered (gw_reg g) = registered (gw_reg ?g)"
    by (simp add: fun_eq_iff registered_iff task_step_clients(1) [OF st])
  have L': "lease_count (gw_reg g) cid = held cid us + sum_list (map (holds cid) ts)" for cid
    using task_step_leases [OF st wf(1) tok(2) [of cid]] L [of cid] by simp
  have jobs': "registered (gw_reg g) cid" if "cid \<in> job_clients (gw_jobs g)" for cid
    using task_step_jobs(1) [OF st tok(1)] that jobs tok(3) unfolding reg by blast
  have ans': "0 < lease_count (gw_reg g) cid"
    if "sy_lock s = Some (opn, an)" "an cid = Some False" "cid \<in> job_clients (gw_jobs g)" for opn an cid
  proof -
    have "gw_reg g = gw_reg ?g" using task_step_clients(3) [OF st] that(1) by simp
    moreover have "cid \<in> job_clients (gw_jobs ?g) \<or> leased_by t = Some cid"
      using task_step_jobs(1) [OF st tok(1)] that(3) by blast
    ultimately show ?thesis
      using ans that(1,2) tok(2) [of cid] by (auto simp: answers_ok_def holds_def)
  qed
  have "gw_inFlight g = sum_mset (image_mset reserved us) + sum_list (map reserved ts)" "gw_inFlight g \<le> addBodyBudget"
    using task_step_budget [OF st] inv tok(1) by (simp_all add: task_ok_def)
  then show ?thesis
    using task_step_reg_wf [OF st wf(1)] task_step_jobs(2) [OF st tok(1) wf(2)] L' jobs' valid all
      task_step_ok [OF st tok(1)] ans'
    by (auto simp: sys_ok_def us reg answers_ok_def simp flip: sum_mset_sum_list split: option.splits)
qed

lemma sys_ok_more_tasks:
  assumes "sys_ok s" "\<And>t. t \<in># ts \<Longrightarrow> task_ok t \<and> leased_by t = None \<and> reserved t = 0"
    "gw_reg g = gw_reg (sy_gw s)" "gw_jobs g = gw_jobs (sy_gw s)" "gw_inFlight g = gw_inFlight (sy_gw s)"
  shows "sys_ok (s\<lparr>sy_gw := g, sy_ticking := b, sy_tasks := sy_tasks s + ts\<rparr>)"
proof -
  have "held cid ts = 0" for cid using assms(2) by (induction ts) (auto simp: holds_def)
  moreover have "sum_mset (image_mset reserved ts) = 0" using assms(2) by (induction ts) auto
  ultimately show ?thesis using assms by (auto simp: sys_ok_def answers_ok_def split: option.splits)
qed

text \<open>Giving the lock back: the clients change at once, with the answers collected.\<close>

lemma sys_ok_registry:
  assumes ok: "sys_ok s" and lock: "sy_lock s = Some (opn, ans)" and asked: "all_asked ans (gw_reg (sy_gw s))"
    and wf: "reg_wf reg" and leases: "lease_count reg = lease_count (gw_reg (sy_gw s))"
    and kept: "\<And>cid. ans cid = Some True \<Longrightarrow> registered (gw_reg (sy_gw s)) cid \<Longrightarrow> registered reg cid"
    and valid: "\<And>cid. registered reg cid \<Longrightarrow> registered (gw_reg (sy_gw s)) cid \<or> ValidClientID cid"
  shows "sys_ok (s\<lparr>sy_lock := None, sy_ticking := b, sy_world := w, sy_gw := (sy_gw s)\<lparr>gw_reg := reg, gw_bg := cids\<rparr>\<rparr>)"
proof -
  have answers: "answers_ok s" using ok by (simp add: sys_ok_def)
  have "registered reg cid" if "cid \<in> job_clients (gw_jobs (sy_gw s))" for cid
  proof -
    have r: "registered (gw_reg (sy_gw s)) cid" using ok that by (simp add: sys_ok_def)
    have "0 \<le> lease_count (gw_reg (sy_gw s)) cid" using ok by (simp add: sys_ok_def)
    then have "0 < lease_count (gw_reg (sy_gw s)) cid \<or> ans cid \<noteq> None"
      using asked r by (auto simp: all_asked_def)
    moreover have "0 < lease_count (gw_reg (sy_gw s)) cid" if "ans cid = Some False"
      using answers lock \<open>cid \<in> job_clients _\<close> that by (simp add: answers_ok_def)
    moreover have "registered reg cid" if "0 < lease_count (gw_reg (sy_gw s)) cid"
      using reg.leased [OF wf, of cid] that by (simp add: leases)
    ultimately show ?thesis using kept [OF _ r] by (cases "ans cid") auto
  qed
  then show ?thesis using ok wf leases valid by (auto simp: sys_ok_def answers_ok_def)
qed

lemma registered_source:
  assumes "reg_wf reg" "registered reg cid"
    "(case map_of (r_clients reg) cid of Some e \<Rightarrow> e_source e = SourceEnv | None \<Rightarrow> False) \<longrightarrow> registered r cid"
  shows "registered r cid \<or> ValidClientID cid"
proof -
  obtain e where e: "map_of (r_clients reg) cid = Some e" using assms(2) by (auto simp: registered_iff)
  then have "entry_wf cid e" using assms(1) by (auto simp: reg_wf_iff clients_wf_iff)
  then show ?thesis using assms(3) e by (cases "e_source e") (auto simp: entry_wf_def)
qed

lemma sys_ok_pushed:
  assumes "sys_ok s" "sy_lock s = Some (PushOp revision specs, ans)" "all_asked ans (gw_reg (sy_gw s))"
    "Apply x revision specs (\<lambda>cid. ans cid = Some True) (gw_reg (sy_gw s)) (sy_world s) = (res, reg, w)"
  shows "sys_ok (s\<lparr>sy_lock := None, sy_world := w, sy_gw := (sy_gw s)\<lparr>gw_reg := reg, gw_bg := cids\<rparr>\<rparr>)"
proof -
  let ?r = "gw_reg (sy_gw s)" and ?u = "\<lambda>cid. ans cid = Some True"
  have reg: "reg = do_push (x, revision, specs, sy_world s) ?u ?r" using assms(4) by (simp add: do_push_def)
  have wf: "reg_wf ?r" using assms(1) by (simp add: sys_ok_def)
  have wf': "reg_wf reg" unfolding reg using wf by (rule reg.wf_push)
  have "registered ?r cid \<or> ValidClientID cid" if "registered reg cid" for cid
    using Apply_source [OF wf, of x revision specs ?u "sy_world s" cid] assms(4)
    by (intro registered_source [OF wf' that]) (auto simp: registered_iff split: option.splits)
  moreover have "registered reg cid" if "ans cid = Some True" "registered ?r cid" for cid
    unfolding reg using wf that by (intro reg.push_registered) simp_all
  moreover have "lease_count reg = lease_count ?r" unfolding reg by (rule reg.push_leases)
  ultimately show ?thesis
    using sys_ok_registry [OF assms(1-3) wf', where b = "sy_ticking s"] by simp
qed

lemma sys_ok_reaped:
  assumes "sys_ok s" "sy_lock s = Some (ReapOp, ans)" "all_asked ans (gw_reg (sy_gw s))"
    "Reap (\<lambda>cid. ans cid = Some True) (gw_reg (sy_gw s)) = (cids, reg)"
  shows "sys_ok (s\<lparr>sy_lock := None, sy_ticking := False, sy_gw := (sy_gw s)\<lparr>gw_reg := reg\<rparr>\<rparr>)"
proof -
  let ?r = "gw_reg (sy_gw s)" and ?u = "\<lambda>cid. ans cid = Some True"
  have reg: "reg = do_reap ?u ?r" using assms(4) by (simp add: do_reap_def)
  have wf: "reg_wf ?r" using assms(1) by (simp add: sys_ok_def)
  have wf': "reg_wf reg" unfolding reg using wf by (rule reg.wf_reap)
  have "registered ?r cid \<or> ValidClientID cid" if "registered reg cid" for cid
    using that wf by (auto simp: reg do_reap_def registered_iff Reap_clients split: option.splits if_splits)
  moreover have "registered reg cid" if "ans cid = Some True" "registered ?r cid" for cid
    unfolding reg using wf that by (intro reg.reap_registered) simp_all
  moreover have "lease_count reg = lease_count ?r" unfolding reg by (rule reg.reap_leases)
  ultimately show ?thesis
    using sys_ok_registry [OF assms(1-3) wf', where b = False and w = "sy_world s" and cids = "gw_bg (sy_gw s)"] by simp
qed

lemma snapshot_ok:
  assumes "sys_ok s" "job \<in> set (snapshot (gw_jobs (sy_gw s)))"
  shows "task_ok (PollPending job)"
proof -
  have "jobs_wf (gw_jobs (sy_gw s))" using assms(1) by (simp add: sys_ok_def)
  then have "tr_adapter job \<in> job_clients (gw_jobs (sy_gw s))"
    using assms(2) by (force simp: job_clients_def snapshot_def jobs_wf_def intro: map_of_is_SomeI)
  then show ?thesis using assms(1) by (auto simp: sys_ok_def task_ok_def)
qed

lemma sys_ok_step:
  assumes "sys_ok s" "sstep x s s'"
  shows "sys_ok s'"
  using assms(2)
proof cases
  case run
  then show ?thesis using sys_ok_run [OF assms(1)] by cases simp
next
  case (adopt_started cid cids)
  then show ?thesis
    using sys_ok_more_tasks [OF assms(1), of "{#AdoptPending cid#}" "(sy_gw s)\<lparr>gw_bg := cids\<rparr>" "sy_ticking s"]
    by (simp add: task_ok_def)
next
  case tick
  have "sys_ok (s\<lparr>sy_gw := sy_gw s, sy_ticking := True,
      sy_tasks := sy_tasks s + mset (map PollPending (snapshot (gw_jobs (sy_gw s))))\<rparr>)"
    by (rule sys_ok_more_tasks [OF assms(1)]) (use snapshot_ok [OF assms(1)] in auto)
  then show ?thesis using tick by simp
next
  case (add_request rq)
  then show ?thesis
    using sys_ok_more_tasks [OF assms(1), of "{#AddArrived rq#}" "sy_gw s" "sy_ticking s"] by (simp add: task_ok_def)
next
  case (remove_request cid jid)
  then show ?thesis
    using sys_ok_more_tasks [OF assms(1), of "{#RemoveArrived cid jid#}" "sy_gw s" "sy_ticking s"] by (simp add: task_ok_def)
next
  case (in_use opn ans cid)
  have "jobs_wf (gw_jobs (sy_gw s))" using assms(1) by (simp add: sys_ok_def)
  then show ?thesis using assms(1) in_use by (auto simp: sys_ok_def answers_ok_def hasJobs_clients)
next
  case (pushed revision specs ans res reg w)
  then show ?thesis using sys_ok_pushed [OF assms(1)] by simp
next
  case (reaped ans cids reg)
  then show ?thesis using sys_ok_reaped [OF assms(1)] by simp
qed (use assms(1) in \<open>auto simp: sys_ok_def answers_ok_def split: option.splits\<close>)


lemma reachable_ok: "reachable x s0 s \<Longrightarrow> sys_ok s0 \<Longrightarrow> sys_ok s"
  by (induction rule: reachable.induct) (auto intro: sys_ok_step)

lemma sys_ok_job:
  assumes "sys_ok s" "map_of (gw_jobs (sy_gw s)) k = Some job"
  shows "k = key_of job" "registered (gw_reg (sy_gw s)) (tr_adapter job)" "ValidClientID (tr_adapter job)"
proof -
  have "jobs_wf (gw_jobs (sy_gw s))" using assms(1) by (simp add: sys_ok_def)
  then show "k = key_of job" using assms(2) unfolding jobs_wf_iff by blast
  have "tr_adapter job \<in> job_clients (gw_jobs (sy_gw s))" using assms(2) by (auto simp: job_clients_def)
  then show "registered (gw_reg (sy_gw s)) (tr_adapter job)" using assms(1) by (simp add: sys_ok_def)
  then show "ValidClientID (tr_adapter job)" using assms(1) by (simp add: sys_ok_def)
qed

lemma boot_sys_ok:
  assumes "boot x t newSyncProducer parse_duration env w = (Inr p, w')"
  shows "sys_ok (start (ps_gateway p) w')"
proof -
  note b = boot_serves [OF assms]
  have "ValidClientID cid" if "registered (gw_reg (ps_gateway p)) cid" for cid
    using that b fresh_env [of x env w]
    by (auto simp: registered_iff fresh_registry_def list_all_iff dest: map_of_SomeD)
  then show ?thesis using b
    by (auto simp: sys_ok_def start_def gw_ok_def answers_ok_def job_clients_def addBodyBudget_def maxAddBody_def maxPayload_def)
qed


text \<open>A process that found a job in its queue when it started, in its first poll tick.\<close>

definition demo_queue :: string where
  \<open>demo_queue = ''{"result":[{"NZBID":7,"NZBName":"t","Category":"tv"}]}''\<close>

definition demo_busy_env :: "string \<Rightarrow> string option" where
  "demo_busy_env k = (if k = ''NZBGET_URL'' then Some ''http://n'' else if k = ''NZBGET_CATEGORY'' then Some ''tv'' else None)"

lemma demo_queue_adopts:
  "NZBGet_Adopt (demo_answers demo_queue) demo_nzbget () = (Inr [\<lparr>aj_ClientJobID = ''7'', aj_Title = ''t''\<rparr>], ())"
proof -
  let ?job = "JObj [(''NZBID'', JNum ''7''), (''NZBName'', JStr ''t''), (''Category'', JStr ''tv'')]"
  have "scan_json demo_queue = Scanned (JObj [(''result'', JArr [?job])]) []"
    "dec_rpc (JObj [(''result'', JArr [?job])]) = Some \<lparr>rpc_Result = Some (JArr [?job]), rpc_Error = None\<rparr>"
    by code_simp+
  note call = demo_call [OF _ this, simplified]
  have "dec_list (dec_struct nzbAdoptGroup_fields \<lparr>ag_NZBID = 0, ag_NZBName = '''', ag_Category = ''''\<rparr>) (JArr [?job]) =
      Some [\<lparr>ag_NZBID = 7, ag_NZBName = ''t'', ag_Category = ''tv''\<rparr>]" "itoa 7 = ''7''" "nz_Category demo_nzbget = ''tv''"
    by code_simp+
  moreover have "length demo_queue < 2 ^ 20" by (simp add: demo_queue_def)
  ultimately show ?thesis
    by (simp add: NZBGet_Adopt_def NZBGet_list_def call unmarshal_raw_def)
qed

lemma demo_busy_boots:
  "\<exists>p. boot (demo_answers demo_queue) demo_tls (\<lambda>_ _ w. (Inl (ErrText ''down''), w)) (\<lambda>_. None) demo_busy_env () = (Inr p, ()) \<and>
     gw_jobs (ps_gateway p) = [(''nzbget:7'', adopted ''nzbget'' ''nzbget'' \<lparr>aj_ClientJobID = ''7'', aj_Title = ''t''\<rparr>)]"
proof -
  let ?x = "demo_answers demo_queue"
  let ?ad = "nzbget_adapter ?x demo_nzbget"
  have e: "Getenv demo_busy_env ''NZBGET_URL'' = ''http://n''" "Getenv demo_busy_env ''NZBGET_CATEGORY'' = ''tv''"
    "Getenv demo_busy_env ''NZBGET_USER'' = ''''" "Getenv demo_busy_env ''NZBGET_PASS'' = ''''"
    "Getenv demo_busy_env ''ODOWNLOADER_BASE_URL'' = ''''" "Getenv demo_busy_env ''QBITTORRENT_BASE_URL'' = ''''"
    "cf_Brokers (ConfigFromEnv demo_busy_env) = ''''"
    by code_simp+
  obtain en where en: "registerEnvClients ?x demo_busy_env (NewRegistry []) () =
      (empty_Registry\<lparr>r_clients := [(''nzbget'', en)]\<rparr>, ())" "e_adapter en = ?ad" "\<not> e_draining en"
      "sp_ID (e_spec en) = ''nzbget''" "sp_Type (e_spec en) = ''nzbget''"
    by (auto simp: registerEnvClients_def env_odownloader_def env_qbittorrent_def env_nzbget_def Let_def e
        AddEnv_def env_spec_def zero_ClientSpec_def NewRegistry_def empty_Registry_def demo_nzbget_def split: option.splits)
  have pub: "\<exists>pub. NewPublisher demo_tls (\<lambda>_ _ w. (Inl (ErrText ''down''), w)) (ConfigFromEnv demo_busy_env) () = (Inr pub, ())"
    by (simp add: NewPublisher_def e)
  have ad: "ad_Rehydrator ?ad = Some (NZBGet_Adopt ?x demo_nzbget)" by (simp add: nzbget_adapter_def)
  have "adoptExisting [''nzbget''] (empty_Registry\<lparr>r_clients := [(''nzbget'', en)]\<rparr>) [] () =
     (empty_Registry\<lparr>r_clients := [(''nzbget'', en)]\<rparr>,
      [(''nzbget:7'', adopted ''nzbget'' ''nzbget'' \<lparr>aj_ClientJobID = ''7'', aj_Title = ''t''\<rparr>)], ())"
    using en by (simp add: adopt_def Lease_def entry_client_def ad demo_queue_adopts adopt_jobs_def trackIfAbsent_def
        job_key_def adopted_def release_def lease_count_def empty_Registry_def Let_def)
  moreover have "Names (empty_Registry\<lparr>r_clients := [(''nzbget'', en)]\<rparr>) = [''nzbget'']"
    using en by (simp add: Names_def Active_def entry_client_def)
  ultimately show ?thesis using pub by (auto simp: boot_def Let_def en newGateway_def)
qed


section \<open>Properties\<close>

text \<open>C2: The gateway under any interleaving of adds, removals, adoptions, polls, pushes and
  reaps, with clients that may answer anything. In every state the process can get into, each
  tracked job is kept under its own key and its client is registered; each lease is held by
  a running add or adoption, so none is lost or given back twice; and the bytes reserved are
  those of the running adds and within the budget.\<close>

theorem system_invariant:
  assumes "boot x t newSyncProducer parse_duration env w = (Inr p, w')"
    "reachable x (start (ps_gateway p) w') s"
  shows "reg_wf (gw_reg (sy_gw s)) \<and>
    (\<forall>k job. map_of (gw_jobs (sy_gw s)) k = Some job \<longrightarrow> k = key_of job \<and> Get (gw_reg (sy_gw s)) (tr_adapter job) \<noteq> None) \<and>
    (\<forall>cid. lease_count (gw_reg (sy_gw s)) cid = int (size (filter_mset (\<lambda>t. leased_by t = Some cid) (sy_tasks s)))) \<and>
    gw_inFlight (sy_gw s) = sum_mset (image_mset reserved (sy_tasks s)) \<and> gw_inFlight (sy_gw s) \<le> addBodyBudget"
proof -
  have ok: "sys_ok s" using reachable_ok [OF assms(2) boot_sys_ok [OF assms(1)]] .
  have "held cid ts = int (size (filter_mset (\<lambda>t. leased_by t = Some cid) ts))" for cid and ts :: "'a task multiset"
    by (induction ts) (simp_all add: holds_def)
  moreover have "\<forall>k job. map_of (gw_jobs (sy_gw s)) k = Some job \<longrightarrow>
      k = key_of job \<and> Get (gw_reg (sy_gw s)) (tr_adapter job) \<noteq> None"
    using sys_ok_job(1,2) [OF ok] unfolding registered_def by blast
  ultimately show ?thesis using ok by (simp add: sys_ok_def)
qed

theorem system_invariant_witness:
  "\<exists>p s. boot (demo_answers demo_queue) demo_tls (\<lambda>_ _ w. (Inl (ErrText ''down''), w)) (\<lambda>_. None) demo_busy_env () = (Inr p, ()) \<and>
     reachable (demo_answers demo_queue) (start (ps_gateway p) ()) s \<and> AddArrived demo_add \<in># sy_tasks s \<and>
     Get (gw_reg (sy_gw s)) ''nzbget'' \<noteq> None \<and> gw_jobs (sy_gw s) \<noteq> []"
proof -
  let ?x = "demo_answers demo_queue"
  obtain p where p: "boot ?x demo_tls (\<lambda>_ _ w. (Inl (ErrText ''down''), w)) (\<lambda>_. None) demo_busy_env () = (Inr p, ())"
    "gw_jobs (ps_gateway p) = [(''nzbget:7'', adopted ''nzbget'' ''nzbget'' \<lparr>aj_ClientJobID = ''7'', aj_Title = ''t''\<rparr>)]"
    using demo_busy_boots by blast
  let ?ini = "start (ps_gateway p) ()"
  let ?s = "?ini\<lparr>sy_tasks := add_mset (AddArrived demo_add) (sy_tasks ?ini)\<rparr>"
  have r: "reachable ?x ?ini ?s" by (rule reachable.step [OF reachable.init], rule sstep.add_request)
  have "map_of (gw_jobs (sy_gw ?s)) ''nzbget:7'' = Some (adopted ''nzbget'' ''nzbget'' \<lparr>aj_ClientJobID = ''7'', aj_Title = ''t''\<rparr>)"
    and jobs: "gw_jobs (sy_gw ?s) \<noteq> []" by (simp_all add: start_def p(2))
  then have "Get (gw_reg (sy_gw ?s)) (tr_adapter (adopted ''nzbget'' ''nzbget'' \<lparr>aj_ClientJobID = ''7'', aj_Title = ''t''\<rparr>)) \<noteq> None"
    using system_invariant [OF p(1) r] by blast
  moreover have "AddArrived demo_add \<in># sy_tasks ?s" by simp
  ultimately show ?thesis using p(1) r jobs unfolding adopted_def tracked.simps by blast
qed

lemma valid_id_no_colon: "ValidClientID cid \<Longrightarrow> CHR '':'' \<notin> set cid"
  by (auto simp: ValidClientID_def id_byte_def Let_def list_all_iff split: list.splits)

lemma job_key_inj:
  assumes "ValidClientID a" "ValidClientID b" "job_key a i = job_key b j"
  shows "a = b" "i = j"
  using append_sep_inj [of "CHR '':''" a b i j] assms valid_id_no_colon by (auto simp: job_key_def)

text \<open>C4: No job is dropped behind its owner's back. When a poll looks for the client of its job
  while the job is still tracked, the client is there: the branch that drops a job whose client
  is gone is only taken for a job that was removed or has ended since the tick began. In
  particular adopting a job in a race with the removal of its client cannot lead there.\<close>

theorem no_silent_drop:
  assumes "boot x t newSyncProducer parse_duration env w = (Inr p, w')"
    "reachable x (start (ps_gateway p) w') s"
    "PollPending job \<in># sy_tasks s" "map_of (gw_jobs (sy_gw s)) (key_of job) \<noteq> None"
  shows "Get (gw_reg (sy_gw s)) (tr_adapter job) \<noteq> None"
proof -
  obtain u where u: "map_of (gw_jobs (sy_gw s)) (key_of job) = Some u" using assms(4) by blast
  have ok: "sys_ok s" using reachable_ok [OF assms(2) boot_sys_ok [OF assms(1)]] .
  have "ValidClientID (tr_adapter job)" using sys_okD(1) [OF ok assms(3)] by (simp add: task_ok_def)
  from job_key_inj(1) [OF this sys_ok_job(3) [OF ok u] sys_ok_job(1) [OF ok u]]
  show ?thesis using sys_ok_job(2) [OF ok u] by (simp add: registered_def)
qed

theorem no_silent_drop_witness:
  "\<exists>(p :: unit process) s job. reachable (demo_answers demo_queue) (start (ps_gateway p) ()) s \<and> PollPending job \<in># sy_tasks s \<and>
     tr_clientJobID job = ''7'' \<and> Get (gw_reg (sy_gw s)) (tr_adapter job) \<noteq> None"
proof -
  let ?x = "demo_answers demo_queue"
  let ?job = "adopted ''nzbget'' ''nzbget'' \<lparr>aj_ClientJobID = ''7'', aj_Title = ''t''\<rparr>"
  obtain p where p: "boot ?x demo_tls (\<lambda>_ _ w. (Inl (ErrText ''down''), w)) (\<lambda>_. None) demo_busy_env () = (Inr p, ())"
    "gw_jobs (ps_gateway p) = [(''nzbget:7'', ?job)]"
    using demo_busy_boots by blast
  let ?ini = "start (ps_gateway p) ()"
  let ?s = "?ini\<lparr>sy_ticking := True, sy_tasks := sy_tasks ?ini + mset (map PollPending (snapshot (gw_jobs (sy_gw ?ini))))\<rparr>"
  have "reachable ?x ?ini ?s"
    by (rule reachable.step [OF reachable.init], rule sstep.tick) (simp add: start_def)
  moreover have "PollPending ?job \<in># sy_tasks ?s" by (simp add: start_def snapshot_def p(2))
  moreover have "map_of (gw_jobs (sy_gw ?s)) (key_of ?job) \<noteq> None"
    by (simp add: start_def p(2) adopted_def job_key_def)
  moreover note no_silent_drop [OF p(1) calculation]
  moreover have "tr_clientJobID ?job = ''7''" by (simp add: adopted_def)
  ultimately show ?thesis by blast
qed

end
