(* ===== verification/Runs.thy ===== *)
theory Runs
  imports System
begin

text \<open>
  The sequential definitions of the operations against their stages. \<open>Handlers\<close> and \<open>Tracker\<close>
  define an add, a removal, an adoption and a poll as one function each; \<open>System\<close> cuts the same
  operations into the stages between which the goroutines of the process may interleave. This
  theory shows that the two agree: a goroutine that nobody interrupts computes exactly what the
  sequential definition does.
\<close>


section \<open>Handlers as runs of their stages\<close>

text \<open>A goroutine that nobody interrupts, from its first stage to its end.\<close>

inductive run_alone :: "'w task list \<Rightarrow> 'w gateway \<Rightarrow> 'w \<Rightarrow> 'w gateway \<Rightarrow> event list \<Rightarrow> 'w \<Rightarrow> bool" where
  ended: "run_alone [] g w g [] w"
| stage: "run_alone [t] g w g2 (evs @ evs') w2"
    if "task_step True t g w ts g1 evs w1" "run_alone ts g1 w1 g2 evs' w2"

lemma quiet: "task_step True t g w ts g1 [] w1 \<Longrightarrow> run_alone ts g1 w1 g2 evs w2 \<Longrightarrow> run_alone [t] g w g2 evs w2"
  using stage [of t g w ts g1 "[]" w1 g2 evs w2] by simp

lemma says: "task_step True t g w ts g1 [ev] w1 \<Longrightarrow> run_alone ts g1 w1 g2 evs w2 \<Longrightarrow> run_alone [t] g w g2 (ev # evs) w2"
  using stage [of t g w ts g1 "[ev]" w1 g2 evs w2] by simp

lemma run_alone_steps:
  "run_alone ts g w g' evs w' \<Longrightarrow> sy_lock s = None \<Longrightarrow>
   own_step\<^sup>*\<^sup>* (s\<lparr>sy_gw := g, sy_tasks := T + mset ts, sy_log := L, sy_world := w\<rparr>)
     (s\<lparr>sy_gw := g', sy_tasks := T, sy_log := L @ evs, sy_world := w'\<rparr>)"
proof (induction arbitrary: L rule: run_alone.induct)
  case (stage t g w ts g1 evs w1 g2 evs' w2)
  let ?s = "s\<lparr>sy_gw := g, sy_tasks := T + mset [t], sy_log := L, sy_world := w\<rparr>"
  have "own_step ?s (?s\<lparr>sy_gw := g1, sy_tasks := sy_tasks ?s - {#t#} + mset ts, sy_log := sy_log ?s @ evs, sy_world := w1\<rparr>)"
    using stage by (intro own_step.own) simp_all
  then have "own_step ?s (s\<lparr>sy_gw := g1, sy_tasks := T + mset ts, sy_log := L @ evs, sy_world := w1\<rparr>)" by simp
  with stage.IH [OF stage.prems, of "L @ evs"] show ?case
    by (simp add: converse_rtranclp_into_rtranclp)
qed simp

lemma AddReleased_runs:
  "run_alone [AddReleased n] g w (g\<lparr>gw_inFlight := admitRelease n (gw_inFlight g)\<rparr>) [] w"
  by (rule quiet [OF task_step.add_ended ended])

lemma AddFinished_runs:
  "run_alone [AddFinished n cid] g w
     (g\<lparr>gw_reg := release cid (gw_reg g), gw_inFlight := admitRelease n (gw_inFlight g)\<rparr>) [] w"
  using quiet [OF task_step.add_released AddReleased_runs [of n "g\<lparr>gw_reg := release cid (gw_reg g)\<rparr>" w]] by simp

lemma AddCalling_runs:
  assumes "add_leased up cid c req (gw_jobs g) w = (resp, jobs, evs, w')"
  shows "run_alone [AddCalling n cid c req] g w
     (g\<lparr>gw_reg := release cid (gw_reg g), gw_jobs := jobs, gw_inFlight := admitRelease n (gw_inFlight g)\<rparr>) evs w'"
  using assms
proof (cases rule: add_leased_cases)
  case (accepted jid)
  let ?t = "added cid c req jid" and ?ev = "started_event cid c req jid"
  have "run_alone [AddTracked n cid ?ev] (g\<lparr>gw_jobs := jobs\<rparr>) w'
     (g\<lparr>gw_jobs := jobs, gw_reg := release cid (gw_reg g), gw_inFlight := admitRelease n (gw_inFlight g)\<rparr>) [?ev] w'"
    using says [OF task_step.add_published AddFinished_runs [of n cid "g\<lparr>gw_jobs := jobs\<rparr>" w']] by simp
  then have "run_alone [AddAccepted n cid ?t ?ev] g w'
     (g\<lparr>gw_jobs := jobs, gw_reg := release cid (gw_reg g), gw_inFlight := admitRelease n (gw_inFlight g)\<rparr>) [?ev] w'"
    using quiet [OF task_step.add_tracked] accepted(3) by simp
  moreover have "g\<lparr>gw_jobs := jobs, gw_reg := release cid (gw_reg g), gw_inFlight := admitRelease n (gw_inFlight g)\<rparr> =
      g\<lparr>gw_reg := release cid (gw_reg g), gw_jobs := jobs, gw_inFlight := admitRelease n (gw_inFlight g)\<rparr>" by simp
  ultimately show ?thesis
    using quiet [OF task_step.add_called [OF assms, of _ n]] accepted(4) by (simp add: started_event_def)
next
  case refused
  then show ?thesis
    using quiet [OF task_step.add_called [OF assms, of _ n]] AddFinished_runs [of n cid g w'] by simp
qed

lemma handleAdd_runs:
  assumes "handleAdd up rq g w = (resp, g', evs, w')"
  shows "run_alone [AddArrived rq] g w g' evs w'"
proof (cases "admitAdd (q_ContentLength rq) (gw_inFlight g)")
  case None
  then show ?thesis using assms quiet [OF task_step.add_refused [OF None] ended] by (auto simp: handleAdd_def)
next
  case (Some p)
  then obtain n m where p: "admitAdd (q_ContentLength rq) (gw_inFlight g) = Some (n, m)" by (cases p) auto
  let ?g = "g\<lparr>gw_inFlight := m\<rparr>"
  have "run_alone [AddAdmitted n rq] ?g w g' evs w'"
  proof (cases "decodeJSON (q_Body rq) maxAddBody dec_addRequest")
    case (Inl r)
    then show ?thesis
      using assms p quiet [OF task_step.add_bad_body [OF Inl] AddReleased_runs [of n ?g w]] by (auto simp: handleAdd_def)
  next
    case (Inr req)
    note req = this
    show ?thesis
    proof (cases "add_target req")
      case (Inl r)
      then show ?thesis
        using assms p req quiet [OF task_step.add_bad_target [OF req Inl] AddReleased_runs [of n ?g w]] by (auto simp: handleAdd_def)
    next
      case (Inr cid)
      obtain res reg where l: "Lease cid (gw_reg g) = (res, reg)" by (rule prod.exhaust)
      show ?thesis
      proof (cases res)
        case (Inl e)
        then have l': "Lease cid (gw_reg ?g) = (Inl e, reg)" using l by simp
        show ?thesis
          using assms p req Inr l Inl quiet [OF task_step.add_no_client [OF req Inr l'] AddReleased_runs [of n "?g\<lparr>gw_reg := reg\<rparr>" w]]
          by (auto simp: handleAdd_def)
      next
        case (Inr c)
        note cid = \<open>add_target req = Inr cid\<close>
        from Inr have l': "Lease cid (gw_reg ?g) = (Inr c, reg)" using l by simp
        obtain resp1 jobs evs1 w1 where a: "add_leased up cid c req (gw_jobs g) w = (resp1, jobs, evs1, w1)"
          by (metis prod_cases4)
        have out: "g' = ?g\<lparr>gw_reg := release cid reg, gw_jobs := jobs, gw_inFlight := admitRelease n m\<rparr>"
          "evs = evs1" "w' = w1"
          using assms p req cid l Inr a by (auto simp: handleAdd_def)
        show ?thesis
          using quiet [OF task_step.add_leased [OF req cid l'] AddCalling_runs [of up cid c req "?g\<lparr>gw_reg := reg\<rparr>"]] a
          by (simp add: out)
      qed
    qed
  qed
  then show ?thesis by (rule quiet [OF task_step.add_admitted [OF p]])
qed


lemma handleRemove_runs:
  assumes "handleRemove up rq g w = (resp, g', w')"
  shows "run_alone [RemoveArrived (q_adapter rq) (q_id rq)] g w g' [] w'"
proof (cases "Get (gw_reg g) (q_adapter rq)")
  case None
  then show ?thesis using assms quiet [OF task_step.remove_no_client [OF None] ended] by (simp add: handleRemove_def)
next
  case (Some ad)
  note found = quiet [OF task_step.remove_found [OF Some]]
  obtain r w1 where r: "ad_Remove ad (q_id rq) w = (r, w1)" by (rule prod.exhaust)
  show ?thesis
  proof (cases r)
    case None
    note untracked = quiet [OF task_step.remove_untracked ended]
    from None show ?thesis
      using assms Some r found [OF quiet [OF task_step.remove_called untracked]] by (auto simp: handleRemove_def)
  next
    case (Some e)
    then show ?thesis
      using assms \<open>Get _ _ = Some ad\<close> r found [OF quiet [OF task_step.remove_failed ended]] by (auto simp: handleRemove_def)
  qed
qed

lemma AdoptFinished_runs: "run_alone [AdoptFinished cid] g w (g\<lparr>gw_reg := release cid (gw_reg g)\<rparr>) [] w"
  by (rule quiet [OF task_step.adopt_released ended])

lemma AdoptTracking_runs:
  "run_alone [AdoptTracking cid ctype js] g w
     (g\<lparr>gw_reg := release cid (gw_reg g), gw_jobs := adopt_jobs cid ctype js (gw_jobs g)\<rparr>) [] w"
proof (induction js arbitrary: g)
  case Nil
  have "g\<lparr>gw_reg := release cid (gw_reg g)\<rparr> = g\<lparr>gw_reg := release cid (gw_reg g), gw_jobs := adopt_jobs cid ctype [] (gw_jobs g)\<rparr>"
    by (simp add: adopt_jobs_def)
  then show ?case using quiet [OF task_step.adopt_all AdoptFinished_runs [of cid g w]] by simp
next
  case (Cons j js)
  let ?g = "g\<lparr>gw_jobs := snd (trackIfAbsent (adopted cid ctype j) (gw_jobs g))\<rparr>"
  have "?g\<lparr>gw_reg := release cid (gw_reg ?g), gw_jobs := adopt_jobs cid ctype js (gw_jobs ?g)\<rparr> =
      g\<lparr>gw_reg := release cid (gw_reg g), gw_jobs := adopt_jobs cid ctype (j # js) (gw_jobs g)\<rparr>"
    by (simp add: adopt_jobs_def)
  then show ?case using quiet [OF task_step.adopt_tracked Cons.IH [of ?g]] by simp
qed

lemma adopt_runs:
  assumes "adopt cid (gw_reg g) (gw_jobs g) w = (reg', jobs', w')"
  shows "run_alone [AdoptPending cid] g w (g\<lparr>gw_reg := reg', gw_jobs := jobs'\<rparr>) [] w'"
proof -
  obtain res reg where l: "Lease cid (gw_reg g) = (res, reg)" by (rule prod.exhaust)
  show ?thesis
  proof (cases res)
    case (Inl e)
    then show ?thesis
      using assms l quiet [OF task_step.adopt_gone [OF l [unfolded Inl]] ended] by (auto simp: adopt_def)
  next
    case (Inr c)
    let ?g = "g\<lparr>gw_reg := reg\<rparr>"
    note leased = quiet [OF task_step.adopt_leased [OF l [unfolded Inr]]]
    show ?thesis
    proof (cases "ad_Rehydrator (cl_Adapter c)")
      case None
      then show ?thesis
        using assms l Inr leased [OF quiet [OF task_step.adopt_unable [OF None] AdoptFinished_runs [of cid ?g w]]]
        by (auto simp: adopt_def)
    next
      case (Some Adopt)
      obtain r w1 where r: "Adopt w = (r, w1)" by (rule prod.exhaust)
      show ?thesis
      proof (cases r)
        case (Inl e)
        then show ?thesis
          using assms l Inr Some r
            leased [OF quiet [OF task_step.adopt_failed [OF Some r [unfolded Inl]] AdoptFinished_runs [of cid ?g w1]]]
          by (auto simp: adopt_def)
      next
        case js: (Inr js)
        then show ?thesis
          using assms l Inr Some r
            leased [OF quiet [OF task_step.adopt_listed [OF Some r [unfolded js]] AdoptTracking_runs [of cid "cl_Type c" js ?g w1]]]
          by (simp add: adopt_def)
      qed
    qed
  qed
qed

lemma PollDrop_runs:
  "run_alone [PollDrop job] g w (g\<lparr>gw_jobs := untrack (tr_adapter job) (tr_clientJobID job) (gw_jobs g)\<rparr>) [] w"
  by (rule quiet [OF task_step.poll_dropped ended])

lemma PollEnd_runs:
  "run_alone [PollEnd job ev] g w (g\<lparr>gw_jobs := untrack (tr_adapter job) (tr_clientJobID job) (gw_jobs g)\<rparr>) [ev] w"
  by (rule says [OF task_step.poll_ended PollDrop_runs])

lemma PollDerive_runs:
  assumes "prevSample job (gw_jobs g) = (pb, pt)" "v' = fillDerived v pb pt now"
  shows "run_alone [PollDerive job v] g w (g\<lparr>gw_jobs := observe job v' now' (gw_jobs g)\<rparr>) [progress_event job v'] w"
  unfolding assms(2)
  by (rule quiet [OF task_step.poll_derived [OF assms(1)]], rule says [OF task_step.poll_published])
     (rule quiet [OF task_step.poll_observed ended])

lemma PollSeen_runs:
  assumes "poll_view job v ck (gw_jobs g) = (jobs', evs)"
  shows "run_alone [PollSeen job v] g w (g\<lparr>gw_jobs := jobs'\<rparr>) evs w"
proof -
  consider (completed) "jv_State v = StatusCompleted" | (failed) "jv_State v = StatusFailed"
    | (other) "jv_State v \<notin> {StatusCompleted, StatusFailed}" by blast
  then show ?thesis
  proof cases
    case completed
    then show ?thesis using assms quiet [OF task_step.poll_completed [OF completed] PollEnd_runs]
      by (auto simp: poll_view_def)
  next
    case failed
    then show ?thesis using assms quiet [OF task_step.poll_job_failed [OF failed] PollEnd_runs]
      by (auto simp: poll_view_def)
  next
    case other
    define m where "m = (if jv_NativeState v = NotFoundState then markMissing job (ck_mark ck) (gw_jobs g)
      else (False, clearMissing job (gw_jobs g)))"
    obtain lost jobs1 where m1: "m = (lost, jobs1)" by (rule prod.exhaust)
    obtain pb pt where ps: "prevSample job jobs1 = (pb, pt)" by (rule prod.exhaust)
    let ?g = "g\<lparr>gw_jobs := jobs1\<rparr>"
    have pv: "poll_view job v ck (gw_jobs g) = (if lost then
        (untrack (tr_adapter job) (tr_clientJobID job) jobs1,
         [failed_event job (tr_title job) (''job is no longer known to '' @ tr_adapter job)])
      else (observe job (fillDerived v pb pt (ck_derive ck)) (ck_observe ck) jobs1,
         [progress_event job (fillDerived v pb pt (ck_derive ck))]))"
      using other unfolding poll_view_def m_def [symmetric] m1 by (cases "jv_State v") (simp_all add: ps Let_def)
    have derive: "run_alone [PollDerive job v] ?g w (g\<lparr>gw_jobs := observe job (fillDerived v pb pt (ck_derive ck)) (ck_observe ck) jobs1\<rparr>)
        [progress_event job (fillDerived v pb pt (ck_derive ck))] w"
      using PollDerive_runs [of job ?g pb pt _ v "ck_derive ck" w "ck_observe ck"] ps by simp
    show ?thesis
    proof (cases lost)
      case True
      with m1 have nf: "jv_NativeState v = NotFoundState" "markMissing job (ck_mark ck) (gw_jobs g) = (True, jobs1)"
        by (auto simp: m_def split: if_splits)
      show ?thesis using assms pv True quiet [OF task_step.poll_lost [OF other nf] PollEnd_runs] by simp
    next
      case False
      show ?thesis
      proof (cases "jv_NativeState v = NotFoundState")
        case True
        with m1 False have "markMissing job (ck_mark ck) (gw_jobs g) = (False, jobs1)" by (simp add: m_def)
        from quiet [OF task_step.poll_missing [OF other True this] derive] show ?thesis using assms pv False by simp
      next
        case known: False
        with m1 have "jobs1 = clearMissing job (gw_jobs g)" by (simp add: m_def)
        with quiet [OF task_step.poll_known [OF other known]] derive show ?thesis using assms pv False by auto
      qed
    qed
  qed
qed

lemma pollOne_runs:
  assumes "pollOne (gw_reg g) ck job (gw_jobs g) w = (jobs', evs, w')"
  shows "run_alone [PollPending job] g w (g\<lparr>gw_jobs := jobs'\<rparr>) evs w'"
proof (cases "Get (gw_reg g) (tr_adapter job)")
  case None
  then show ?thesis using assms quiet [OF task_step.poll_gone [OF None] PollDrop_runs] by (auto simp: pollOne_def)
next
  case (Some ad)
  note found = quiet [OF task_step.poll_found [OF Some]]
  obtain r w1 where r: "ad_Describe ad (tr_clientJobID job) w = (r, w1)" by (rule prod.exhaust)
  show ?thesis
  proof (cases r)
    case (Inl e)
    then show ?thesis using assms Some r found [OF quiet [OF task_step.poll_failed [OF r [unfolded Inl]] ended]]
      by (auto simp: pollOne_def)
  next
    case (Inr v)
    obtain jobs1 evs1 where pv: "poll_view job v ck (gw_jobs g) = (jobs1, evs1)" by (rule prod.exhaust)
    show ?thesis
      using assms Some r Inr pv found [OF quiet [OF task_step.poll_described [OF r [unfolded Inr]] PollSeen_runs [OF pv]]]
      by (simp add: pollOne_def)
  qed
qed

text \<open>The system \<open>s\<close> with more goroutines in flight, a gateway, more events and a world of its own.\<close>

definition sys_with :: "'w sys \<Rightarrow> 'w task list \<Rightarrow> 'w gateway \<Rightarrow> event list \<Rightarrow> 'w \<Rightarrow> 'w sys" where
  "sys_with s ts g evs w = s\<lparr>sy_lock := None, sy_gw := g, sy_tasks := sy_tasks s + mset ts, sy_log := sy_log s @ evs, sy_world := w\<rparr>"

lemma run_alone_with: "run_alone ts g w g' evs w' \<Longrightarrow> own_step\<^sup>*\<^sup>* (sys_with s ts g [] w) (sys_with s [] g' evs w')"
  using run_alone_steps [where s = "s\<lparr>sy_lock := None\<rparr>" and T = "sy_tasks s" and L = "sy_log s"]
  by (simp add: sys_with_def)

text \<open>The operations that run as goroutines are uninterrupted runs of their stages. Whatever else
  is in flight, as long as no configuration push holds the registry, the system can take the goroutine
  of an add, of a removal, of an adoption at start or of a poll from its first stage to its end by
  its own steps, and it arrives at the gateway, the published events and the outside world that the
  sequential definition of the operation computes, with every other goroutine where it was.\<close>

theorem handlers_are_runs:
  "(case handleAdd up rq g w of (resp, g', evs, w') \<Rightarrow>
      own_step\<^sup>*\<^sup>* (sys_with s [AddArrived rq] g [] w) (sys_with s [] g' evs w')) \<and>
   (case handleRemove up rq g w of (resp, g', w') \<Rightarrow>
      own_step\<^sup>*\<^sup>* (sys_with s [RemoveArrived (q_adapter rq) (q_id rq)] g [] w) (sys_with s [] g' [] w')) \<and>
   (case adopt cid (gw_reg g) (gw_jobs g) w of (reg', jobs', w') \<Rightarrow>
      own_step\<^sup>*\<^sup>* (sys_with s [AdoptPending cid] g [] w) (sys_with s [] (g\<lparr>gw_reg := reg', gw_jobs := jobs'\<rparr>) [] w')) \<and>
   (case pollOne (gw_reg g) ck job (gw_jobs g) w of (jobs', evs, w') \<Rightarrow>
      own_step\<^sup>*\<^sup>* (sys_with s [PollPending job] g [] w) (sys_with s [] (g\<lparr>gw_jobs := jobs'\<rparr>) evs w'))"
  by (intro conjI; clarsimp split: prod.splits intro!: run_alone_with
      simp: handleAdd_runs handleRemove_runs adopt_runs pollOne_runs)

end
