(* ===== verification/Rest.thy ===== *)
theory Rest
  imports System
begin

text \<open>
  Progress of the process: the steps of \<open>System\<close> that finish what is under way cannot go on for
  ever, and they do not stop before nothing is left to do.
\<close>

declare map_of_eq_Some_iff [simp del] Some_eq_map_of_iff [simp del]

section \<open>Every goroutine ends\<close>

text \<open>How far a task is from its end: its stage, and the jobs an adoption has left to track.\<close>

fun task_rank :: "'w task \<Rightarrow> nat \<times> nat" where
  "task_rank (AddArrived rq) = (7, 0)"
| "task_rank (AddAdmitted n rq) = (6, 0)"
| "task_rank (AddCalling n cid c req) = (5, 0)"
| "task_rank (AddAccepted n cid t ev) = (4, 0)"
| "task_rank (AddTracked n cid ev) = (3, 0)"
| "task_rank (AddFinished n cid) = (2, 0)"
| "task_rank (AddReleased n) = (1, 0)"
| "task_rank (RemoveArrived cid jid) = (3, 0)"
| "task_rank (RemoveCalling cid jid ad) = (2, 0)"
| "task_rank (RemoveFinished cid jid) = (1, 0)"
| "task_rank (AdoptPending cid) = (4, 0)"
| "task_rank (AdoptCalling cid c) = (3, 0)"
| "task_rank (AdoptTracking cid ctype js) = (2, length js)"
| "task_rank (AdoptFinished cid) = (1, 0)"
| "task_rank (PollPending job) = (8, 0)"
| "task_rank (PollAsking job ad) = (7, 0)"
| "task_rank (PollSeen job v) = (6, 0)"
| "task_rank (PollDerive job v) = (5, 0)"
| "task_rank (PollProgress job v) = (4, 0)"
| "task_rank (PollObserve job v) = (3, 0)"
| "task_rank (PollEnd job ev) = (2, 0)"
| "task_rank (PollDrop job) = (1, 0)"

lemma task_step_rank:
  assumes "task_step fr t g w ts g' evs w'" "t' \<in> set ts"
  shows "(task_rank t', task_rank t) \<in> less_than <*lex*> less_than"
  using assms by cases (auto split: list.splits)

lemma own_step_ranks:
  assumes "own_step s s'"
  shows "(image_mset task_rank (sy_tasks s'), image_mset task_rank (sy_tasks s)) \<in> mult (less_than <*lex*> less_than)"
  using assms
proof cases
  case (own t ts g evs w)
  obtain us where us: "sy_tasks s = add_mset t us" using own(2) by (metis insert_DiffM)
  have "(image_mset task_rank us + image_mset task_rank (mset ts), image_mset task_rank us + {#task_rank t#})
      \<in> mult (less_than <*lex*> less_than)"
    by (rule one_step_implies_mult) (use task_step_rank [OF own(3)] in auto)
  then show ?thesis by (simp add: own(1) us)
qed

text \<open>No stage waits for anything but the registry's lock.\<close>

lemma PollSeen_total: "\<exists>ts g' evs w'. task_step fr (PollSeen job v) g w ts g' evs w'"
proof -
  obtain jobs where m: "markMissing job 0 (gw_jobs g) = (True, jobs) \<or> markMissing job 0 (gw_jobs g) = (False, jobs)"
    by (metis (full_types) prod.exhaust)
  consider "jv_State v = StatusCompleted" | "jv_State v = StatusFailed"
    | "jv_State v \<notin> {StatusCompleted, StatusFailed}" "jv_NativeState v \<noteq> NotFoundState"
    | "jv_State v \<notin> {StatusCompleted, StatusFailed}" "jv_NativeState v = NotFoundState"
    by blast
  then show ?thesis
  proof cases
    case 4
    then show "\<exists>ts g' evs w'. task_step fr (PollSeen job v) g w ts g' evs w'"
      using task_step.poll_lost [OF 4, of job 0 g] task_step.poll_missing [OF 4, of job 0 g] m by blast
  qed (blast intro: task_step.intros)+
qed

lemma task_step_total: "\<exists>ts g' evs w'. task_step True t g w ts g' evs w'"
proof -
  have lease: "\<exists>e reg. Lease cid (gw_reg g) = (Inl e, reg) \<or> (\<exists>c. Lease cid (gw_reg g) = (Inr c, reg))" for cid
    by (metis prod.exhaust sum.exhaust)
  show ?thesis
  proof (cases t)
    case (AddArrived rq)
    show ?thesis unfolding AddArrived
      by (cases "admitAdd (q_ContentLength rq) (gw_inFlight g)") (blast intro: task_step.intros | metis task_step.add_admitted prod.exhaust)+
  next
    case (AddAdmitted n rq)
    consider resp where "decodeJSON (q_Body rq) maxAddBody dec_addRequest = Inl resp"
      | req resp where "decodeJSON (q_Body rq) maxAddBody dec_addRequest = Inr req" "add_target req = Inl resp"
      | req cid where "decodeJSON (q_Body rq) maxAddBody dec_addRequest = Inr req" "add_target req = Inr cid"
      by (metis sum.exhaust)
    then show ?thesis unfolding AddAdmitted
      by cases (blast intro: task_step.intros | metis lease task_step.add_no_client task_step.add_leased)+
  next
    case (AddCalling n cid c req)
    obtain resp jobs evs w' where "add_leased (\<lambda>_. True) cid c req (gw_jobs g) w = (resp, jobs, evs, w')"
      by (metis prod_cases4)
    from task_step.add_called [OF this] show ?thesis unfolding AddCalling by blast
  next
    case (RemoveArrived cid jid)
    show ?thesis unfolding RemoveArrived by (cases "Get (gw_reg g) cid") (blast intro: task_step.intros)+
  next
    case (RemoveCalling cid jid ad)
    obtain r w' where "ad_Remove ad jid w = (r, w')" by (rule prod.exhaust)
    then show ?thesis unfolding RemoveCalling by (cases r) (blast intro: task_step.intros)+
  next
    case (AdoptPending cid)
    show ?thesis unfolding AdoptPending by (metis lease task_step.adopt_gone task_step.adopt_leased)
  next
    case (AdoptCalling cid c)
    show ?thesis unfolding AdoptCalling
    proof (cases "ad_Rehydrator (cl_Adapter c)")
      case (Some Adopt)
      obtain r w' where r: "Adopt w = (r, w')" by (rule prod.exhaust)
      with Some show "\<exists>ts g' evs w'. task_step True (AdoptCalling cid c) g w ts g' evs w'"
        by (cases r) (blast intro: task_step.intros)+
    qed (blast intro: task_step.intros)
  next
    case (AdoptTracking cid ctype js)
    show ?thesis unfolding AdoptTracking by (cases js) (blast intro: task_step.intros)+
  next
    case (PollPending job)
    show ?thesis unfolding PollPending by (cases "Get (gw_reg g) (tr_adapter job)") (blast intro: task_step.intros)+
  next
    case (PollAsking job ad)
    obtain r w' where "ad_Describe ad (tr_clientJobID job) w = (r, w')" by (rule prod.exhaust)
    then show ?thesis unfolding PollAsking by (cases r) (blast intro: task_step.intros)+
  next
    case (PollSeen job v)
    show ?thesis unfolding PollSeen by (rule PollSeen_total)
  next
    case (PollDerive job v)
    obtain pb pt where "prevSample job (gw_jobs g) = (pb, pt)" by (rule prod.exhaust)
    then show ?thesis unfolding PollDerive by (blast intro: task_step.intros)
  qed (blast intro: task_step.intros)+
qed

lemma own_step_possible:
  assumes "sy_lock s = None" "sy_tasks s \<noteq> {#}"
  shows "\<exists>s'. own_step s s' \<and> sy_lock s' = None"
proof -
  obtain t where t: "t \<in># sy_tasks s" using assms(2) by blast
  obtain ts g evs w where "task_step True t (sy_gw s) (sy_world s) ts g evs w"
    using task_step_total [of t "sy_gw s" "sy_world s"] by blast
  then have "own_step s (s\<lparr>sy_gw := g, sy_tasks := sy_tasks s - {#t#} + mset ts, sy_log := sy_log s @ evs, sy_world := w\<rparr>)"
    using t assms(1) by (intro own_step.own) simp_all
  moreover have "sy_lock (s\<lparr>sy_gw := g, sy_tasks := sy_tasks s - {#t#} + mset ts, sy_log := sy_log s @ evs, sy_world := w\<rparr>) = None"
    using assms(1) by simp
  ultimately show ?thesis by blast
qed

section \<open>The process comes to rest\<close>

text \<open>
  The steps of \<open>sstep\<close> that finish what is under way, with nothing new coming in: no request, no
  push and no tick. They are the stages of the running goroutines, the adoptions queued by an
  earlier push, the questions the holder of the registry's lock asks about the registered clients,
  the end of a push or a reap, and the reap that ends a tick. Between two of them the outside
  world may change in any way.
\<close>

inductive advance :: "'w ext \<Rightarrow> 'w sys \<Rightarrow> 'w sys \<Rightarrow> bool" for x :: "'w ext" where
  stage: "advance x s s'" if "own_step s s'"
| adopt_queued: "advance x s (s\<lparr>sy_gw := (sy_gw s)\<lparr>gw_bg := cids\<rparr>, sy_tasks := add_mset (AdoptPending cid) (sy_tasks s)\<rparr>)"
    if "gw_bg (sy_gw s) = cid # cids"
| reap_tick: "advance x s (s\<lparr>sy_lock := Some (ReapOp, Map.empty)\<rparr>)"
    if "sy_lock s = None" "sy_ticking s" "\<forall>t \<in># sy_tasks s. poll_job t = None"
| ask: "advance x s (s\<lparr>sy_lock := Some (opn, ans(cid \<mapsto> hasJobs (gw_jobs (sy_gw s)) cid))\<rparr>)"
    if "sy_lock s = Some (opn, ans)" "ans cid = None" "registered (gw_reg (sy_gw s)) cid"
| push_ends: "advance x s (s\<lparr>sy_lock := None, sy_world := w,
      sy_gw := (sy_gw s)\<lparr>gw_reg := reg, gw_bg := gw_bg (sy_gw s) @ map cl_ID (res_Started res)\<rparr>\<rparr>)"
    if "sy_lock s = Some (PushOp revision specs, ans)" "all_asked ans (gw_reg (sy_gw s))"
       "Apply x revision specs (\<lambda>cid. ans cid = Some True) (gw_reg (sy_gw s)) (sy_world s) = (res, reg, w)"
| reap_ends: "advance x s (s\<lparr>sy_lock := None, sy_ticking := False, sy_gw := (sy_gw s)\<lparr>gw_reg := reg\<rparr>\<rparr>)"
    if "sy_lock s = Some (ReapOp, ans)" "all_asked ans (gw_reg (sy_gw s))"
       "Reap (\<lambda>cid. ans cid = Some True) (gw_reg (sy_gw s)) = (cids, reg)"

definition work_step :: "'w ext \<Rightarrow> 'w sys \<Rightarrow> 'w sys \<Rightarrow> bool" where
  "work_step x s s' \<longleftrightarrow> (\<exists>w. advance x (s\<lparr>sy_world := w\<rparr>) s')"

lemma advance_sstep: "advance x s s' \<Longrightarrow> sstep x s s'"
  by (erule advance.cases) (blast intro: sstep.intros)+

lemma work_step_reachable:
  assumes "reachable x s0 s" "work_step x s s'"
  shows "reachable x s0 s'"
proof -
  obtain w where "advance x (s\<lparr>sy_world := w\<rparr>) s'" using assms(2) by (auto simp: work_step_def)
  moreover have "reachable x s0 (s\<lparr>sy_world := w\<rparr>)" by (rule reachable.step [OF assms(1) sstep.world])
  ultimately show ?thesis using advance_sstep reachable.step by metis
qed

lemma work_steps_reachable: "(work_step x)\<^sup>*\<^sup>* s s' \<Longrightarrow> reachable x s0 s \<Longrightarrow> reachable x s0 s'"
  by (induction rule: rtranclp_induct) (auto intro: work_step_reachable)

text \<open>What is left to do, the most significant first: a push under way; a tick or a reap under way;
  the adoptions queued; the stages of the goroutines; the clients the holder of the lock has still
  to ask about.\<close>

definition unasked :: "'w sys \<Rightarrow> nat" where
  "unasked s = (case sy_lock s of
      None \<Rightarrow> Suc (length (r_clients (gw_reg (sy_gw s))))
    | Some (opn, ans) \<Rightarrow> length (filter (\<lambda>(cid, e). ans cid = None) (r_clients (gw_reg (sy_gw s)))))"

fun pushing :: "(lock_op \<times> (string \<rightharpoonup> bool)) option \<Rightarrow> bool" where
  "pushing (Some (PushOp revision specs, ans)) = True"
| "pushing _ = False"

fun reaping_lock :: "(lock_op \<times> (string \<rightharpoonup> bool)) option \<Rightarrow> bool" where
  "reaping_lock (Some (ReapOp, ans)) = True"
| "reaping_lock _ = False"

definition left_to_do :: "'w sys \<Rightarrow> nat \<times> nat \<times> nat \<times> (nat \<times> nat) multiset \<times> nat" where
  "left_to_do s =
     (of_bool (pushing (sy_lock s)), of_bool (sy_ticking s \<or> reaping_lock (sy_lock s)),
      length (gw_bg (sy_gw s)), image_mset task_rank (sy_tasks s), unasked s)"

definition less_left where
  "less_left = less_than <*lex*> less_than <*lex*> less_than <*lex*> mult (less_than <*lex*> less_than) <*lex*> less_than"

lemma wf_less_left: "wf less_left"
  unfolding less_left_def by (intro wf_lex_prod wf_mult wf_less_than)

lemma length_filter_less:
  assumes "a \<in> set xs" "P a" "\<not> Q a" "\<And>b. Q b \<Longrightarrow> P b"
  shows "length (filter Q xs) < length (filter P xs)"
proof -
  have "filter Q xs = filter Q (filter P xs)" using assms(4) by (induction xs) auto
  moreover have "length (filter Q (filter P xs)) < length (filter P xs)"
    using assms(1-3) by (intro length_filter_less) auto
  ultimately show ?thesis by simp
qed

lemma advance_less:
  assumes "advance x s s'"
  shows "(left_to_do s', left_to_do s) \<in> less_left"
  using assms
proof (cases rule: advance.cases)
  case stage
  from own_step_ranks [OF this] have "(image_mset task_rank (sy_tasks s'), image_mset task_rank (sy_tasks s))
    \<in> mult (less_than <*lex*> less_than)" .
  moreover have "sy_lock s' = sy_lock s" "sy_ticking s' = sy_ticking s" "gw_bg (sy_gw s') = gw_bg (sy_gw s)"
    using stage by (auto elim!: own_step.cases dest: task_step_clients(2))
  ultimately show ?thesis by (simp add: left_to_do_def less_left_def)
next
  case (ask opn ans cid)
  obtain e where e: "(cid, e) \<in> set (r_clients (gw_reg (sy_gw s)))"
    using ask(4) by (auto simp: registered_iff dest: map_of_SomeD)
  have "length (filter (\<lambda>(c, e). (ans(cid \<mapsto> hasJobs (gw_jobs (sy_gw s)) cid)) c = None) (r_clients (gw_reg (sy_gw s))))
      < length (filter (\<lambda>(c, e). ans c = None) (r_clients (gw_reg (sy_gw s))))"
    by (rule length_filter_less [OF e]) (use ask(3) in \<open>auto split: if_splits\<close>)
  then have "unasked s' < unasked s" by (simp add: ask(1,2) unasked_def)
  moreover have "pushing (sy_lock s') = pushing (sy_lock s)" "reaping_lock (sy_lock s') = reaping_lock (sy_lock s)"
    by (cases opn; simp add: ask(1,2))+
  ultimately show ?thesis by (simp add: ask(1) left_to_do_def less_left_def)
qed (auto simp: left_to_do_def less_left_def unasked_def less_Suc_eq_le split: prod.splits)

lemma wf_work_step: "wf {(s', s). work_step x s s'}"
proof (rule wf_subset [OF wf_inv_image [OF wf_less_left, of left_to_do]], rule subrelI)
  fix s' s :: "'a sys"
  assume "(s', s) \<in> {(s', s). work_step x s s'}"
  then obtain w where "advance x (s\<lparr>sy_world := w\<rparr>) s'" by (auto simp: work_step_def)
  from advance_less [OF this] have "(left_to_do s', left_to_do (s\<lparr>sy_world := w\<rparr>)) \<in> less_left" .
  moreover have "left_to_do (s\<lparr>sy_world := w\<rparr>) = left_to_do s"
    by (simp add: left_to_do_def unasked_def split: option.split prod.split)
  ultimately show "(s', s) \<in> inv_image less_left left_to_do" by (simp add: in_inv_image)
qed

definition at_rest :: "'w sys \<Rightarrow> bool" where
  "at_rest s \<longleftrightarrow> sy_tasks s = {#} \<and> sy_lock s = None \<and> \<not> sy_ticking s \<and> gw_bg (sy_gw s) = []"

text \<open>Nothing waits for something that does not come: as long as the process is not at rest, the
  holder of the registry's lock can go on, or the lock is free and any goroutine can.\<close>

lemma lock_goes_on:
  assumes "sy_lock s = Some (opn, ans)"
  shows "\<exists>s'. advance x s s'"
proof (cases "all_asked ans (gw_reg (sy_gw s))")
  case False
  then show ?thesis using advance.ask [OF assms] by (auto simp: all_asked_def)
next
  case True
  show ?thesis
  proof (cases opn)
    case (PushOp revision specs)
    obtain res reg w where "Apply x revision specs (\<lambda>cid. ans cid = Some True) (gw_reg (sy_gw s)) (sy_world s) = (res, reg, w)"
      by (rule prod_cases3)
    from advance.push_ends [OF assms [unfolded PushOp] True this] show ?thesis by blast
  next
    case ReapOp
    obtain cids reg where "Reap (\<lambda>cid. ans cid = Some True) (gw_reg (sy_gw s)) = (cids, reg)" by (rule prod.exhaust)
    from advance.reap_ends [OF assms [unfolded ReapOp] True this] show ?thesis by blast
  qed
qed

lemma goes_on:
  assumes "\<not> at_rest s"
  shows "\<exists>s'. work_step x s s'"
proof -
  have "\<exists>s'. advance x s s'"
  proof (cases "sy_lock s")
    case None
    show ?thesis
    proof (cases "sy_tasks s = {#}")
      case True
      show ?thesis
      proof (cases "gw_bg (sy_gw s)")
        case Nil
        then show ?thesis using assms None True advance.reap_tick [OF None] by (auto simp: at_rest_def)
      qed (use advance.adopt_queued in blast)
    qed (use own_step_possible [OF None] advance.stage in blast)
  next
    case (Some p)
    then show ?thesis using lock_goes_on by (cases p) auto
  qed
  moreover have "s\<lparr>sy_world := sy_world s\<rparr> = s" by simp
  ultimately show ?thesis unfolding work_step_def by metis
qed


section \<open>Progress\<close>

text \<open>C7: The process comes to rest, and leaves nothing behind. Take any state it can get into, and let
  no further request, push or tick arrive. Whatever the clients answer and in whatever order the
  goroutines, the queued adoptions and the holder of the registry's lock go on, they cannot go on
  for ever, and they do not stop before everything under way is finished: then no goroutine runs, the
  lock is free, no tick is under way, no adoption is queued, no client is leased and no byte is
  reserved.\<close>

theorem system_rests:
  assumes "boot x t newSyncProducer parse_duration env w = (Inr p, w')"
    "reachable x (start (ps_gateway p) w') s"
  shows "(\<nexists>f. f 0 = s \<and> (\<forall>n. work_step x (f n) (f (Suc n)))) \<and>
    (\<forall>s'. (work_step x)\<^sup>*\<^sup>* s s' \<and> (\<nexists>s''. work_step x s' s'') \<longrightarrow>
       sy_tasks s' = {#} \<and> sy_lock s' = None \<and> \<not> sy_ticking s' \<and> gw_bg (sy_gw s') = [] \<and>
       (\<forall>cid. lease_count (gw_reg (sy_gw s')) cid = 0) \<and> gw_inFlight (sy_gw s') = 0)"
proof (intro conjI allI impI)
  show "\<nexists>f. f 0 = s \<and> (\<forall>n. work_step x (f n) (f (Suc n)))"
    using wf_work_step [of x] unfolding wf_iff_no_infinite_down_chain by auto
next
  fix s'
  assume s': "(work_step x)\<^sup>*\<^sup>* s s' \<and> (\<nexists>s''. work_step x s' s'')"
  then have rest: "at_rest s'" using goes_on by blast
  have "sys_ok s'" using s' reachable_ok [OF work_steps_reachable [OF _ assms(2)] boot_sys_ok [OF assms(1)]] by blast
  with rest show "sy_tasks s' = {#}" "sy_lock s' = None" "\<not> sy_ticking s'" "gw_bg (sy_gw s') = []"
    "lease_count (gw_reg (sy_gw s')) cid = 0" "gw_inFlight (sy_gw s') = 0" for cid
    by (simp_all add: at_rest_def sys_ok_def)
qed

theorem system_rests_witness:
  "\<exists>p :: unit process. let s = (start (ps_gateway p) ())\<lparr>sy_tasks := {#AddArrived demo_add#}\<rparr> in
     (\<exists>s'. work_step (demo_answers demo_queue) s s') \<and>
     (\<nexists>f. f 0 = s \<and> (\<forall>n. work_step (demo_answers demo_queue) (f n) (f (Suc n))))"
proof -
  let ?x = "demo_answers demo_queue"
  obtain p where p: "boot ?x demo_tls (\<lambda>_ _ w. (Inl (ErrText ''down''), w)) (\<lambda>_. None) demo_busy_env () = (Inr p, ())"
    using demo_busy_boots by blast
  let ?ini = "start (ps_gateway p) ()"
  let ?s = "?ini\<lparr>sy_tasks := {#AddArrived demo_add#}\<rparr>"
  have r: "reachable ?x ?ini (?ini\<lparr>sy_tasks := add_mset (AddArrived demo_add) (sy_tasks ?ini)\<rparr>)"
    by (rule reachable.step [OF reachable.init], rule sstep.add_request)
  moreover have "sy_tasks ?ini = {#}" by (simp add: start_def)
  ultimately have "reachable ?x ?ini ?s" by simp
  note system_rests [OF p this, THEN conjunct1]
  moreover have "\<exists>s'. work_step ?x ?s s'" by (rule goes_on) (simp add: at_rest_def)
  ultimately show ?thesis by (intro exI [of _ p]) (simp only: Let_def simp_thms)
qed
end
