(* ===== verification/Ends.thy ===== *)
theory Ends
  imports System
begin

text \<open>
  How often the end of a job is announced (cmd/server/main.go): a poll that finds its job completed,
  failed or lost publishes the end and then drops the job, while adds, removals and adoptions
  change the job table under it. The invariant counts the ends against the times the job
  entered the table.
\<close>


declare map_of_eq_Some_iff [simp del] Some_eq_map_of_iff [simp del]

section \<open>Ends of jobs\<close>

text \<open>The key of the job whose end an event announces.\<close>

fun end_key :: "event \<Rightarrow> string option" where
  "end_key (EvCompleted c) = Some (job_key (co_Adapter c) (co_ClientID c))"
| "end_key (EvFailed f) = Some (job_key (fa_Adapter f) (fa_ClientID f))"
| "end_key _ = None"

definition ends :: "string \<Rightarrow> event list \<Rightarrow> nat" where
  "ends k evs = length (filter (\<lambda>ev. end_key ev = Some k) evs)"

definition is_tracked :: "string \<Rightarrow> 'w sys \<Rightarrow> bool" where
  "is_tracked k s \<longleftrightarrow> map_of (gw_jobs (sy_gw s)) k \<noteq> None"

text \<open>How often a key has entered the job table on the way to a state.\<close>

inductive enters :: "'w ext \<Rightarrow> 'w sys \<Rightarrow> string \<Rightarrow> 'w sys \<Rightarrow> nat \<Rightarrow> bool" for x :: "'w ext" and s0 :: "'w sys" and k :: string where
  init: "enters x s0 k s0 (of_bool (is_tracked k s0))"
| step: "enters x s0 k s' (n + of_bool (\<not> is_tracked k s \<and> is_tracked k s'))"
    if "enters x s0 k s n" "sstep x s s'"

lemma enters_reachable: "reachable x s0 s \<longleftrightarrow> (\<exists>n. enters x s0 k s n)"
proof
  show "reachable x s0 s \<Longrightarrow> \<exists>n. enters x s0 k s n"
    by (induction rule: reachable.induct) (blast intro: enters.init enters.step)+
  show "\<exists>n. enters x s0 k s n \<Longrightarrow> reachable x s0 s"
  proof (elim exE)
    show "enters x s0 k s n \<Longrightarrow> reachable x s0 s" for n
      by (induction rule: enters.induct) (blast intro: reachable.intros)+
  qed
qed

text \<open>The polls of a key, and those that have not announced its end.\<close>

definition polls :: "string \<Rightarrow> 'w task \<Rightarrow> bool" where
  "polls k t \<longleftrightarrow> (case poll_job t of Some job \<Rightarrow> key_of job = k | None \<Rightarrow> False)"

fun drops :: "'w task \<Rightarrow> bool" where
  "drops (PollDrop job) = True"
| "drops _ = False"

abbreviation open_poll :: "string \<Rightarrow> 'w task \<Rightarrow> bool" where
  "open_poll k t \<equiv> polls k t \<and> \<not> drops t"

definition idle :: "string \<Rightarrow> 'w sys \<Rightarrow> bool" where
  "idle k s \<longleftrightarrow> is_tracked k s \<and> (\<forall>t \<in># sy_tasks s. \<not> polls k t)"

text \<open>What a task is about to say is about its own job.\<close>

definition says_ok :: "'w task \<Rightarrow> bool" where
  "says_ok t \<longleftrightarrow> (\<forall>n cid job ev. t = AddAccepted n cid job ev \<longrightarrow> end_key ev = None) \<and>
     (\<forall>n cid ev. t = AddTracked n cid ev \<longrightarrow> end_key ev = None) \<and>
     (\<forall>job ev. t = PollEnd job ev \<longrightarrow> end_key ev = Some (key_of job))"

lemma says_ok_simps [simp]:
  "says_ok (AddAccepted n cid job ev) \<longleftrightarrow> end_key ev = None"
  "says_ok (AddTracked n cid ev) \<longleftrightarrow> end_key ev = None"
  "says_ok (PollEnd job ev) \<longleftrightarrow> end_key ev = Some (key_of job)"
  by (simp_all add: says_ok_def)

lemma ends_simps [simp]: "ends k [] = 0" "ends k (evs @ evs') = ends k evs + ends k evs'"
  "ends k (ev # evs) = of_bool (end_key ev = Some k) + ends k evs"
  by (simp_all add: ends_def)

lemma end_key_poll [simp]:
  "end_key (completed_event job v) = Some (key_of job)" "end_key (failed_event job title err) = Some (key_of job)"
  "end_key (progress_event job v) = None"
  by (simp_all add: completed_event_def failed_event_def progress_event_def)

lemma add_leased_ends:
  assumes "add_leased up cid c req jobs w = (resp, jobs', evs, w')"
  shows "\<forall>ev \<in> set evs. end_key ev = None"
  using assms by (cases rule: add_leased_cases) (auto simp: started_event_def)

lemma task_step_says:
  assumes "task_step fr t g w ts g' evs w'" "says_ok t"
  shows "\<forall>u \<in> set ts. says_ok u \<and> poll_job u = poll_job t"
  using assms by cases (auto simp: says_ok_def split: list.splits dest: add_leased_ends)

lemma task_step_ends:
  assumes "task_step fr t g w ts g' evs w'" "says_ok t"
  shows "ends k evs + length (filter (open_poll k) ts) +
      of_bool (ts = [] \<and> polls k t \<and> map_of (gw_jobs g') k \<noteq> None) \<le> (of_bool (open_poll k t) :: nat)"
  using assms by cases (auto simp: polls_def untrack_def delete_conv split: list.splits)


text \<open>
  The invariant. Every end announced so far, every poll that may still announce one, and an
  entry of the table that nobody polls has an entry of the key to account for it; outside a tick,
  and while its drained clients are reaped, nobody polls.
\<close>

definition reaping :: "'w sys \<Rightarrow> bool" where
  "reaping s \<longleftrightarrow> (\<exists>ans. sy_lock s = Some (ReapOp, ans))"

definition ends_ok :: "string \<Rightarrow> nat \<Rightarrow> 'w sys \<Rightarrow> bool" where
  "ends_ok k n s \<longleftrightarrow> ends k (sy_log s) + size (filter_mset (open_poll k) (sy_tasks s)) + of_bool (idle k s) \<le> n \<and>
     (\<forall>t \<in># sy_tasks s. says_ok t) \<and> (reaping s \<longrightarrow> sy_ticking s) \<and>
     (\<not> sy_ticking s \<or> reaping s \<longrightarrow> (\<forall>t \<in># sy_tasks s. poll_job t = None))"

lemma polls_poll_job: "poll_job u = poll_job t \<Longrightarrow> polls k u = polls k t"
  by (simp add: polls_def)

lemma filter_mset_mset: "size (filter_mset P (mset xs)) = length (filter P xs)"
  by (simp flip: mset_filter)

lemma ends_ok_run:
  assumes ok: "ends_ok k n s" and t: "t \<in># sy_tasks s"
    and st: "task_step (sy_lock s = None) t (sy_gw s) (sy_world s) ts g evs w"
  defines "s' \<equiv> s\<lparr>sy_gw := g, sy_tasks := sy_tasks s - {#t#} + mset ts, sy_log := sy_log s @ evs, sy_world := w\<rparr>"
  shows "ends_ok k (n + of_bool (\<not> is_tracked k s \<and> is_tracked k s')) s'"
proof -
  obtain us where us: "sy_tasks s = add_mset t us" using t by (metis insert_DiffM)
  have said: "says_ok t" using ok t by (simp add: ends_ok_def)
  note next_says = task_step_says [OF st said] and next_ends = task_step_ends [OF st said, of k]
  let ?open = "\<lambda>ts. size (filter_mset (open_poll k) ts)"
  have before: "ends k (sy_log s) + (of_bool (open_poll k t) + ?open us) + of_bool (idle k s) \<le> n"
    using ok by (auto simp: ends_ok_def us split: if_splits)
  have tracked': "is_tracked k s' \<longleftrightarrow> map_of (gw_jobs g) k \<noteq> None" by (simp add: is_tracked_def s'_def)
  have quiet': "idle k s' \<Longrightarrow> polls k t \<Longrightarrow> ts = []"
    using next_says by (cases ts) (auto simp: idle_def s'_def us dest: polls_poll_job [of _ t k])
  have idle': "idle k s' \<Longrightarrow> \<not> polls k t \<Longrightarrow> is_tracked k s \<Longrightarrow> idle k s"
    by (auto simp: idle_def s'_def us)
  have "ends k (sy_log s) + ends k evs + (?open us + length (filter (open_poll k) ts)) + of_bool (idle k s')
      \<le> n + of_bool (\<not> is_tracked k s \<and> is_tracked k s')"
  proof (cases "idle k s'")
    case True
    then have "is_tracked k s'" by (simp add: idle_def)
    with True show ?thesis using before next_ends quiet' idle' tracked'
      by (cases "polls k t"; cases "is_tracked k s") auto
  next
    case False
    then show ?thesis using before next_ends by simp
  qed
  then show ?thesis using ok next_says
    by (auto simp: ends_ok_def s'_def us filter_mset_mset reaping_def)
qed

lemma polls_snapshot:
  assumes "jobs_wf jobs"
  shows "length (filter (open_poll k) (map PollPending (snapshot jobs))) = of_bool (map_of jobs k \<noteq> None)"
proof -
  have "length (filter (\<lambda>p. key_of (snd p) = k) jobs) = (of_bool (map_of jobs k \<noteq> None) :: nat)"
    using assms unfolding jobs_wf_def
  proof (induction jobs)
    case (Cons p jobs)
    moreover have "map_of jobs (fst p) = None" using Cons.prems by (simp add: map_of_eq_None_iff)
    ultimately show ?case by (cases p) auto
  qed simp
  then show ?thesis
    by (simp add: snapshot_def filter_map o_def polls_def)
qed

lemma ends_ok_step:
  assumes ok: "ends_ok k n s" and sok: "sys_ok s" and st: "sstep x s s'"
  shows "ends_ok k (n + of_bool (\<not> is_tracked k s \<and> is_tracked k s')) s'"
  using st
proof cases
  case run
  then show ?thesis using ends_ok_run [OF ok] by (cases rule: own_step.cases) auto
next
  case tick
  then have "idle k s = is_tracked k s" "\<forall>t \<in># sy_tasks s. poll_job t = None" "\<not> reaping s"
    using ok by (auto simp: ends_ok_def idle_def polls_def)
  moreover from this(2) have "filter_mset (open_poll k) (sy_tasks s) = {#}" by (auto simp: polls_def)
  moreover have "jobs_wf (gw_jobs (sy_gw s))" using sok by (simp add: sys_ok_def)
  from polls_snapshot [OF this, of k]
  have "size (filter_mset (open_poll k) (mset (map PollPending (snapshot (gw_jobs (sy_gw s)))))) = of_bool (is_tracked k s)"
    by (simp only: filter_mset_mset is_tracked_def)
  moreover have tasks': "sy_tasks s' = sy_tasks s + mset (map PollPending (snapshot (gw_jobs (sy_gw s))))"
    by (simp add: tick)
  ultimately have "size (filter_mset (open_poll k) (sy_tasks s')) = of_bool (idle k s)"
    by (simp only: tasks' filter_union_mset size_union size_empty add_0)
  moreover have "\<not> idle k s'"
  proof
    assume "idle k s'"
    then obtain job where job: "map_of (gw_jobs (sy_gw s)) k = Some job" and no: "\<forall>t \<in># sy_tasks s'. \<not> polls k t"
      by (auto simp: idle_def is_tracked_def tick)
    have "PollPending job \<in># sy_tasks s'" using job by (auto simp: tick snapshot_def dest!: map_of_SomeD intro!: image_eqI)
    with no sys_ok_job(1) [OF sok job] show False by (auto simp: polls_def)
  qed
  moreover have "sy_log s' = sy_log s" "sy_ticking s'" "reaping s' = reaping s" "\<forall>t \<in># sy_tasks s'. says_ok t"
    using ok by (auto simp: tick ends_ok_def says_ok_def reaping_def)
  ultimately show ?thesis using ok tick(2) by (simp add: ends_ok_def)
qed (use ok in \<open>auto simp: ends_ok_def idle_def is_tracked_def polls_def says_ok_def reaping_def\<close>)

lemma enters_ok:
  assumes "enters x s0 k s n" "sys_ok s0" "sy_log s0 = []" "sy_tasks s0 = {#}" "sy_lock s0 = None"
  shows "ends_ok k n s"
  using assms
proof (induction rule: enters.induct)
  case init
  then show ?case by (simp add: ends_ok_def idle_def reaping_def)
next
  case (step s n s')
  then have "sys_ok s" using enters_reachable [of x s0 s k] reachable_ok by blast
  with step show ?case by (intro ends_ok_step) auto
qed

text \<open>C9: The end of a job is announced at most once for each time the job enters the job table.
  Under any interleaving of adds, removals, adoptions, polls, pushes and reaps, in a run in which
  a key has entered the table \<open>n\<close> times, at most \<open>n\<close> completed and failed events of that
  job have been published. In particular nothing ends that was never tracked.\<close>

theorem ends_once:
  assumes "boot x t newSyncProducer parse_duration env w = (Inr p, w')"
    "enters x (start (ps_gateway p) w') k s n"
  shows "ends k (sy_log s) \<le> n"
  using enters_ok [OF assms(2) boot_sys_ok [OF assms(1)]] by (simp add: ends_ok_def start_def)

theorem ends_once_witness:
  "\<exists>(p :: unit process) s. enters (demo_answers demo_queue) (start (ps_gateway p) ()) ''nzbget:7'' s 1 \<and>
     (\<exists>job. PollPending job \<in># sy_tasks s \<and> key_of job = ''nzbget:7'') \<and> ends ''nzbget:7'' (sy_log s) \<le> 1"
proof -
  let ?x = "demo_answers demo_queue"
  let ?job = "adopted ''nzbget'' ''nzbget'' \<lparr>aj_ClientJobID = ''7'', aj_Title = ''t''\<rparr>"
  obtain p where p: "boot ?x demo_tls (\<lambda>_ _ w. (Inl (ErrText ''down''), w)) (\<lambda>_. None) demo_busy_env () = (Inr p, ())"
    "gw_jobs (ps_gateway p) = [(''nzbget:7'', ?job)]"
    using demo_busy_boots by blast
  let ?ini = "start (ps_gateway p) ()"
  let ?s = "?ini\<lparr>sy_ticking := True, sy_tasks := sy_tasks ?ini + mset (map PollPending (snapshot (gw_jobs (sy_gw ?ini))))\<rparr>"
  have tr: "is_tracked ''nzbget:7'' ?ini" "is_tracked ''nzbget:7'' ?s" by (simp_all add: is_tracked_def start_def p(2))
  have "sstep ?x ?ini ?s" by (rule sstep.tick) (simp add: start_def)
  from enters.step [OF enters.init [where k = "''nzbget:7''"] this] tr have e: "enters ?x ?ini ''nzbget:7'' ?s 1" by simp
  moreover have "PollPending ?job \<in># sy_tasks ?s" "key_of ?job = ''nzbget:7''"
    by (simp_all add: start_def snapshot_def p(2) adopted_def job_key_def)
  moreover note ends_once [OF p(1) e]
  ultimately show ?thesis by blast
qed

end
