(* ===== verification/Secrecy.thy ===== *)
theory Secrecy
  imports Registry
begin

text \<open>
  What the configuration API tells of a client's secret (internal/adapters/registry.go and
  clients.go): the registry keeps the secret only inside the adapter and in the fingerprint
  it compares pushes by. Two runs that differ in the secrets pushed are related step by step; what is
  listed and answered is the same in both.
\<close>


declare map_of_eq_Some_iff [simp del] Some_eq_map_of_iff [simp del]


section \<open>Specs that differ in their secrets\<close>

text \<open>All that the gateway decides by looking at a secret: whether there is one, and whether it is
  refused for its length or for a control character.\<close>

definition secret_class :: "string \<Rightarrow> bool \<times> bool \<times> bool" where
  "secret_class k = (k = '''', maxSecret < length k, list_ex isControl k)"

definition same_spec :: "ClientSpec \<Rightarrow> ClientSpec \<Rightarrow> bool" where
  "same_spec s t \<longleftrightarrow> s\<lparr>sp_Secret := ''''\<rparr> = t\<lparr>sp_Secret := ''''\<rparr> \<and> secret_class (sp_Secret s) = secret_class (sp_Secret t)"

lemma same_specD:
  assumes "same_spec s t"
  shows "sp_ID s = sp_ID t" "sp_Type s = sp_Type t" "sp_BaseURL s = sp_BaseURL t" "sp_Auth s = sp_Auth t"
    "sp_Username s = sp_Username t" "sp_Category s = sp_Category t" "sp_SavePath s = sp_SavePath t"
    "sp_Protocols s = sp_Protocols t" "sp_Secret s = '''' \<longleftrightarrow> sp_Secret t = ''''"
    "maxSecret < length (sp_Secret s) \<longleftrightarrow> maxSecret < length (sp_Secret t)"
    "list_ex isControl (sp_Secret s) \<longleftrightarrow> list_ex isControl (sp_Secret t)"
  using assms by (cases s; cases t; auto simp: same_spec_def secret_class_def)+

lemma same_spec_refl [simp]: "same_spec s s"
  by (simp add: same_spec_def)

text \<open>A spec and another secret of the same kind.\<close>

lemma same_spec_secret: "same_spec s t \<longleftrightarrow> t = s\<lparr>sp_Secret := sp_Secret t\<rparr> \<and> secret_class (sp_Secret s) = secret_class (sp_Secret t)"
  by (cases s; cases t) (auto simp: same_spec_def)

lemma secret_classD:
  assumes "secret_class k = secret_class k'"
  shows "k = '''' \<longleftrightarrow> k' = ''''" "maxSecret < length k \<longleftrightarrow> maxSecret < length k'" "list_ex isControl k \<longleftrightarrow> list_ex isControl k'"
  using assms by (simp_all add: secret_class_def)

lemma prepare_credentials_same:
  assumes "secret_class k = secret_class k'"
  obtains e where "prepare_credentials auth user k = Inl e" "prepare_credentials auth user k' = Inl e"
  | u l l' where "prepare_credentials auth user k = Inr (u, l)" "prepare_credentials auth user k' = Inr (u, l')"
      "secret_class l = secret_class l'"
proof -
  have "rel_sum (=) (rel_prod (=) (\<lambda>l l'. secret_class l = secret_class l'))
      (prepare_credentials auth user k) (prepare_credentials auth user k')"
    using assms secret_classD(1) [OF assms] by (simp add: prepare_credentials_def)
  then show thesis using that
    by (cases "prepare_credentials auth user k"; cases "prepare_credentials auth user k'") auto
qed

lemma PrepareSpec_same:
  assumes "same_spec s t"
  shows "rel_sum (=) same_spec (PrepareSpec s) (PrepareSpec t)"
proof -
  obtain k where t: "t = s\<lparr>sp_Secret := k\<rparr>" and k: "secret_class (sp_Secret s) = secret_class k"
    using assms by (metis same_spec_secret)
  show ?thesis
    using k
  proof (cases rule: prepare_credentials_same [where auth = "trim_space (sp_Auth s)" and user = "trim_space (sp_Username s)"])
    case (1 e)
    then show ?thesis by (simp add: PrepareSpec_def t Let_def split: option.split)
  next
    case (2 u l l')
    have "check_fields ((''secret'', l, maxSecret) # fs) = check_fields ((''secret'', l', maxSecret) # fs)" for fs
      by (simp add: secret_classD(2,3) [OF 2(3)])
    then have "check_fields (f # (''secret'', l, maxSecret) # fs) = check_fields (f # (''secret'', l', maxSecret) # fs)" for f fs
      by (cases f) (simp del: check_fields.simps add: check_fields.simps(2) [of _ _ _ "_ # _"])
    with 2 show ?thesis
      by (simp add: PrepareSpec_def t Let_def same_spec_def del: check_fields.simps split: option.split)
  qed
qed

text \<open>What is logged about a spec, and about the adapters built from it, tells whether there is a secret and
  nothing more of it.\<close>

lemma logs_same:
  assumes "same_spec s t"
  shows "spec_LogValue s = spec_LogValue t" "spec_MarshalJSON s = spec_MarshalJSON t"
    "NZBGet_LogValue (NewNZBGet (sp_BaseURL s) (sp_Username s) (sp_Secret s) (sp_Category s)) =
     NZBGet_LogValue (NewNZBGet (sp_BaseURL t) (sp_Username t) (sp_Secret t) (sp_Category t))"
    "OD_LogValue (NewODownloader (sp_BaseURL s) (sp_Secret s)) = OD_LogValue (NewODownloader (sp_BaseURL t) (sp_Secret t))"
    "QB_LogValue (fst (NewQBittorrent x (sp_BaseURL s) (sp_Username s) (sp_Secret s) w)) =
     QB_LogValue (fst (NewQBittorrent x (sp_BaseURL t) (sp_Username t) (sp_Secret t) w))"
  using same_specD [OF assms]
  by (simp_all add: spec_LogValue_def spec_MarshalJSON_def spec_info_def NZBGet_LogValue_def NewNZBGet_def
      OD_LogValue_def NewODownloader_def QB_LogValue_def NewQBittorrent_def split: prod.split)


section \<open>What the configuration API shows\<close>

text \<open>The part of an entry that is not derived from its secret.\<close>

definition seen :: "'w entry \<Rightarrow> ClientSpec \<times> bool \<times> Source \<times> bool" where
  "seen e = (e_spec e, e_secretSet e, e_source e, e_draining e)"

abbreviation seen_clients :: "(string \<times> 'w entry) list \<Rightarrow> (string \<times> ClientSpec \<times> bool \<times> Source \<times> bool) list" where
  "seen_clients cs \<equiv> map (map_prod id seen) cs"

text \<open>The fingerprint of a pushed entry is that of the spec it was built from; \<open>F\<close> holds the texts
  that are hashed.\<close>

definition hashed :: "'w ext \<Rightarrow> string set \<Rightarrow> (string \<times> 'w entry) list \<Rightarrow> bool" where
  "hashed x F cs \<longleftrightarrow> (\<forall>(cid, e) \<in> set cs. e_source e = SourceAPI \<longrightarrow>
     (\<exists>a s. PrepareSpec a = Inr s \<and> sp_ID s = cid \<and> fingerprint s \<in> F \<and> e_hash e = specHash x s \<and>
        e_spec e = s\<lparr>sp_Secret := ''''\<rparr> \<and> (e_secretSet e \<longleftrightarrow> sp_Secret s \<noteq> '''')))"

definition hash_texts :: "ClientSpec list \<Rightarrow> string set" where
  "hash_texts specs = {fingerprint s | a s. a \<in> set specs \<and> PrepareSpec a = Inr s}"

lemma map_update: "map (map_prod id f) (AList.update k v al) = AList.update k (f v) (map (map_prod id f) al)"
  by (induction al) auto

lemma map_of_seen: "map_of (seen_clients cs) k = map_option seen (map_of cs k)"
  by (induction cs) auto

lemma hashed_update: "hashed x F cs \<Longrightarrow> hashed x F [(k, e)] \<Longrightarrow> hashed x F (AList.update k e cs)"
  by (induction cs) (auto simp: hashed_def)

definition seen_spec :: "ClientSpec \<Rightarrow> ClientSpec \<times> bool \<times> Source \<times> bool" where
  "seen_spec s = (s\<lparr>sp_Secret := ''''\<rparr>, sp_Secret s \<noteq> '''', SourceAPI, False)"

lemma seen_new_entry [simp]: "seen (new_entry x s ad) = seen_spec s"
  by (simp add: seen_def seen_spec_def new_entry_def)

lemma seen_same_spec: "same_spec s t \<Longrightarrow> seen_spec s = seen_spec t"
  using same_specD(9) [of s t] by (simp add: seen_spec_def same_spec_def)

lemma hashed_new_entry: "PrepareSpec a = Inr s \<Longrightarrow> fingerprint s \<in> F \<Longrightarrow> hashed x F [(sp_ID s, new_entry x s ad)]"
  by (auto simp: hashed_def new_entry_def)

text \<open>An entry whose fingerprint matches is what the spec would be registered as: a push that finds a client
  unchanged and one that builds it again leave the same listing.\<close>

lemma hashed_unchanged:
  assumes "hashed x F cs" "inj_on (x_Sha256 x) F" "map_of cs (sp_ID s) = Some e" "e_source e = SourceAPI"
    "PrepareSpec a = Inr s" "fingerprint s \<in> F" "e_hash e = specHash x s"
  shows "seen (e\<lparr>e_draining := False\<rparr>) = seen_spec s"
proof -
  obtain b t where t: "PrepareSpec b = Inr t" "sp_ID t = sp_ID s" "fingerprint t \<in> F" "e_hash e = specHash x t"
    "e_spec e = t\<lparr>sp_Secret := ''''\<rparr>" "e_secretSet e \<longleftrightarrow> sp_Secret t \<noteq> ''''"
    using assms(1,3,4) by (fastforce simp: hashed_def dest: map_of_SomeD)
  have "fingerprint t = fingerprint s"
    using inj_onD [OF assms(2), of "fingerprint t" "fingerprint s"] t(3,4) assms(6,7) by (simp add: specHash_def)
  from prepared_fingerprint [OF t(1) assms(5) t(2) this] t assms(4) show ?thesis by (simp add: seen_def seen_spec_def)
qed

lemma apply_spec_seen:
  assumes "hashed x F (as_clients st)" "inj_on (x_Sha256 x) F" "PrepareSpec a = Inr s" "fingerprint s \<in> F"
    "case map_of (as_clients st) (sp_ID s) of Some e \<Rightarrow> e_source e = SourceAPI | None \<Rightarrow> True"
  shows "seen_clients (as_clients (apply_spec x (sp_ID s) s st)) = AList.update (sp_ID s) (seen_spec s) (seen_clients (as_clients st))"
    "hashed x F (as_clients (apply_spec x (sp_ID s) s st))"
proof -
  have old: "hashed x F [(sp_ID s, e\<lparr>e_draining := False\<rparr>)]" if "map_of (as_clients st) (sp_ID s) = Some e" for e
    using assms(1) map_of_SomeD [OF that] by (auto simp: hashed_def)
  show "seen_clients (as_clients (apply_spec x (sp_ID s) s st)) = AList.update (sp_ID s) (seen_spec s) (seen_clients (as_clients st))"
    using hashed_unchanged [OF assms(1,2) _ _ assms(3,4)] assms(5)
    by (auto simp: apply_spec_def Let_def map_update split: option.split prod.split)
  show "hashed x F (as_clients (apply_spec x (sp_ID s) s st))"
    using old hashed_new_entry [OF assms(3,4)] assms(1)
    by (auto simp: apply_spec_def Let_def intro!: hashed_update split: option.split prod.split)
qed


section \<open>A push\<close>

definition like_state :: "'w ext \<Rightarrow> string set \<Rightarrow> 'w apply_state \<Rightarrow> 'w apply_state \<Rightarrow> bool" where
  "like_state x F st st' \<longleftrightarrow> hashed x F (as_clients st) \<and> hashed x F (as_clients st') \<and>
     seen_clients (as_clients st) = seen_clients (as_clients st') \<and> as_keep st = as_keep st' \<and>
     as_reported st = as_reported st' \<and> as_Applied st = as_Applied st' \<and> as_Errors st = as_Errors st'"

lemma source_seen:
  assumes "seen_clients cs = seen_clients cs'"
  shows "map_option e_source (map_of cs k) = map_option e_source (map_of cs' k)"
proof -
  have "map_option seen (map_of cs k) = map_option seen (map_of cs' k)"
    using assms by (simp flip: map_of_seen)
  then show ?thesis by (cases "map_of cs k"; cases "map_of cs' k") (auto simp: seen_def)
qed

lemma apply_fail_like:
  assumes "like_state x F st st'"
  shows "like_state x F (apply_fail cid msg st) (apply_fail cid msg st')"
proof -
  have "map_option e_source (map_of (as_clients st) cid) = map_option e_source (map_of (as_clients st') cid)"
    using assms by (intro source_seen) (simp add: like_state_def)
  then show ?thesis using assms
    by (cases "map_of (as_clients st) cid"; cases "map_of (as_clients st') cid") (auto simp: like_state_def apply_fail_def)
qed

lemma apply_one_like:
  assumes "like_state x F st st'" "inj_on (x_Sha256 x) F" "same_spec a a'"
    "hash_texts [a] \<subseteq> F" "hash_texts [a'] \<subseteq> F" "\<And>cid. id_count specs cid = id_count specs' cid"
  shows "like_state x F (apply_one x specs st a) (apply_one x specs' st' a')"
proof -
  note ids = same_specD(1) [OF assms(3)]
  let ?cid = "trim_space (sp_ID a)"
  have src: "map_option e_source (map_of (as_clients st) ?cid) = map_option e_source (map_of (as_clients st') ?cid)"
    using assms(1) by (intro source_seen) (simp add: like_state_def)
  let ?env = "\<lambda>st. case map_of (as_clients st) ?cid of Some e \<Rightarrow> e_source e = SourceEnv | None \<Rightarrow> False"
  have env: "?env st' = ?env st" using src by (auto split: option.splits)
  show ?thesis
  proof (cases "ValidClientID ?cid \<and> \<not> 1 < id_count specs ?cid \<and> \<not> ?env st")
    case False
    then show ?thesis using apply_fail_like [OF assms(1)] by (auto simp: apply_one_def Let_def ids [symmetric] assms(6) [symmetric] env)
  next
    case ok: True
    have one: "apply_one x specs st a = (case PrepareSpec a of Inl err \<Rightarrow> apply_fail ?cid err st | Inr spec \<Rightarrow> apply_spec x ?cid spec st)"
      "apply_one x specs' st' a' = (case PrepareSpec a' of Inl err \<Rightarrow> apply_fail ?cid err st' | Inr spec \<Rightarrow> apply_spec x ?cid spec st')"
      using ok by (simp_all only: apply_one_def Let_def ids [symmetric] assms(6) [symmetric] env simp_thms if_True if_False)
    show ?thesis
    proof (cases "PrepareSpec a")
      case (Inl e)
      then have "PrepareSpec a' = Inl e" using PrepareSpec_same [OF assms(3)] by (cases "PrepareSpec a'") auto
      with Inl show ?thesis using apply_fail_like [OF assms(1)] by (simp add: one)
    next
      case (Inr s)
      then obtain s' where s': "PrepareSpec a' = Inr s'" "same_spec s s'"
        using PrepareSpec_same [OF assms(3)] by (cases "PrepareSpec a'") auto
      have cid: "sp_ID s = ?cid" "sp_ID s' = ?cid" using PrepareSpec_id [OF Inr] PrepareSpec_id [OF s'(1)] ids by simp_all
      have F: "fingerprint s \<in> F" "fingerprint s' \<in> F" using assms(4,5) Inr s'(1) by (auto simp: hash_texts_def)
      have api: "case map_of (as_clients st) (sp_ID s) of Some e \<Rightarrow> e_source e = SourceAPI | None \<Rightarrow> True"
        "case map_of (as_clients st') (sp_ID s') of Some e \<Rightarrow> e_source e = SourceAPI | None \<Rightarrow> True"
        using ok env unfolding cid by (auto split: option.splits)
      have h: "hashed x F (as_clients st)" "hashed x F (as_clients st')" using assms(1) by (simp_all add: like_state_def)
      note a = apply_spec_seen [OF h(1) assms(2) Inr F(1) api(1)] apply_spec_seen [OF h(2) assms(2) s'(1) F(2) api(2)]
      show ?thesis using a assms(1) seen_same_spec [OF s'(2)] Inr s'(1)
        by (simp add: one like_state_def cid)
    qed
  qed
qed

lemma id_count_same: "list_all2 same_spec specs specs' \<Longrightarrow> id_count specs cid = id_count specs' cid"
  unfolding id_count_def by (induction rule: list_all2_induct) (auto dest: same_specD(1))

lemma hash_texts_Cons: "hash_texts (a # specs) = hash_texts [a] \<union> hash_texts specs"
  by (auto simp: hash_texts_def)

lemma apply_loop_like:
  assumes "list_all2 same_spec as as'" "like_state x F st st'" "inj_on (x_Sha256 x) F"
    "hash_texts as \<subseteq> F" "hash_texts as' \<subseteq> F" "\<And>cid. id_count specs cid = id_count specs' cid"
  shows "like_state x F (foldl (apply_one x specs) st as) (foldl (apply_one x specs') st' as')"
  using assms(1,2,4,5)
proof (induction arbitrary: st st' rule: list_all2_induct)
  case (Cons a as a' as')
  have texts: "hash_texts [a] \<subseteq> F" "hash_texts [a'] \<subseteq> F" "hash_texts as \<subseteq> F" "hash_texts as' \<subseteq> F"
    using Cons.prems(2,3) hash_texts_Cons [of a as] hash_texts_Cons [of a' as'] by auto
  show ?case using Cons.IH [OF apply_one_like [OF Cons.prems(1) assms(3) Cons(1) texts(1,2) assms(6)] texts(3,4)] by simp
qed simp

text \<open>The sweep of the second loop, its two reports and a reap look at nothing else.\<close>

lemma seen_sweep:
  assumes "seen_clients cs = seen_clients cs'"
  shows "seen_clients (sweep_clients (sweep_entry u l k) cs) = seen_clients (sweep_clients (sweep_entry u l k) cs')"
  using assms
proof (induction cs arbitrary: cs')
  case (Cons p cs)
  then show ?case by (cases p; cases cs') (auto simp: seen_def sweep_entry_def split: sweep.split)
qed simp

lemma seen_keys:
  assumes "seen_clients cs = seen_clients cs'" "\<And>cid e e'. seen e = seen e' \<Longrightarrow> P (cid, e) = P (cid, e')"
  shows "map fst (filter P cs) = map fst (filter P cs')" "seen_clients (filter P cs) = seen_clients (filter P cs')"
proof -
  have "map fst (filter P cs) = map fst (filter P cs') \<and> seen_clients (filter P cs) = seen_clients (filter P cs')"
    using assms(1)
  proof (induction cs arbitrary: cs')
    case (Cons p cs)
    from Cons.prems obtain cid e e' cs1 where p: "p = (cid, e)" "cs' = (cid, e') # cs1" "seen e = seen e'"
      "seen_clients cs = seen_clients cs1" by (cases p; cases cs') (auto simp: id_def)
    show ?case using Cons.IH [OF p(4)] assms(2) [OF p(3), of cid] by (simp add: p)
  qed simp
  then show "map fst (filter P cs) = map fst (filter P cs')" "seen_clients (filter P cs) = seen_clients (filter P cs')" by simp_all
qed

lemma hashed_sweep: "hashed x F cs \<Longrightarrow> hashed x F (sweep_clients f cs)"
  by (induction f cs rule: sweep_clients.induct) (auto simp: hashed_def split: sweep.splits)


section \<open>Registries that look the same\<close>

definition like_reg :: "'w ext \<Rightarrow> string set \<Rightarrow> 'w Registry \<Rightarrow> 'w Registry \<Rightarrow> bool" where
  "like_reg x F r r' \<longleftrightarrow> inj_on (x_Sha256 x) F \<and> hashed x F (r_clients r) \<and> hashed x F (r_clients r') \<and>
     seen_clients (r_clients r) = seen_clients (r_clients r') \<and> r_leases r = r_leases r' \<and> r_revision r = r_revision r'"

lemma Config_like:
  assumes "like_reg x F r r'"
  shows "Config r = Config r'"
proof -
  have "Config r = (r_revision r, sort_key ci_ID
      (map (\<lambda>(cid, spec, set, source, draining). (spec_info spec (Some source))\<lparr>ci_SecretSet := set\<rparr>)
         (filter (\<lambda>(cid, spec, set, source, draining). \<not> draining) (seen_clients (r_clients r)))))" for r :: "'a Registry"
    by (simp add: Config_def filter_map o_def seen_def split_def)
  then show ?thesis using assms by (simp add: like_reg_def)
qed

lemma Apply_like:
  fixes r r' :: "'w Registry"
  assumes "like_reg x F r r'" "list_all2 same_spec specs specs'" "hash_texts specs \<subseteq> F" "hash_texts specs' \<subseteq> F"
    "Apply x revision specs inUse r w = (res, r1, w1)" "Apply x revision specs' inUse r' w' = (res', r1', w1')"
  shows "like_reg x F r1 r1'" "res_Revision res = res_Revision res'" "res_Applied res = res_Applied res'"
    "res_Errors res = res_Errors res'" "res_Draining res = res_Draining res'" "res_Removed res = res_Removed res'"
proof -
  have start: "like_state x F (apply_start r w) (apply_start r' w')" and inj: "inj_on (x_Sha256 x) F"
    using assms(1) by (simp_all add: like_reg_def like_state_def apply_start_def)
  define st st' where "st = foldl (apply_one x specs) (apply_start r w) specs"
    and "st' = foldl (apply_one x specs') (apply_start r' w') specs'"
  have like: "like_state x F st st'"
    unfolding st_def st'_def by (rule apply_loop_like [OF assms(2) start inj assms(3,4) id_count_same [OF assms(2)]])
  define f :: "string \<Rightarrow> 'w entry \<Rightarrow> sweep" where "f = sweep_entry inUse (lease_count r) (as_keep st)"
  have "lease_count r' = lease_count r" using assms(1) by (simp add: like_reg_def lease_count_def fun_eq_iff)
  then have f': "f = sweep_entry inUse (lease_count r') (as_keep st')" using like by (simp add: like_state_def f_def)
  have seen: "seen_clients (as_clients st) = seen_clients (as_clients st')" using like by (simp add: like_state_def)
  have keys: "map fst (filter (\<lambda>(cid, e). f cid e = Drains \<and> \<not> e_draining e) (as_clients st)) =
      map fst (filter (\<lambda>(cid, e). f cid e = Drains \<and> \<not> e_draining e) (as_clients st'))"
    "map fst (filter (\<lambda>(cid, e). f cid e = Goes) (as_clients st)) = map fst (filter (\<lambda>(cid, e). f cid e = Goes) (as_clients st'))"
    by (rule seen_keys(1) [OF seen]; simp add: f_def sweep_entry_def seen_def)+
  have out: "res_Revision res = (if as_Errors st = [] then revision else r_revision r)" "res_Applied res = as_Applied st"
    "res_Errors res = as_Errors st"
    "res_Draining res = sort (map fst (filter (\<lambda>(cid, e). f cid e = Drains \<and> \<not> e_draining e) (as_clients st)))"
    "res_Removed res = sort (map fst (filter (\<lambda>(cid, e). f cid e = Goes) (as_clients st)))"
    "r1 = r\<lparr>r_clients := sweep_clients f (as_clients st), r_revision := res_Revision res\<rparr>"
    if "Apply x revision specs inUse r w = (res, r1, w1)" "st = foldl (apply_one x specs) (apply_start r w) specs"
      "f = sweep_entry inUse (lease_count r) (as_keep st)" for specs and r :: "'w Registry" and w res r1 w1 st
    using that(1) by (auto simp: Apply_def Let_def that(2,3))
  note o = out [OF assms(5) st_def f_def] and o' = out [OF assms(6) st'_def f']
  show rev: "res_Revision res = res_Revision res'" using o o' assms(1) like by (simp add: like_reg_def like_state_def)
  show "res_Applied res = res_Applied res'" "res_Errors res = res_Errors res'"
    "res_Draining res = res_Draining res'" "res_Removed res = res_Removed res'"
    using o o' keys like by (simp_all add: like_state_def)
  show "like_reg x F r1 r1'"
    using assms(1) like seen_sweep [OF seen, of inUse "lease_count r" "as_keep st", folded f_def]
    by (simp add: o(6) o'(6) rev like_reg_def like_state_def hashed_sweep)
qed

lemma lease_like: "like_reg x F r r' \<Longrightarrow> like_reg x F (do_lease cid r) (do_lease cid r')"
  "like_reg x F r r' \<Longrightarrow> like_reg x F (release cid r) (release cid r')"
proof -
  assume like: "like_reg x F r r'"
  then have "map_option seen (map_of (r_clients r) cid) = map_option seen (map_of (r_clients r') cid)"
    by (simp add: like_reg_def flip: map_of_seen)
  with like show "like_reg x F (do_lease cid r) (do_lease cid r')"
    by (cases "map_of (r_clients r) cid"; cases "map_of (r_clients r') cid")
      (auto simp: do_lease_def Lease_def like_reg_def seen_def lease_count_def)
  show "like_reg x F (release cid r) (release cid r')"
    using like by (simp add: release_def Let_def like_reg_def lease_count_def)
qed

lemma reap_like: "like_reg x F r r' \<Longrightarrow> like_reg x F (do_reap inUse r) (do_reap inUse r')"
proof -
  assume like: "like_reg x F r r'"
  then have "reap_keeps inUse r' = (reap_keeps inUse r :: string \<Rightarrow> 'a entry \<Rightarrow> bool)"
    by (simp add: reap_keeps_def like_reg_def lease_count_def fun_eq_iff)
  moreover have "seen_clients (filter (\<lambda>(cid, e). reap_keeps inUse r cid e) (r_clients r)) =
      seen_clients (filter (\<lambda>(cid, e). reap_keeps inUse r cid e) (r_clients r'))"
    using like by (intro seen_keys(2)) (auto simp: like_reg_def reap_keeps_def seen_def)
  ultimately show ?thesis using like by (auto simp: do_reap_def Reap_def like_reg_def hashed_def)
qed


section \<open>What an observer can tell apart\<close>

text \<open>
  A system that an observer looks at through \<open>view\<close>: two runs whose operations are pairwise the same
  to the observer, from states that look alike, look alike.
\<close>

locale observed =
  fixes step :: "'o \<Rightarrow> 's \<Rightarrow> 's"
    and view :: "'s \<Rightarrow> 'v"
    and like :: "'s \<Rightarrow> 's \<Rightarrow> bool"
    and same :: "'o \<Rightarrow> 'o \<Rightarrow> bool"
  assumes step_like: "like s s' \<Longrightarrow> same a a' \<Longrightarrow> like (step a s) (step a' s')"
    and like_view: "like s s' \<Longrightarrow> view s = view s'"
begin

lemma run_like: "list_all2 same ops ops' \<Longrightarrow> like s s' \<Longrightarrow> like (fold step ops s) (fold step ops' s')"
  by (induction arbitrary: s s' rule: list_all2_induct) (simp_all add: step_like)

lemma run_view: "list_all2 same ops ops' \<Longrightarrow> like s s' \<Longrightarrow> view (fold step ops s) = view (fold step ops' s')"
  by (rule like_view [OF run_like])

end

text \<open>Two operations on the registry that differ at most in the secrets they push and in the
  outside world they meet; the texts that are hashed are in \<open>F\<close>.\<close>

fun same_op :: "'w ext \<Rightarrow> string set \<Rightarrow> ('w ext \<times> int \<times> ClientSpec list \<times> 'w) registry_op \<Rightarrow>
    ('w ext \<times> int \<times> ClientSpec list \<times> 'w) registry_op \<Rightarrow> bool" where
  "same_op x F (Op_push (y, rv, specs, w) u) (Op_push (y', rv', specs', w') u') \<longleftrightarrow>
     y = x \<and> y' = x \<and> rv = rv' \<and> u = u' \<and> list_all2 same_spec specs specs' \<and> hash_texts specs \<union> hash_texts specs' \<subseteq> F"
| "same_op x F (Op_lease c) (Op_lease c') \<longleftrightarrow> c = c'"
| "same_op x F (Op_release c) (Op_release c') \<longleftrightarrow> c = c'"
| "same_op x F (Op_reap u) (Op_reap u') \<longleftrightarrow> u = u'"
| "same_op x F _ _ \<longleftrightarrow> False"

interpretation api: observed registry_step Config "like_reg x F" "same_op x F" for x :: "'w ext" and F
proof unfold_locales
  fix a a' :: "('w ext \<times> int \<times> ClientSpec list \<times> 'w) registry_op" and s s' :: "'w Registry"
  assume like: "like_reg x F s s'" and same: "same_op x F a a'"
  show "like_reg x F (registry_step a s) (registry_step a' s')"
  proof (cases a)
    case (Op_push p u)
    then obtain rv specs specs' w w' where a: "a = Op_push (x, rv, specs, w) u" "a' = Op_push (x, rv, specs', w') u"
      "list_all2 same_spec specs specs'" "hash_texts specs \<subseteq> F" "hash_texts specs' \<subseteq> F"
      using same by (cases p; cases a') auto
    show ?thesis using Apply_like(1) [OF like a(3-5)] by (simp add: a do_push_def) (metis prod.collapse)
  qed (use same like in \<open>cases a'; simp add: lease_like reap_like\<close>)+
qed (rule Config_like)


section \<open>Properties\<close>

text \<open>C10: Secrets never show. Take two histories of the registry that start from the same
  environment clients and do the same leases, releases, reaps and pushes, except that the pushes
  carry different secrets (each present or absent, too long or with control characters in both)
  and that the outside world answers differently. Then the configuration API lists the same clients
  at the same revision, and a further push, again up to its secrets, is answered alike: the same
  revision, the same ids applied, draining and removed, the same errors. Whether a push finds a
  client unchanged or rebuilds it because its secret was rotated cannot be told from the API, as long
  as SHA-256 does not collide on the fingerprints that were hashed.\<close>

theorem secrets_unseen:
  assumes "list_all (\<lambda>(cid, e). e_source e = SourceEnv) (r_clients r)" "inj_on (x_Sha256 x) F"
    "list_all2 (same_op x F) ops ops'" "list_all2 same_spec specs specs'" "hash_texts specs \<union> hash_texts specs' \<subseteq> F"
    "Apply x revision specs inUse (fold registry_step ops r) w = (res, r1, w1)"
    "Apply x revision specs' inUse (fold registry_step ops' r) w' = (res', r1', w1')"
  shows "Config (fold registry_step ops r) = Config (fold registry_step ops' r) \<and> Config r1 = Config r1' \<and>
    res_Revision res = res_Revision res' \<and> res_Applied res = res_Applied res' \<and> res_Errors res = res_Errors res' \<and>
    res_Draining res = res_Draining res' \<and> res_Removed res = res_Removed res'"
proof -
  have "like_reg x F r r" using assms(1,2) by (fastforce simp: like_reg_def hashed_def list_all_iff)
  note like = api.run_like [OF assms(3) this] and view = api.run_view [OF assms(3) this]
  show ?thesis
    using view Config_like [OF Apply_like(1) [OF like assms(4) _ _ assms(6,7)]] Apply_like(2-6) [OF like assms(4) _ _ assms(6,7)]
      assms(5) by simp
qed

theorem secrets_unseen_witness:
  "Config (do_push (demo_ext, 2, [demo_spec], ()) (\<lambda>_. False)
       (fold registry_step [Op_push (demo_ext, 1, [demo_spec], ()) (\<lambda>_. False)] empty_Registry)) =
   Config (do_push (demo_ext, 2, [demo_spec\<lparr>sp_Secret := ''rotated''\<rparr>], ()) (\<lambda>_. False)
       (fold registry_step [Op_push (demo_ext, 1, [demo_spec], ()) (\<lambda>_. False)] empty_Registry)) \<and>
   sp_Secret demo_spec \<noteq> ''rotated''"
proof -
  let ?s = "demo_spec\<lparr>sp_Secret := ''rotated''\<rparr>" and ?ops = "[Op_push (demo_ext, 1, [demo_spec], ()) (\<lambda>_. False)]"
  let ?F = "hash_texts [demo_spec] \<union> hash_texts [?s]"
  have inj: "inj_on (x_Sha256 demo_ext) ?F" by (simp add: demo_ext_def)
  have same: "list_all2 same_spec [demo_spec] [?s]"
    by (simp add: same_spec_def secret_class_def demo_spec_def) code_simp
  have ops: "list_all2 (same_op demo_ext ?F) ?ops ?ops" by simp
  obtain res r1 w1 where a: "Apply demo_ext 2 [demo_spec] (\<lambda>_. False) (fold registry_step ?ops empty_Registry) () = (res, r1, w1)"
    by (rule prod_cases3)
  obtain res' r1' w1' where a': "Apply demo_ext 2 [?s] (\<lambda>_. False) (fold registry_step ?ops empty_Registry) () = (res', r1', w1')"
    by (rule prod_cases3)
  have "Config r1 = Config r1'"
    using secrets_unseen [OF _ inj ops same _ a a'] by (simp add: empty_Registry_def)
  then show ?thesis using a a' by (simp add: do_push_def demo_spec_def)
qed

end
