(* ===== verification/Wire.thy ===== *)
theory Wire
  imports Tracker
begin

text \<open>
  The value of a Kafka message as its consumer reads it: \<open>json.Unmarshal\<close> into the struct of the
  event (internal/events/events.go), the counterpart of what \<open>emit\<close> marshals. An event whose
  numbers are within their Go types is read back as it was, but for bytes that are not UTF-8.
\<close>


section \<open>Reading an event\<close>

text \<open>A pointer field: \<open>null\<close> is nil. A slice field: \<open>null\<close> is the nil slice.\<close>

definition ptr_field ::
  "(json \<Rightarrow> int \<Rightarrow> int option) \<Rightarrow> string \<Rightarrow> ((int option \<Rightarrow> int option) \<Rightarrow> 'r \<Rightarrow> 'r) \<Rightarrow> 'r field" where
  "ptr_field dec name upd =
     (name, \<lambda>v r. if v = JNull then Some (upd (\<lambda>_. None) r) else map_option (\<lambda>n. upd (\<lambda>_. Some n) r) (dec v 0))"

definition slice_field ::
  "string \<Rightarrow> ((string list option \<Rightarrow> string list option) \<Rightarrow> 'r \<Rightarrow> 'r) \<Rightarrow> 'r field" where
  "slice_field name upd =
     (name, \<lambda>v r. if v = JNull then Some (upd (\<lambda>_. None) r)
            else map_option (\<lambda>ss. upd (\<lambda>_. Some ss) r) (dec_list (\<lambda>v. dec_string v '''') v))"

definition Started_fields :: "Started field list" where
  "Started_fields =
     [string_field ''client_id'' sr_ClientID sr_ClientID_update, string_field ''adapter'' sr_Adapter sr_Adapter_update,
      string_field ''client_type'' sr_ClientType sr_ClientType_update,
      string_field ''wanted_item_id'' sr_WantedItemID sr_WantedItemID_update, string_field ''title'' sr_Title sr_Title_update,
      ptr_field dec_int64 ''size_bytes'' sr_SizeBytes_update, int64_field ''started_at'' sr_StartedAt sr_StartedAt_update]"

definition Progress_fields :: "Progress field list" where
  "Progress_fields =
     [string_field ''client_id'' pr_ClientID pr_ClientID_update, string_field ''adapter'' pr_Adapter pr_Adapter_update,
      string_field ''client_type'' pr_ClientType pr_ClientType_update,
      string_field ''wanted_item_id'' pr_WantedItemID pr_WantedItemID_update, string_field ''title'' pr_Title pr_Title_update,
      string_field ''state'' pr_State pr_State_update, string_field ''native_state'' pr_NativeState pr_NativeState_update,
      float64_field ''progress_pct'' pr_ProgressPct pr_ProgressPct_update,
      int64_field ''downloaded_bytes'' pr_DownloadedBytes pr_DownloadedBytes_update,
      ptr_field dec_int64 ''size_bytes'' pr_SizeBytes_update, int64_field ''speed_bps'' pr_SpeedBps pr_SpeedBps_update,
      ptr_field dec_int32 ''eta_sec'' pr_EtaSec_update, ptr_field dec_int32 ''seeders'' pr_Seeders_update,
      ptr_field dec_int32 ''leechers'' pr_Leechers_update, ptr_field dec_int32 ''health'' pr_Health_update,
      int64_field ''emitted_at'' pr_EmittedAt pr_EmittedAt_update]"

definition Completed_fields :: "Completed field list" where
  "Completed_fields =
     [string_field ''client_id'' co_ClientID co_ClientID_update, string_field ''adapter'' co_Adapter co_Adapter_update,
      string_field ''client_type'' co_ClientType co_ClientType_update,
      string_field ''wanted_item_id'' co_WantedItemID co_WantedItemID_update, slice_field ''files'' co_Files_update,
      int64_field ''size_bytes'' co_SizeBytes co_SizeBytes_update, int64_field ''completed_at'' co_CompletedAt co_CompletedAt_update]"

definition Failed_fields :: "Failed field list" where
  "Failed_fields =
     [string_field ''client_id'' fa_ClientID fa_ClientID_update, string_field ''adapter'' fa_Adapter fa_Adapter_update,
      string_field ''client_type'' fa_ClientType fa_ClientType_update,
      string_field ''wanted_item_id'' fa_WantedItemID fa_WantedItemID_update, string_field ''title'' fa_Title fa_Title_update,
      string_field ''error'' fa_Error fa_Error_update, string_field ''error_code'' fa_ErrorCode fa_ErrorCode_update,
      bool_field ''retriable'' fa_Retriable fa_Retriable_update, int64_field ''failed_at'' fa_FailedAt fa_FailedAt_update]"

definition zero_Started :: Started where
  "zero_Started = \<lparr>sr_ClientID = '''', sr_Adapter = '''', sr_ClientType = '''', sr_WantedItemID = '''', sr_Title = '''',
     sr_SizeBytes = None, sr_StartedAt = 0\<rparr>"

definition zero_Progress :: Progress where
  "zero_Progress = \<lparr>pr_ClientID = '''', pr_Adapter = '''', pr_ClientType = '''', pr_WantedItemID = '''', pr_Title = '''',
     pr_State = '''', pr_NativeState = '''', pr_ProgressPct = 0, pr_DownloadedBytes = 0, pr_SizeBytes = None, pr_SpeedBps = 0,
     pr_EtaSec = None, pr_Seeders = None, pr_Leechers = None, pr_Health = None, pr_EmittedAt = 0\<rparr>"

definition zero_Completed :: Completed where
  "zero_Completed = \<lparr>co_ClientID = '''', co_Adapter = '''', co_ClientType = '''', co_WantedItemID = '''', co_Files = None,
     co_SizeBytes = 0, co_CompletedAt = 0\<rparr>"

definition zero_Failed :: Failed where
  "zero_Failed = \<lparr>fa_ClientID = '''', fa_Adapter = '''', fa_ClientType = '''', fa_WantedItemID = '''', fa_Title = '''',
     fa_Error = '''', fa_ErrorCode = '''', fa_Retriable = False, fa_FailedAt = 0\<rparr>"

text \<open>A consumer of the topic of a kind: \<open>json.Unmarshal\<close> of the value into the struct of the kind.\<close>

definition dec_event :: "string \<Rightarrow> bytes \<Rightarrow> event option" where
  "dec_event kind b =
     (case scan_json b of
        Scanned v rest \<Rightarrow>
          if skip_ws rest \<noteq> [] then None
          else if kind = ''started'' then map_option EvStarted (dec_struct Started_fields zero_Started v)
          else if kind = ''progress'' then map_option EvProgress (dec_struct Progress_fields zero_Progress v)
          else if kind = ''completed'' then map_option EvCompleted (dec_struct Completed_fields zero_Completed v)
          else if kind = ''failed'' then map_option EvFailed (dec_struct Failed_fields zero_Failed v)
          else None
      | _ \<Rightarrow> None)"

text \<open>The event with every string in UTF-8.\<close>

fun clean_event :: "event \<Rightarrow> event" where
  "clean_event (EvStarted e) = EvStarted (e\<lparr>sr_ClientID := utf8 (sr_ClientID e), sr_Adapter := utf8 (sr_Adapter e),
     sr_ClientType := utf8 (sr_ClientType e), sr_WantedItemID := utf8 (sr_WantedItemID e), sr_Title := utf8 (sr_Title e)\<rparr>)"
| "clean_event (EvProgress e) = EvProgress (e\<lparr>pr_ClientID := utf8 (pr_ClientID e), pr_Adapter := utf8 (pr_Adapter e),
     pr_ClientType := utf8 (pr_ClientType e), pr_WantedItemID := utf8 (pr_WantedItemID e), pr_Title := utf8 (pr_Title e),
     pr_State := utf8 (pr_State e), pr_NativeState := utf8 (pr_NativeState e)\<rparr>)"
| "clean_event (EvCompleted e) = EvCompleted (e\<lparr>co_ClientID := utf8 (co_ClientID e), co_Adapter := utf8 (co_Adapter e),
     co_ClientType := utf8 (co_ClientType e), co_WantedItemID := utf8 (co_WantedItemID e),
     co_Files := map_option (map utf8) (co_Files e)\<rparr>)"
| "clean_event (EvFailed e) = EvFailed (e\<lparr>fa_ClientID := utf8 (fa_ClientID e), fa_Adapter := utf8 (fa_Adapter e),
     fa_ClientType := utf8 (fa_ClientType e), fa_WantedItemID := utf8 (fa_WantedItemID e), fa_Title := utf8 (fa_Title e),
     fa_Error := utf8 (fa_Error e), fa_ErrorCode := utf8 (fa_ErrorCode e)\<rparr>)"

text \<open>The values of an event are values of its Go types.\<close>

definition float64 :: "rat \<Rightarrow> bool" where
  "float64 x \<longleftrightarrow> fl x = x \<and> (x \<noteq> 0 \<longrightarrow> 2 powi (- 1074) \<le> \<bar>x\<bar>) \<and> \<bar>x\<bar> < 2 powi 1024"

fun typed_event :: "event \<Rightarrow> bool" where
  "typed_event (EvStarted e) \<longleftrightarrow> pred_option in64 (sr_SizeBytes e) \<and> in64 (sr_StartedAt e)"
| "typed_event (EvProgress e) \<longleftrightarrow> float64 (pr_ProgressPct e) \<and> in64 (pr_DownloadedBytes e) \<and> pred_option in64 (pr_SizeBytes e) \<and>
     in64 (pr_SpeedBps e) \<and> pred_option in32 (pr_EtaSec e) \<and> pred_option in32 (pr_Seeders e) \<and> pred_option in32 (pr_Leechers e) \<and>
     pred_option in32 (pr_Health e) \<and> in64 (pr_EmittedAt e)"
| "typed_event (EvCompleted e) \<longleftrightarrow> in64 (co_SizeBytes e) \<and> in64 (co_CompletedAt e)"
| "typed_event (EvFailed e) \<longleftrightarrow> in64 (fa_FailedAt e)"


section \<open>Lemmas\<close>

lemma in32_in64: "in32 n \<Longrightarrow> in64 n"
  by (simp add: in32_def in64_def min_int64_def max_int64_def)

lemma dec_JInt [simp]:
  "in64 n \<Longrightarrow> dec_int64 (JInt n) y = Some n" "in32 n \<Longrightarrow> dec_int32 (JInt n) y = Some n" "JInt n \<noteq> JNull"
  by (simp_all add: JInt_def dec_int64_def dec_int32_def atoi_itoa in32_in64)

lemma dec_json_float: "float64 x \<Longrightarrow> dec_float64 (json_float x) y = Some x"
  by (simp add: float64_def json_float_def fmt_float64_reads)

lemmas event_json_defs = Started_json_def Progress_json_def Completed_json_def Failed_json_def

lemma cleaned_parts [simp]:
  "cleaned (JInt n) = JInt n" "cleaned (json_ptr p) = json_ptr p" "cleaned (json_float x) = json_float x"
  "cleaned (json_slice ss) = json_slice (map_option (map utf8) ss)"
  by (simp_all add: JInt_def json_ptr_def json_float_def json_slice_def split: option.split)

lemma cleaned_omit:
  "utf8 name = name \<Longrightarrow> map (\<lambda>m. (utf8 (fst m), cleaned (snd m))) (omit_empty name s) = omit_empty name (utf8 s)"
  "utf8 name = name \<Longrightarrow> map (\<lambda>m. (utf8 (fst m), cleaned (snd m))) (omit_nil name p) = omit_nil name p"
  by (simp_all add: omit_empty_def omit_nil_def split: option.split)

text \<open>Reading what was written gives the JSON of the event with its strings in UTF-8.\<close>

lemma cleaned_event: "cleaned (event_json e) = event_json (clean_event e)"
  by (cases e) (simp_all add: event_json_defs cleaned_omit valid_ascii)

lemma numbers_parts [simp]:
  "numbers_ok (JInt n)" "numbers_ok (json_ptr p)" "numbers_ok (json_slice ss)"
  "list_all (\<lambda>m. numbers_ok (snd m)) (omit_empty name s)" "list_all (\<lambda>m. numbers_ok (snd m)) (omit_nil name p)"
  by (auto simp: JInt_def json_ptr_def json_slice_def omit_empty_def omit_nil_def number_itoa list_all_iff split: option.split)

lemma numbers_event: "typed_event e \<Longrightarrow> numbers_ok (event_json e)"
  using fmt_float64_reads(1) by (cases e) (simp_all add: event_json_defs json_float_def float64_def)

text \<open>The members of an event are at most one level deep.\<close>

lemma depth_strings: "json_depth (JArr (map JStr ss)) \<le> 1"
  using fold_max_le [of "map json_depth (map JStr ss)" 0 0] by simp

lemma depth_parts:
  "json_depth (JInt n) = 0" "json_depth (json_ptr p) = 0" "json_depth (json_float x) = 0" "json_depth (json_slice ss) \<le> Suc 0"
  "(k, v) \<in> set (omit_empty name s) \<Longrightarrow> json_depth v = 0" "(k, v) \<in> set (omit_nil name p) \<Longrightarrow> json_depth v = 0"
  using depth_strings by (auto simp: JInt_def json_ptr_def json_float_def json_slice_def omit_empty_def omit_nil_def
      simp del: json_depth.simps(1) split: option.splits if_splits)

lemma depth_obj: "\<forall>m \<in> set ms. json_depth (snd m) \<le> 1 \<Longrightarrow> json_depth (JObj ms) \<le> 2"
  using fold_max_le [of "map (\<lambda>m. json_depth (snd m)) ms" 1 0] by simp

lemma depth_event: "json_depth (event_json e) \<le> 2"
  by (cases e; simp only: event_json.simps event_json_defs; intro depth_obj) (auto dest: depth_parts(5,6) simp: depth_parts(1-4))

text \<open>Decoding, member by member.\<close>

lemma fst_fields:
  "fst (string_field k get1 upd1) = k" "fst (int64_field k get2 upd2) = k" "fst (bool_field k get3 upd3) = k"
  "fst (float64_field k get4 upd4) = k" "fst (ptr_field dec k upd5) = k" "fst (slice_field k upd6) = k"
  by (simp_all add: string_field_def int64_field_def bool_field_def float64_field_def ptr_field_def slice_field_def)

lemma map_of_field: "map_of (f # fs) k = (if k = fst f then Some (snd f) else map_of fs k)"
  by (cases f) simp

lemma dec_all_strings: "dec_all (\<lambda>v. dec_string v c) (map JStr ss) = Some ss"
  by (induction ss) (simp_all add: dec_string_def)

lemma snd_fields:
  "snd (string_field k get1 upd1) (JStr s) r = Some (upd1 (\<lambda>_. s) r)"
  "in64 n \<Longrightarrow> snd (int64_field k get2 upd2) (JInt n) r = Some (upd2 (\<lambda>_. n) r)"
  "snd (bool_field k get3 upd3) (JBool b) r = Some (upd3 (\<lambda>_. b) r)"
  "float64 x \<Longrightarrow> snd (float64_field k get4 upd4) (json_float x) r = Some (upd4 (\<lambda>_. x) r)"
  "pred_option in64 p \<Longrightarrow> snd (ptr_field dec_int64 k upd5) (json_ptr p) r = Some (upd5 (\<lambda>_. p) r)"
  "pred_option in32 p \<Longrightarrow> snd (ptr_field dec_int32 k upd5) (json_ptr p) r = Some (upd5 (\<lambda>_. p) r)"
  "snd (slice_field k upd6) (json_slice ss) r = Some (upd6 (\<lambda>_. ss) r)"
  by (simp_all add: string_field_def int64_field_def bool_field_def float64_field_def dec_string_def dec_bool_def dec_json_float)
    (cases p; cases ss; simp add: ptr_field_def slice_field_def json_ptr_def json_slice_def dec_list_def dec_all_strings)+

lemma dec_member:
  "map_of fs k = Some f \<Longrightarrow> f v r = Some r' \<Longrightarrow> dec_members fs ((k, v) # ms) r = dec_members fs ms r'"
  by (simp add: find_field_def)

lemma dec_omit_empty:
  assumes "map_of fs k = Some (snd (string_field k get upd))" "upd (\<lambda>_. []) r = r"
  shows "dec_members fs (omit_empty k s @ ms) r = dec_members fs ms (upd (\<lambda>_. s) r)"
  using assms by (auto simp: omit_empty_def find_field_def snd_fields)

lemma dec_omit_nil:
  assumes "map_of fs k = Some (snd (ptr_field dec_int32 k upd))" "upd (\<lambda>_. None) r = r" "pred_option in32 p"
  shows "dec_members fs (omit_nil k p @ ms) r = dec_members fs ms (upd (\<lambda>_. p) r)"
  using assms by (cases p) (auto simp: omit_nil_def find_field_def ptr_field_def)

lemmas dec_event_simps = dec_struct_def fst_fields map_of_field snd_fields dec_member dec_omit_empty dec_omit_nil

lemma dec_Started: "typed_event (EvStarted e) \<Longrightarrow> dec_struct Started_fields zero_Started (Started_json e) = Some e"
  by (simp add: dec_event_simps Started_json_def Started_fields_def zero_Started_def del: dec_members.simps(2))

lemma dec_Completed: "typed_event (EvCompleted e) \<Longrightarrow> dec_struct Completed_fields zero_Completed (Completed_json e) = Some e"
  by (simp add: dec_event_simps Completed_json_def Completed_fields_def zero_Completed_def del: dec_members.simps(2))

lemma dec_Failed: "typed_event (EvFailed e) \<Longrightarrow> dec_struct Failed_fields zero_Failed (Failed_json e) = Some e"
  by (simp add: dec_event_simps Failed_json_def Failed_fields_def zero_Failed_def del: dec_members.simps(2))

lemma dec_Progress: "typed_event (EvProgress e) \<Longrightarrow> dec_struct Progress_fields zero_Progress (Progress_json e) = Some e"
  by (simp add: dec_event_simps Progress_json_def Progress_fields_def zero_Progress_def del: dec_members.simps(2))


lemma typed_clean [simp]: "typed_event (clean_event e) = typed_event e"
  by (cases e) simp_all

lemma kind_clean [simp]: "kind_of (clean_event e) = kind_of e"
  by (cases e) simp_all

lemma dec_event_marshal:
  assumes "typed_event e"
  shows "dec_event (kind_of e) (marshal (event_json e)) = Some (clean_event e)"
proof -
  have "int (json_depth (event_json e)) \<le> maxNestingDepth" using depth_event [of e] by (simp add: maxNestingDepth_def)
  from scan_marshal [OF numbers_event [OF assms] this]
  have "scan_json (marshal (event_json e)) = Scanned (event_json (clean_event e)) []" by (simp add: cleaned_event)
  moreover have "typed_event (clean_event e)" using assms by simp
  ultimately show ?thesis
    by (cases e) (simp_all add: dec_event_def skip_ws_def dec_Started dec_Progress dec_Completed dec_Failed)
qed


section \<open>The events of the gateway\<close>

text \<open>A snapshot holds values of its Go types.\<close>

definition typed_view :: "JobView \<Rightarrow> bool" where
  "typed_view v \<longleftrightarrow> in64 (jv_BytesDone v) \<and> in64 (jv_BytesTotal v) \<and> in64 (jv_SpeedBps v) \<and> in64 (jv_EtaSec v) \<and>
     in32 (jv_Seeders v) \<and> in32 (jv_Leechers v) \<and> in32 (jv_Health v)"

lemma int_range: "in64 n \<Longrightarrow> n \<noteq> 0 \<Longrightarrow> 2 powi 0 \<le> \<bar>of_int n :: rat\<bar> \<and> \<bar>of_int n :: rat\<bar> \<le> 2 powi 63"
proof -
  assume n: "in64 n" "n \<noteq> 0"
  then have "\<bar>n\<bar> \<le> 2 ^ 63" "1 \<le> \<bar>n\<bar>" by (auto simp: in64_def min_int64_def max_int64_def)
  then have "of_int \<bar>n\<bar> \<le> (of_int (2 ^ 63) :: rat)" "(of_int 1 :: rat) \<le> of_int \<bar>n\<bar>" by (simp_all only: of_int_le_iff)
  then show ?thesis by (simp add: power_int_def)
qed

lemma pct_float64:
  assumes "in64 d" "in64 t"
  shows "float64 (pct d t)"
proof (cases "t \<le> 0 \<or> d = 0")
  case True
  have "(0 :: rat) < 2 powi 1024" by simp
  then show ?thesis using True by (auto simp: pct_def float64_def simp del: power_int_numeral)
next
  case False
  let ?q = "fl (of_int d) / fl (of_int t) :: rat"
  have d: "2 powi 0 \<le> \<bar>fl (of_int d)\<bar>" "\<bar>fl (of_int d)\<bar> \<le> 2 powi 63" using fl_range [of 0 "of_int d" 63] int_range [OF assms(1)] False by auto
  have t: "2 powi 0 \<le> \<bar>fl (of_int t)\<bar>" "\<bar>fl (of_int t)\<bar> \<le> 2 powi 63" using fl_range [of 0 "of_int t" 63] int_range [OF assms(2)] False by auto
  have "2 powi 0 / 2 powi 63 \<le> \<bar>fl (of_int d)\<bar> / \<bar>fl (of_int t)\<bar>" "\<bar>fl (of_int d)\<bar> / \<bar>fl (of_int t)\<bar> \<le> 2 powi 63 / 2 powi 0"
    using d t by (intro frac_le; simp)+
  then have "2 powi (- 63) \<le> \<bar>?q\<bar>" "\<bar>?q\<bar> \<le> 2 powi 63" by (simp_all add: power_int_minus field_simps)
  note q = fl_range [OF this]
  have "2 powi (- 63) \<le> \<bar>fl ?q * 100\<bar>" "\<bar>fl ?q * 100\<bar> \<le> 2 powi 70" using q by (simp_all add: abs_mult power_int_def)
  note r = fl_range [OF this]
  have "(2 :: rat) powi (- 1074) \<le> 2 powi (- 63)" "(2 :: rat) powi 70 < 2 powi 1024"
    by (simp_all only: powi_less_iff power_int_increasing)
  then have "2 powi (- 1074) \<le> \<bar>fl (fl ?q * 100)\<bar>" "\<bar>fl (fl ?q * 100)\<bar> < 2 powi 1024" using r by linarith+
  then show ?thesis using False by (simp add: pct_def float64_def fl_idem)
qed
end
