(* ===== verification/Delivery.thy ===== *)
theory Delivery
  imports Wire System
begin

text \<open>
  What reaches the consumers of the events. Every adapter the gateway builds
  answers with snapshots whose numbers are within their Go types, whatever its client sends
  (nzbget.go, qbittorrent.go, odownloader.go); so every event of a reachable state of the
  process (cmd/server/main.go) is, and is read back from its message.
\<close>


declare map_of_eq_Some_iff [simp del] Some_eq_map_of_iff [simp del]

section \<open>What holds of every client\<close>

text \<open>Something that holds of every adapter the gateway builds, for a pushed client or one of the
  environment, holds of every registered client in every state the process can reach.\<close>

locale adapter_law =
  fixes P :: "'w Adapter \<Rightarrow> bool" and x :: "'w ext"
  assumes nzbget: "P (nzbget_adapter x n)"
    and qbittorrent: "P (qbittorrent_adapter x q)"
    and odownloader: "P (odownloader_adapter x od)"
begin

definition all_clients :: "'w Registry \<Rightarrow> bool" where
  "all_clients r \<longleftrightarrow> (\<forall>cid e. map_of (r_clients r) cid = Some e \<longrightarrow> P (e_adapter e))"

lemma built: "P (fst (buildClient x s w))"
  by (auto simp: buildClient_def Let_def nzbget qbittorrent odownloader split: prod.split)

lemma all_AddEnv: "P ad \<Longrightarrow> all_clients r \<Longrightarrow> all_clients (AddEnv spec (Some ad) r)"
  by (auto simp: all_clients_def AddEnv_def Let_def update_conv split: if_splits)

lemma all_environment: "all_clients (fst (registerEnvClients x env (NewRegistry []) w))"
proof -
  have "all_clients (NewRegistry [])" by (simp add: all_clients_def NewRegistry_def empty_Registry_def)
  then show ?thesis
    by (auto simp: registerEnvClients_def env_qbittorrent_def env_odownloader_def env_nzbget_def Let_def
        intro!: all_AddEnv nzbget qbittorrent odownloader split: prod.splits)
qed

lemma all_push:
  assumes "reg_wf r" "all_clients r" "Apply x rv specs inUse r w = (res, r', w')"
  shows "all_clients r'"
  unfolding all_clients_def
proof (intro allI impI)
  fix cid e
  assume e: "map_of (r_clients r') cid = Some e"
  have r': "r' = fst (snd (Apply x rv specs inUse r w))" using assms(3) by simp
  show "P (e_adapter e)"
  proof (cases "accepted r specs specs cid")
    case True
    then obtain raw s where s: "raw \<in> set specs" "verdict r specs raw = Inr s" "sp_ID s = cid"
      by (rule acceptedE)
    from Apply_named [OF assms(1) s(1,2), of x rv inUse w]
    show ?thesis using e s(3) assms(2) built
      by (auto simp: applied_entry_def r' all_clients_def new_entry_def split: if_splits)
  next
    case False
    then show ?thesis using Apply_not_named [OF assms(1) False, of x rv inUse w] e assms(2)
      by (auto simp: r' all_clients_def swept_def split: option.splits if_splits)
  qed
qed

lemma all_reap:
  assumes "reg_wf r" "all_clients r" "Reap inUse r = (cids, r')"
  shows "all_clients r'"
  using assms Reap_clients [OF assms(1), of inUse] by (auto simp: all_clients_def split: option.splits if_splits)

lemma all_same: "all_clients r \<Longrightarrow> r_clients r' = r_clients r \<Longrightarrow> all_clients r'"
  by (simp add: all_clients_def)

lemma all_step:
  assumes "sstep x s s'" "sys_ok s" "all_clients (gw_reg (sy_gw s))"
  shows "all_clients (gw_reg (sy_gw s'))"
  using assms(1)
proof cases
  case run
  then show ?thesis using all_same [OF assms(3)] by cases (auto dest: task_step_clients(1))
next
  case (pushed revision specs ans res reg w)
  then show ?thesis using all_push [OF _ assms(3)] assms(2) by (auto simp: sys_ok_def)
next
  case (reaped ans cids reg)
  then show ?thesis using all_reap [OF _ assms(3)] assms(2) by (auto simp: sys_ok_def)
qed (use assms(3) in auto)

lemma all_boot:
  assumes "boot x t newSyncProducer parse_duration env w = (Inr p, w')"
  shows "all_clients (gw_reg (ps_gateway p))"
  using all_same [OF all_environment] boot_serves [OF assms] by blast

end


section \<open>Typed snapshots\<close>

text \<open>What decoding keeps of a struct.\<close>

locale decoded_struct =
  fixes fs :: "'r field list" and zero :: 'r and Q :: "'r \<Rightarrow> bool"
  assumes zero: "Q zero"
    and kept: "(k, f) \<in> set fs \<Longrightarrow> Q r \<Longrightarrow> f v r = Some r' \<Longrightarrow> Q r'"
begin

lemma find_field_kept: "find_field fs k = Some f \<Longrightarrow> Q r \<Longrightarrow> f v r = Some r' \<Longrightarrow> Q r'"
  by (auto simp: find_field_def dest!: map_of_SomeD intro: kept split: option.splits)

lemma members_kept: "dec_members fs ms r = Some r' \<Longrightarrow> Q r \<Longrightarrow> Q r'"
proof (induction ms arbitrary: r)
  case (Cons m ms)
  then show ?case by (cases m) (auto split: option.splits intro: find_field_kept)
qed simp

lemma struct_kept: "dec_struct fs zero v = Some r \<Longrightarrow> Q r"
  using zero by (auto simp: dec_struct_def split: json.splits dest: members_kept)

lemma list_kept: "dec_list (dec_struct fs zero) v = Some rs \<Longrightarrow> r \<in> set rs \<Longrightarrow> Q r"
proof -
  have "dec_all (dec_struct fs zero) vs = Some rs \<Longrightarrow> r \<in> set rs \<Longrightarrow> Q r" for vs
    by (induction vs arbitrary: rs) (auto split: option.splits dest: struct_kept)
  then show "dec_list (dec_struct fs zero) v = Some rs \<Longrightarrow> r \<in> set rs \<Longrightarrow> Q r"
    by (auto simp: dec_list_def split: json.splits)
qed

end

lemma atoi_in64: "atoi s = (n, ok) \<Longrightarrow> in64 n"
  by (auto simp: atoi_def Let_def in64_def min_int64_def max_int64_def split: if_splits)

lemma dec_int_typed:
  "dec_int64 v y = Some n \<Longrightarrow> in64 y \<Longrightarrow> in64 n" "dec_int32 v y = Some n \<Longrightarrow> in32 y \<Longrightarrow> in32 n"
  by (auto simp: dec_int64_def dec_int32_def split: json.splits prod.splits option.splits if_splits dest: atoi_in64)

lemmas typed_field_defs = string_field_def int64_field_def int32_field_def bool_field_def float64_field_def

definition typed_group :: "nzbGroup \<Rightarrow> bool" where
  "typed_group g \<longleftrightarrow> in64 (g_DownloadRate g) \<and> in32 (g_Health g)"

lemma in64_0 [simp]: "in64 0" "in32 0" "in64 (- 1)" "in32 (- 1)" "in64 min_int64"
  by (simp_all add: in64_def in32_def min_int64_def max_int64_def)

interpretation group: decoded_struct nzbGroup_fields zero_nzbGroup typed_group
  by unfold_locales
    (auto simp: nzbGroup_fields_def zero_nzbGroup_def typed_group_def typed_field_defs dest: dec_int_typed)

definition typed_torrent :: "qbTorrent \<Rightarrow> bool" where
  "typed_torrent t \<longleftrightarrow> in64 (t_DlSpeed t) \<and> in64 (t_Eta t) \<and> in64 (t_Size t) \<and> in64 (t_Completed t) \<and>
     in32 (t_NumSeeds t) \<and> in32 (t_NumLeechs t)"

interpretation torrent: decoded_struct qbTorrent_fields zero_qbTorrent typed_torrent
  by unfold_locales
    (auto simp: qbTorrent_fields_def zero_qbTorrent_def typed_torrent_def typed_field_defs dest: dec_int_typed)

text \<open>The three folds.\<close>

lemma in64_bits: "in64 n \<longleftrightarrow> signed_take_bit 63 n = n"
  by (auto simp: in64_def min_int64_def max_int64_def signed_take_bit_int_eq_self_iff)

lemma in64_or: "in64 m \<Longrightarrow> in64 n \<Longrightarrow> in64 (m OR n)"
proof -
  assume "in64 m" "in64 n"
  then have "signed_take_bit 63 m = m" "signed_take_bit 63 n = n" by (simp_all only: in64_bits)
  moreover have "signed_take_bit 63 (m OR n) = signed_take_bit 63 m OR signed_take_bit 63 n"
    by (rule bit_eqI) (simp only: bit_or_iff bit_signed_take_bit_iff, blast)
  ultimately show ?thesis by (simp only: in64_bits)
qed

lemma exact64_in64: "in64 (exact64 lo hi mb)"
proof -
  define k where "k = take_bit 32 lo"
  have "lo AND 0xFFFFFFFF = k" by (simp add: k_def take_bit_eq_mask mask_numeral)
  moreover have "k < 2 ^ 32" "0 \<le> k" unfolding k_def by (rule take_bit_int_less_exp) (rule take_bit_nonnegative)
  ultimately have "in64 (lo AND 0xFFFFFFFF)" unfolding in64_def min_int64_def max_int64_def by auto
  then show ?thesis by (simp add: exact64_def Let_def in64_or)
qed

lemma abs_in64: "in64 a \<Longrightarrow> \<bar>b\<bar> \<le> \<bar>a\<bar> \<Longrightarrow> sgn b = sgn a \<or> b = 0 \<Longrightarrow> in64 b"
  by (auto simp: in64_def min_int64_def max_int64_def sgn_if split: if_splits)

lemma go_quot_in64: "in64 a \<Longrightarrow> 0 < b \<Longrightarrow> in64 (go_quot a b)"
proof (cases "a = 0")
  case False
  assume a: "in64 a" "0 < b"
  have "\<bar>a\<bar> div b \<le> \<bar>a\<bar>" using False by (intro int_div_le_self) simp
  moreover have "0 \<le> \<bar>a\<bar> div b" using a(2) by (simp add: pos_imp_zdiv_nonneg_iff)
  ultimately show ?thesis using a by (intro abs_in64 [OF a(1)]) (auto simp: go_quot_def abs_mult sgn_mult)
qed (simp add: go_quot_def)

lemma typed_not_found: "typed_view not_found_view" "typed_view NewJobView"
  by (simp_all add: typed_view_def not_found_view_def NewJobView_def)

lemma typed_foldNZBGroup: "typed_group g \<Longrightarrow> typed_view (foldNZBGroup g)"
  by (simp add: typed_view_def typed_group_def foldNZBGroup_def Let_def exact64_in64 go_quot_in64 NewJobView_def)

lemma typed_foldNZBHistory: "typed_view (foldNZBHistory h)"
  by (simp add: typed_view_def foldNZBHistory_def Let_def NewJobView_def)

lemma typed_foldQB: "typed_torrent t \<Longrightarrow> typed_view (foldQB t)"
  by (simp add: typed_view_def typed_torrent_def foldQB_def Let_def NewJobView_def)

lemma typed_odl_step: "typed_view (oa_view a) \<Longrightarrow> typed_view (oa_view (odl_step a l))"
  by (simp add: typed_view_def odl_step_def Let_def)

lemma typed_foldODL: "typed_view (foldODL links)"
proof -
  have "typed_view (oa_view a) \<Longrightarrow> typed_view (oa_view (foldl odl_step a links))" for a
    by (induction links arbitrary: a) (simp_all add: typed_odl_step)
  from this [of odl_start] have "typed_view (oa_view (foldl odl_step odl_start links))"
    by (simp add: odl_start_def typed_not_found)
  then show ?thesis by (auto simp: foldODL_def Let_def typed_not_found) (auto simp: typed_view_def)
qed

definition typed_adapter :: "'w Adapter \<Rightarrow> bool" where
  "typed_adapter ad \<longleftrightarrow> (\<forall>jid w v w'. ad_Describe ad jid w = (Inr v, w') \<longrightarrow> typed_view v)"

lemma typed_nzbget: "typed_adapter (nzbget_adapter x n)"
proof -
  have "typed_group g" if "NZBGet_groups x n w = (Inr gs, w')" "g \<in> set gs" for gs g w w'
    using that group.list_kept
    by (auto simp: NZBGet_groups_def NZBGet_list_def unmarshal_raw_def split: prod.splits sum.splits option.splits)
  then have "typed_view v" if "NZBGet_Describe x n jid w = (Inr v, w')" for jid w v w'
    using that
    by (auto simp: NZBGet_Describe_def Let_def find_Some_iff typed_not_found typed_foldNZBHistory intro!: typed_foldNZBGroup
        split: prod.splits sum.splits option.splits)
  then show ?thesis by (simp add: typed_adapter_def nzbget_adapter_def)
qed

lemma typed_qbittorrent: "typed_adapter (qbittorrent_adapter x q)"
proof -
  have "typed_torrent t" if "QB_info x q query wrap w = (Inr ts, w')" "t \<in> set ts" for query wrap ts t w w'
    using that torrent.list_kept
    by (auto simp: QB_info_def split: prod.splits sum.splits if_splits dest!: decodeCapped_prefix)
  then have "typed_torrent t" if "QB_byTag x q tag w = (Inr (Some t), w')" for tag t w w'
    using that by (fastforce simp: QB_byTag_def split: prod.splits sum.splits list.splits)
  then have "typed_view v" if "QB_Describe x q jid w = (Inr v, w')" for jid w v w'
    using that
    by (auto simp: QB_Describe_def typed_not_found intro!: typed_foldQB split: prod.splits sum.splits option.splits)
  then show ?thesis by (simp add: typed_adapter_def qbittorrent_adapter_def)
qed

lemma typed_odownloader: "typed_adapter (odownloader_adapter x od)"
  by (auto simp: typed_adapter_def odownloader_adapter_def OD_Describe_def typed_foldODL split: prod.splits sum.splits if_splits)

interpretation typed: adapter_law typed_adapter x for x :: "'w ext"
  by unfold_locales (rule typed_nzbget typed_qbittorrent typed_odownloader)+


section \<open>Typed events\<close>

text \<open>What a goroutine carries, and the last snapshot of every job, is typed.\<close>

fun typed_task :: "'w task \<Rightarrow> bool" where
  "typed_task (AddAccepted n cid job ev) = (typed_event ev \<and> typed_view (tr_view job))"
| "typed_task (AddTracked n cid ev) = typed_event ev"
| "typed_task (PollAsking job ad) = typed_adapter ad"
| "typed_task (PollSeen job v) = typed_view v"
| "typed_task (PollDerive job v) = typed_view v"
| "typed_task (PollProgress job v) = typed_view v"
| "typed_task (PollObserve job v) = typed_view v"
| "typed_task (PollEnd job ev) = typed_event ev"
| "typed_task _ = True"

lemma typed_fillDerived: "typed_view v \<Longrightarrow> typed_view (fillDerived v pb pt now)"
  by (auto simp: typed_view_def fillDerived_def Let_def trunc_int64_def go_quot_in64 split: option.splits)

lemma typed_poll_events:
  assumes "typed_view v"
  shows "typed_event (completed_event job v)" "typed_event (failed_event job title err)" "typed_event (progress_event job v)"
  using assms pct_float64
  by (auto simp: completed_event_def failed_event_def progress_event_def typed_view_def optInt64_def optInt32_def optCount_def)

lemma typed_started: "typed_event (started_event cid c req jid)"
  by (simp add: started_event_def)

lemma typed_first_view: "typed_view (tr_view (added cid c req jid))" "typed_view (tr_view (adopted cid ctype j))"
  by (simp_all add: added_def adopted_def typed_not_found)

lemma typed_task_step:
  assumes "task_step fr t g w ts g' evs w'" "typed_task t" "typed.all_clients (gw_reg g)"
  shows "(\<forall>u \<in> set ts. typed_task u) \<and> (\<forall>ev \<in> set evs. typed_event ev)"
  using assms
  by cases (auto simp: typed_poll_events typed_fillDerived typed_adapter_def Get_def typed.all_clients_def typed_started typed_first_view
      split: list.splits option.splits elim!: add_leased_cases)

definition typed_jobs :: "jobs \<Rightarrow> bool" where
  "typed_jobs jobs \<longleftrightarrow> (\<forall>k t. map_of jobs k = Some t \<longrightarrow> typed_view (tr_view t))"

lemma typed_jobs_ops:
  assumes "typed_jobs jobs"
  shows "typed_view (tr_view t) \<Longrightarrow> typed_jobs (track t jobs)" "typed_jobs (untrack a i jobs)"
    "typed_view (tr_view t) \<Longrightarrow> typed_jobs (snd (trackIfAbsent t jobs))" "typed_jobs (snd (markMissing job now jobs))"
    "typed_jobs (clearMissing job jobs)" "typed_view v \<Longrightarrow> typed_jobs (observe job v now jobs)"
  using assms by (auto simp: typed_jobs_def track_def untrack_def trackIfAbsent_def markMissing_def clearMissing_def observe_def
      update_conv delete_conv restrict_map_def split: option.splits if_splits)

lemma typed_jobs_step:
  assumes "task_step fr t g w ts g' evs w'" "typed_task t" "typed_jobs (gw_jobs g)"
  shows "typed_jobs (gw_jobs g')"
proof -
  have "typed_jobs jobs" if "markMissing job now (gw_jobs g) = (b, jobs)" for job now b jobs
    using typed_jobs_ops(4) [OF assms(3), of job now] that by simp
  with assms show ?thesis by cases (auto simp: typed_jobs_ops typed_first_view)
qed

lemma typed_jobs_boot:
  assumes "boot x t newSyncProducer parse_duration env w = (Inr p, w')"
  shows "typed_jobs (gw_jobs (ps_gateway p))"
proof -
  have jobs: "typed_jobs jobs \<Longrightarrow> typed_jobs (adopt_jobs cid ctype js jobs)" for cid ctype js jobs
    unfolding adopt_jobs_def by (induction js arbitrary: jobs) (simp_all add: typed_jobs_ops(3) typed_first_view)
  have "adopt cid reg jobs w = (reg', jobs', w') \<Longrightarrow> typed_jobs jobs \<Longrightarrow> typed_jobs jobs'" for cid reg jobs w reg' jobs' and w' :: 'a
    using jobs by (auto simp: adopt_def split: prod.splits sum.splits option.splits)
  then have "adoptExisting cids reg jobs w = (reg', jobs', w') \<Longrightarrow> typed_jobs jobs \<Longrightarrow> typed_jobs jobs'"
    for cids reg jobs w reg' jobs' and w' :: 'a
    by (induction cids arbitrary: reg jobs w) (auto split: prod.splits)
  moreover have "typed_jobs []" by (simp add: typed_jobs_def)
  ultimately show ?thesis using assms
    by (auto simp: boot_def Let_def newGateway_def split: prod.splits sum.splits)
qed

definition typed_sys :: "'w sys \<Rightarrow> bool" where
  "typed_sys s \<longleftrightarrow> typed.all_clients (gw_reg (sy_gw s)) \<and> typed_jobs (gw_jobs (sy_gw s)) \<and> (\<forall>t \<in># sy_tasks s. typed_task t) \<and> (\<forall>ev \<in> set (sy_log s). typed_event ev)"

lemma typed_sys_step:
  assumes "sstep x s s'" "sys_ok s" "typed_sys s"
  shows "typed_sys s'"
proof -
  have "typed.all_clients (gw_reg (sy_gw s'))" using typed.all_step [OF assms(1,2)] assms(3) by (simp add: typed_sys_def)
  moreover have "typed_jobs (gw_jobs (sy_gw s')) \<and> (\<forall>t \<in># sy_tasks s'. typed_task t) \<and> (\<forall>ev \<in> set (sy_log s'). typed_event ev)"
    using assms(1)
  proof cases
    case run
    then show ?thesis
    proof cases
      case (own t ts g evs w)
      have "typed_task t" "typed.all_clients (gw_reg (sy_gw s))" using assms(3) own(2) by (simp_all add: typed_sys_def)
      from typed_task_step [OF own(3) this] typed_jobs_step [OF own(3) this(1)] show ?thesis
        using assms(3) own(1) by (auto simp: typed_sys_def dest: in_diffD)
    qed
  qed (use assms(3) in \<open>auto simp: typed_sys_def\<close>)
  ultimately show ?thesis by (simp add: typed_sys_def)
qed

lemma typed_sys_reachable:
  assumes "boot x t newSyncProducer parse_duration env w = (Inr p, w')" "reachable x (start (ps_gateway p) w') s"
  shows "typed_sys s"
  using assms(2)
proof induction
  case init
  show ?case using typed.all_boot [OF assms(1)] typed_jobs_boot [OF assms(1)] by (simp add: typed_sys_def start_def)
next
  case (step s s')
  then show ?case using typed_sys_step reachable_ok [OF step.hyps(1) boot_sys_ok [OF assms(1)]] by blast
qed

lemma typed_stamped: "typed_event ev \<Longrightarrow> in64 now \<Longrightarrow> typed_event (stamped now ev)"
  by (cases ev) (simp_all add: stamped_def)

lemma kind_stamped [simp]: "kind_of (stamped now ev) = kind_of ev"
  by (cases ev) (simp_all add: stamped_def)

lemma publish_stamped:
  assumes "pub_p q = Some producer"
  shows "publish nowMs (Some q) ev w = sy_SendMessage producer
     \<lparr>m_Topic = topicFor (Some q) (kind_of ev), m_Key = event_key (event_adapter ev) (event_client_id ev),
      m_Value = marshal (event_json (stamped (nowMs w) ev))\<rparr> w"
  using assms by (cases ev) (simp_all add: emit_defs emit_def Let_def)

text \<open>C11: Whatever the clients answer and however the goroutines interleave, every event the process
  comes to publish is sent as JSON that a consumer of its topic reads back as the same event, stamped with the
  time of publication: every number exact, every string as it is, with U+FFFD for the bytes that are not UTF-8.\<close>

theorem events_read_back:
  assumes "boot x t newSyncProducer parse_duration env w = (Inr p, w')"
    "reachable x (start (ps_gateway p) w') s" "ev \<in> set (sy_log s)"
    "pub_p q = Some producer" "in64 (nowMs w1)"
  shows "\<exists>m. publish nowMs (Some q) ev w1 = sy_SendMessage producer m w1 \<and> m_Topic m = topicFor (Some q) (kind_of ev) \<and>
      dec_event (kind_of ev) (m_Value m) = Some (clean_event (stamped (nowMs w1) ev))"
proof -
  have "typed_event ev" using typed_sys_reachable [OF assms(1,2)] assms(3) by (simp add: typed_sys_def)
  from dec_event_marshal [OF typed_stamped [OF this assms(5)]]
  show ?thesis using publish_stamped [OF assms(4), of nowMs ev w1] by auto
qed

text \<open>A process in which one goroutine runs alone.\<close>

lemma own_alone:
  assumes "reachable x s0 s" "sy_tasks s = {#t#}" "sy_lock s = None" "task_step True t (sy_gw s) (sy_world s) ts g evs w"
  obtains s' where "reachable x s0 s'" "sy_tasks s' = mset ts" "sy_lock s' = None" "sy_gw s' = g" "sy_log s' = sy_log s @ evs"
    "sy_world s' = w"
proof (rule that)
  let ?s' = "s\<lparr>sy_gw := g, sy_tasks := sy_tasks s - {#t#} + mset ts, sy_log := sy_log s @ evs, sy_world := w\<rparr>"
  have "own_step s ?s'" by (rule own_step.own) (use assms in simp_all)
  then show "reachable x s0 ?s'" by (rule reachable.step [OF assms(1) sstep.run])
qed (use assms in simp_all)

lemma demo_queue_describes:
  "NZBGet_Describe (demo_answers demo_queue) demo_nzbget ''7'' () =
     (Inr (NewJobView\<lparr>jv_Title := ''t'', jv_State := StatusDownloading, jv_Health := 0\<rparr>), ())"
proof -
  let ?job = "JObj [(''NZBID'', JNum ''7''), (''NZBName'', JStr ''t''), (''Category'', JStr ''tv'')]"
  have "scan_json demo_queue = Scanned (JObj [(''result'', JArr [?job])]) []"
    "dec_rpc (JObj [(''result'', JArr [?job])]) = Some \<lparr>rpc_Result = Some (JArr [?job]), rpc_Error = None\<rparr>"
    by code_simp+
  note call = demo_call [OF _ this, simplified]
  have num: "atoi ''7'' = (7, True)" "exact64 0 0 0 = 0" by code_simp+
  have "find_field nzbGroup_fields ''Category'' = None"
    by (rule find_field_length) (simp_all add: nzbGroup_fields_def int64_field_def string_field_def int32_field_def)
  moreover have "find_field nzbGroup_fields ''NZBID'' = Some (snd (int64_field ''NZBID'' g_NZBID g_NZBID_update))"
    "find_field nzbGroup_fields ''NZBName'' = Some (snd (string_field ''NZBName'' g_NZBName g_NZBName_update))"
    by (simp_all add: find_field_def nzbGroup_fields_def int64_field_def string_field_def)
  ultimately have "dec_list (dec_struct nzbGroup_fields zero_nzbGroup) (JArr [?job]) =
      Some [zero_nzbGroup\<lparr>g_NZBID := 7, g_NZBName := ''t''\<rparr>]"
    by (simp add: dec_list_def dec_struct_def int64_field_def string_field_def dec_int64_def num(1) dec_string_def)
  moreover have "length demo_queue < 2 ^ 20" by (simp add: demo_queue_def)
  ultimately show ?thesis
    by (simp add: NZBGet_Describe_def NZBGet_groups_def NZBGet_list_def call unmarshal_raw_def foldNZBGroup_def Let_def
        zero_nzbGroup_def NewJobView_def num)
qed
lemma demo_busy_client:
  assumes "boot (demo_answers demo_queue) t nsp pd demo_busy_env w = (Inr p, w')"
  shows "Get (gw_reg (ps_gateway p)) ''nzbget'' = Some (nzbget_adapter (demo_answers demo_queue) demo_nzbget)"
proof -
  let ?x = "demo_answers demo_queue"
  have e: "Getenv demo_busy_env ''NZBGET_URL'' = ''http://n''" "Getenv demo_busy_env ''NZBGET_CATEGORY'' = ''tv''"
    "Getenv demo_busy_env ''NZBGET_USER'' = ''''" "Getenv demo_busy_env ''NZBGET_PASS'' = ''''"
    "Getenv demo_busy_env ''ODOWNLOADER_BASE_URL'' = ''''" "Getenv demo_busy_env ''QBITTORRENT_BASE_URL'' = ''''"
    by code_simp+
  have "map_option e_adapter (map_of (r_clients (fst (registerEnvClients ?x demo_busy_env (NewRegistry []) w))) ''nzbget'') =
      Some (nzbget_adapter ?x demo_nzbget)"
    by (auto simp: registerEnvClients_def env_odownloader_def env_qbittorrent_def env_nzbget_def Let_def e
        AddEnv_def env_spec_def zero_ClientSpec_def NewRegistry_def empty_Registry_def demo_nzbget_def split: option.splits)
  then show ?thesis using boot_serves [OF assms] by (auto simp: Get_def)
qed

definition demo_sender :: "unit producer" where
  "demo_sender = \<lparr>sy_SendMessage = \<lambda>m w. (None, w), sy_Close = \<lambda>w. (None, w)\<rparr>"

definition demo_pub :: "unit Publisher" where
  "demo_pub = \<lparr>pub_p = Some demo_sender, pub_prefix = ''stube.'', pub_closed = False\<rparr>"

theorem events_read_back_witness:
  "\<exists>p s ev m. boot (demo_answers demo_queue) demo_tls (\<lambda>_ _ w. (Inl (ErrText ''down''), w)) (\<lambda>_. None) demo_busy_env () = (Inr p, ()) \<and>
     reachable (demo_answers demo_queue) (start (ps_gateway p) ()) s \<and> ev \<in> set (sy_log s) \<and> kind_of ev = ''progress'' \<and>
     publish (\<lambda>_. 1700000000000) (Some demo_pub) ev () = sy_SendMessage demo_sender m () \<and>
     dec_event ''progress'' (m_Value m) = Some (clean_event (stamped 1700000000000 ev))"
proof -
  let ?x = "demo_answers demo_queue"
  let ?job = "adopted ''nzbget'' ''nzbget'' \<lparr>aj_ClientJobID = ''7'', aj_Title = ''t''\<rparr>"
  let ?v = "NewJobView\<lparr>jv_Title := ''t'', jv_State := StatusDownloading, jv_Health := 0\<rparr>"
  obtain p where p: "boot ?x demo_tls (\<lambda>_ _ w. (Inl (ErrText ''down''), w)) (\<lambda>_. None) demo_busy_env () = (Inr p, ())"
    "gw_jobs (ps_gateway p) = [(''nzbget:7'', ?job)]"
    using demo_busy_boots by blast
  have "Get (gw_reg (ps_gateway p)) ''nzbget'' = Some (nzbget_adapter ?x demo_nzbget)" by (rule demo_busy_client [OF p(1)])
  note p = p this
  let ?ini = "start (ps_gateway p) ()"
  let ?s1 = "?ini\<lparr>sy_ticking := True, sy_tasks := sy_tasks ?ini + mset (map PollPending (snapshot (gw_jobs (sy_gw ?ini))))\<rparr>"
  have "sstep ?x ?ini ?s1" by (rule sstep.tick) (simp add: start_def)
  then have r1: "reachable ?x ?ini ?s1" by (rule reachable.step [OF reachable.init])
  have s1: "sy_tasks ?s1 = {#PollPending ?job#}" "sy_lock ?s1 = None" "sy_log ?s1 = []" by (simp_all add: start_def snapshot_def p(2))
  have "Get (gw_reg (sy_gw ?s1)) (tr_adapter ?job) = Some (nzbget_adapter ?x demo_nzbget)"
    using p(3) by (simp add: start_def adopted_def)
  from own_alone [OF r1 s1(1,2) poll_found [OF this]] obtain s2 where s2: "reachable ?x ?ini s2"
    "sy_tasks s2 = {#PollAsking ?job (nzbget_adapter ?x demo_nzbget)#}" "sy_lock s2 = None" by auto
  have "ad_Describe (nzbget_adapter ?x demo_nzbget) (tr_clientJobID ?job) (sy_world s2) = (Inr ?v, ())"
    using demo_queue_describes by (simp add: nzbget_adapter_def adopted_def)
  from own_alone [OF s2 poll_described [OF this]] obtain s3 where s3: "reachable ?x ?ini s3"
    "sy_tasks s3 = {#PollSeen ?job ?v#}" "sy_lock s3 = None" by auto
  have "jv_State ?v \<notin> {StatusCompleted, StatusFailed}" "jv_NativeState ?v \<noteq> NotFoundState"
    by (simp_all add: NewJobView_def NotFoundState_def)
  from own_alone [OF s3 poll_known [OF this]] obtain s4 where s4: "reachable ?x ?ini s4"
    "sy_tasks s4 = {#PollDerive ?job ?v#}" "sy_lock s4 = None" by auto
  obtain pb pt where prev: "prevSample ?job (gw_jobs (sy_gw s4)) = (pb, pt)" by (rule prod.exhaust)
  let ?d = "fillDerived ?v pb pt 0"
  from own_alone [OF s4 poll_derived [OF prev, where now = 0]] obtain s5 where s5: "reachable ?x ?ini s5"
    "sy_tasks s5 = {#PollProgress ?job ?d#}" "sy_lock s5 = None" by auto
  obtain s6 where r6: "reachable ?x ?ini s6" and "sy_log s6 = sy_log s5 @ [progress_event ?job ?d]"
    by (rule own_alone [OF s5 poll_published], rule that)
  then have "progress_event ?job ?d \<in> set (sy_log s6)" by (simp only: set_append list.set Un_iff insert_iff simp_thms)
  note s6 = r6 this
  have "kind_of (progress_event ?job ?d) = ''progress''" by (simp add: progress_event_def)
  moreover have "in64 1700000000000" by (simp add: in64_def min_int64_def max_int64_def)
  moreover have "pub_p demo_pub = Some demo_sender" by (simp add: demo_pub_def)
  ultimately show ?thesis
    using events_read_back [OF p(1) s6, of demo_pub demo_sender "\<lambda>_. 1700000000000" "()"] p(1) s6 by metis
qed
end
