(* ===== verification/Responses.thy ===== *)
theory Responses
  imports Delivery
begin

text \<open>
  The bytes of an HTTP response: how \<open>writeJSON\<close> encodes the body a handler answers with
  (cmd/server/main.go, config.go), field by field after the struct tags, and what a caller
  reads of the jobs the gateway lists and describes.
\<close>

declare map_of_eq_Some_iff [simp del] Some_eq_map_of_iff [simp del]

section \<open>The JSON of a response\<close>

definition json_strings :: "string list \<Rightarrow> json" where
  "json_strings ss = JArr (map JStr ss)"

text \<open>A \<open>map[string]string\<close> is written in the order of its keys.\<close>

definition json_string_map :: "(string \<times> string) list \<Rightarrow> json" where
  "json_string_map kvs = JObj (map (\<lambda>(k, v). (k, JStr v)) (sort_key fst kvs))"

text \<open>Slices and maps with \<open>omitempty\<close> are left out when they are empty or nil.\<close>

definition omit_slice :: "string \<Rightarrow> string list option \<Rightarrow> (string \<times> json) list" where
  "omit_slice name v = (case v of None \<Rightarrow> [] | Some ss \<Rightarrow> if ss = [] then [] else [(name, json_strings ss)])"

definition omit_map :: "string \<Rightarrow> (string \<times> string) list \<Rightarrow> (string \<times> json) list" where
  "omit_map name kvs = (if kvs = [] then [] else [(name, json_string_map kvs)])"

definition jobDTO_members :: "jobDTO \<Rightarrow> (string \<times> json) list" where
  "jobDTO_members d =
     [(''adapter'', JStr (jd_Adapter d)), (''client_job_id'', JStr (jd_ClientJobID d))]
     @ omit_empty ''wanted_item_id'' (jd_WantedItemID d)
     @ [(''title'', JStr (jd_Title d)), (''state'', JStr (jd_State d))]
     @ omit_empty ''native_state'' (jd_NativeState d)
     @ [(''progress_pct'', json_float (jd_ProgressPct d)), (''downloaded_bytes'', JInt (jd_Downloaded d)),
        (''size_bytes'', json_ptr (jd_SizeBytes d)), (''speed_bps'', JInt (jd_SpeedBps d)), (''eta_sec'', json_ptr (jd_EtaSec d))]
     @ omit_nil ''seeders'' (jd_Seeders d)
     @ omit_nil ''leechers'' (jd_Leechers d)
     @ omit_nil ''health'' (jd_Health d)"

text \<open>The members of the embedded \<open>jobDTO\<close> come first.\<close>

definition describeDTO_members :: "jobDTO \<Rightarrow> string list option \<Rightarrow> string \<Rightarrow> (string \<times> json) list" where
  "describeDTO_members d files message = jobDTO_members d @ omit_slice ''files'' files @ omit_empty ''message'' message"

definition ClientStatus_json :: "ClientStatus \<Rightarrow> json" where
  "ClientStatus_json c = JObj
     ([(''id'', JStr (cs_ID c)), (''type'', JStr (cs_Type c)), (''name'', JStr (cs_Name c)), (''reachable'', JBool (cs_Reachable c))]
      @ omit_empty ''error'' (cs_Error c)
      @ [(''down_bps'', JInt (cs_DownBps c)), (''up_bps'', JInt (cs_UpBps c)), (''paused'', JBool (cs_Paused c))]
      @ omit_nil ''free_disk_bytes'' (cs_FreeDisk c)
      @ omit_map ''detail'' (cs_Detail c))"

definition TypeInfo_json :: "TypeInfo \<Rightarrow> json" where
  "TypeInfo_json t = JObj
     [(''type'', JStr (ty_Type t)), (''protocols'', json_strings (ty_Protocols t)), (''auth'', json_strings (ty_Auth t)),
      (''acceptsPayload'', JBool (ty_AcceptsPayload t)), (''supportsSavePath'', JBool (ty_SupportsSavePath t)),
      (''canPause'', JBool (ty_CanPause t))]"

fun Source_string :: "Source option \<Rightarrow> string" where
  "Source_string None = ''''"
| "Source_string (Some SourceEnv) = ''env''"
| "Source_string (Some SourceAPI) = ''api''"

definition ClientInfo_json :: "ClientInfo \<Rightarrow> json" where
  "ClientInfo_json c = JObj
     ([(''id'', JStr (ci_ID c)), (''type'', JStr (ci_Type c)), (''baseUrl'', JStr (ci_BaseURL c)), (''auth'', JStr (ci_Auth c)),
       (''username'', JStr (ci_Username c)), (''category'', JStr (ci_Category c)), (''savePath'', JStr (ci_SavePath c)),
       (''protocols'', json_strings (ci_Protocols c))]
      @ omit_empty ''source'' (Source_string (ci_Source c))
      @ [(''secretSet'', JBool (ci_SecretSet c))])"

definition ApplyError_json :: "ApplyError \<Rightarrow> json" where
  "ApplyError_json e = JObj [(''id'', JStr (ae_ID e)), (''message'', JStr (ae_Message e))]"

definition configClientsResponse_json :: "int \<Rightarrow> ClientInfo list \<Rightarrow> json" where
  "configClientsResponse_json revision clients =
     JObj [(''revision'', JInt revision), (''clients'', JArr (map ClientInfo_json clients))]"

definition configApplyResponse_json :: "int \<Rightarrow> string list \<Rightarrow> ApplyError list \<Rightarrow> json" where
  "configApplyResponse_json revision applied errs =
     JObj [(''revision'', JInt revision), (''applied'', json_strings applied), (''errors'', JArr (map ApplyError_json errs))]"

definition configTestResponse_json :: "configTestResponse \<Rightarrow> json" where
  "configTestResponse_json r =
     JObj [(''reachable'', JBool (ct_Reachable r)), (''version'', JStr (ct_Version r)), (''error'', JStr (ct_Error r)),
       (''status'', ClientStatus_json (ct_Status r))]"

fun body_json :: "body \<Rightarrow> json option" where
  "body_json NoBody = None"
| "body_json (Text s) = None"
| "body_json (Fields kvs) = Some (json_string_map kvs)"
| "body_json (Ids ss) = Some (json_strings ss)"
| "body_json (Jobs ds) = Some (JArr (map (\<lambda>d. JObj (jobDTO_members d)) ds))"
| "body_json (Described d files message) = Some (JObj (describeDTO_members d files message))"
| "body_json (Statuses cs) = Some (JArr (map ClientStatus_json cs))"
| "body_json (TypeList ts) = Some (JArr (map TypeInfo_json ts))"
| "body_json (ClientList revision cs) = Some (configClientsResponse_json revision cs)"
| "body_json (ApplyReport revision applied errs) = Some (configApplyResponse_json revision applied errs)"
| "body_json (TestReport r) = Some (configTestResponse_json r)"

text \<open>The bytes written: \<open>Encode\<close> ends the value with a line feed.\<close>

definition response_bytes :: "response \<Rightarrow> bytes" where
  "response_bytes resp =
     (case body_json (rp_Body resp) of
        Some v \<Rightarrow> marshal v @ [CHR 0x0A]
      | None \<Rightarrow> (case rp_Body resp of Text s \<Rightarrow> s | _ \<Rightarrow> []))"


lemma scan_line:
  "numbers_ok v \<Longrightarrow> int (json_depth v) \<le> maxNestingDepth \<Longrightarrow> scan_json (marshal v @ [CHR 0x0A]) = Scanned (cleaned v) [CHR 0x0A]"
  by (rule scan_marshal_append) (simp_all add: past_number_def is_digit_def)


section \<open>Reading a job\<close>

definition jobDTO_fields :: "jobDTO field list" where
  "jobDTO_fields =
     [string_field ''adapter'' jd_Adapter jd_Adapter_update, string_field ''client_job_id'' jd_ClientJobID jd_ClientJobID_update,
      string_field ''wanted_item_id'' jd_WantedItemID jd_WantedItemID_update, string_field ''title'' jd_Title jd_Title_update,
      string_field ''state'' jd_State jd_State_update, string_field ''native_state'' jd_NativeState jd_NativeState_update,
      float64_field ''progress_pct'' jd_ProgressPct jd_ProgressPct_update,
      int64_field ''downloaded_bytes'' jd_Downloaded jd_Downloaded_update,
      ptr_field dec_int64 ''size_bytes'' jd_SizeBytes_update, int64_field ''speed_bps'' jd_SpeedBps jd_SpeedBps_update,
      ptr_field dec_int32 ''eta_sec'' jd_EtaSec_update, ptr_field dec_int32 ''seeders'' jd_Seeders_update,
      ptr_field dec_int32 ''leechers'' jd_Leechers_update, ptr_field dec_int32 ''health'' jd_Health_update]"

definition zero_jobDTO :: jobDTO where
  "zero_jobDTO = \<lparr>jd_Adapter = '''', jd_ClientJobID = '''', jd_WantedItemID = '''', jd_Title = '''', jd_State = '''',
     jd_NativeState = '''', jd_ProgressPct = 0, jd_Downloaded = 0, jd_SizeBytes = None, jd_SpeedBps = 0, jd_EtaSec = None,
     jd_Seeders = None, jd_Leechers = None, jd_Health = None\<rparr>"

text \<open>\<open>describeDTO\<close>, with the embedded struct as a field whose own fields are promoted.\<close>

record describeDTO =
  dd_jobDTO :: jobDTO
  dd_Files :: "string list option"
  dd_Message :: string

definition promoted :: "jobDTO field \<Rightarrow> describeDTO field" where
  "promoted f = (fst f, \<lambda>v r. map_option (\<lambda>d. r\<lparr>dd_jobDTO := d\<rparr>) (snd f v (dd_jobDTO r)))"

definition describeDTO_fields :: "describeDTO field list" where
  "describeDTO_fields = map promoted jobDTO_fields
     @ [slice_field ''files'' dd_Files_update, string_field ''message'' dd_Message dd_Message_update]"

definition dec_jobs :: "bytes \<Rightarrow> jobDTO list option" where
  "dec_jobs b = (case scan_json b of Scanned v rest \<Rightarrow> dec_list (dec_struct jobDTO_fields zero_jobDTO) v | _ \<Rightarrow> None)"

definition dec_described :: "bytes \<Rightarrow> describeDTO option" where
  "dec_described b =
     (case scan_json b of
        Scanned v rest \<Rightarrow> dec_struct describeDTO_fields \<lparr>dd_jobDTO = zero_jobDTO, dd_Files = None, dd_Message = ''''\<rparr> v
      | _ \<Rightarrow> None)"

definition clean_jobDTO :: "jobDTO \<Rightarrow> jobDTO" where
  "clean_jobDTO d = d\<lparr>jd_Adapter := utf8 (jd_Adapter d), jd_ClientJobID := utf8 (jd_ClientJobID d),
     jd_WantedItemID := utf8 (jd_WantedItemID d), jd_Title := utf8 (jd_Title d), jd_State := utf8 (jd_State d),
     jd_NativeState := utf8 (jd_NativeState d)\<rparr>"

definition typed_jobDTO :: "jobDTO \<Rightarrow> bool" where
  "typed_jobDTO d \<longleftrightarrow> float64 (jd_ProgressPct d) \<and> in64 (jd_Downloaded d) \<and> pred_option in64 (jd_SizeBytes d) \<and>
     in64 (jd_SpeedBps d) \<and> pred_option in32 (jd_EtaSec d) \<and> pred_option in32 (jd_Seeders d) \<and> pred_option in32 (jd_Leechers d) \<and>
     pred_option in32 (jd_Health d)"

abbreviation cleaned_members :: "(string \<times> json) list \<Rightarrow> (string \<times> json) list" where
  "cleaned_members ms \<equiv> map (\<lambda>m. (utf8 (fst m), cleaned (snd m))) ms"

lemma cleaned_jobDTO: "cleaned_members (jobDTO_members d) = jobDTO_members (clean_jobDTO d)"
  by (simp add: jobDTO_members_def clean_jobDTO_def cleaned_omit valid_ascii)

lemma typed_clean_jobDTO [simp]: "typed_jobDTO (clean_jobDTO d) = typed_jobDTO d"
  by (simp add: typed_jobDTO_def clean_jobDTO_def)

lemma numbers_jobDTO: "typed_jobDTO d \<Longrightarrow> list_all (\<lambda>m. numbers_ok (snd m)) (jobDTO_members d)"
  using fmt_float64_reads(1) by (simp add: typed_jobDTO_def jobDTO_members_def json_float_def float64_def)

lemma depth_jobDTO: "(k, v) \<in> set (jobDTO_members d) \<Longrightarrow> json_depth v = 0"
  by (auto simp: jobDTO_members_def depth_parts dest: depth_parts(5,6))

lemma dec_jobDTO_append:
  "typed_jobDTO d \<Longrightarrow> dec_members jobDTO_fields (jobDTO_members d @ ms) zero_jobDTO = dec_members jobDTO_fields ms d"
  by (cases d) (simp add: typed_jobDTO_def dec_event_simps jobDTO_members_def jobDTO_fields_def zero_jobDTO_def del: dec_members.simps(2))

lemma dec_jobDTO: "typed_jobDTO d \<Longrightarrow> dec_members jobDTO_fields (jobDTO_members d) zero_jobDTO = Some d"
  using dec_jobDTO_append [of d "[]"] by simp

lemma dec_jobs_bytes:
  assumes "list_all typed_jobDTO ds"
  shows "dec_jobs (response_bytes (writeJSON 200 (Jobs ds))) = Some (map clean_jobDTO ds)"
proof -
  let ?v = "JArr (map (\<lambda>d. JObj (jobDTO_members d)) ds)"
  have one: "json_depth (JObj (jobDTO_members d)) \<le> 2" for d by (rule depth_obj) (auto simp: depth_jobDTO)
  then have "fold max (map json_depth (map (\<lambda>d. JObj (jobDTO_members d)) ds)) 0 \<le> 2" by (intro fold_max_le) auto
  then have "json_depth ?v \<le> 3" by (simp only: json_depth.simps)
  then have "int (json_depth ?v) \<le> maxNestingDepth" by (simp add: maxNestingDepth_def)
  moreover have "numbers_ok ?v" using assms numbers_jobDTO by (auto simp: list_all_iff)
  ultimately have scan: "scan_json (response_bytes (writeJSON 200 (Jobs ds))) = Scanned (cleaned ?v) [CHR 0x0A]"
    by (simp add: response_bytes_def writeJSON_def scan_line del: marshal.simps cleaned.simps)
  have "dec_all (dec_struct jobDTO_fields zero_jobDTO) (map (\<lambda>d. JObj (jobDTO_members (clean_jobDTO d))) ds) = Some (map clean_jobDTO ds)"
    using assms by (induction ds) (simp_all add: dec_struct_def dec_jobDTO)
  then show ?thesis by (simp add: dec_jobs_def scan dec_list_def o_def cleaned_jobDTO)
qed

text \<open>Members of the embedded struct are decoded into it.\<close>

lemma find_promoted: "map_of fs k = Some f \<Longrightarrow>
    map_of (map promoted fs @ ex) k = Some (\<lambda>v r. map_option (\<lambda>d. r\<lparr>dd_jobDTO := d\<rparr>) (f v (dd_jobDTO r)))"
  by (induction fs) (auto simp: promoted_def)

lemma dec_promoted:
  assumes "\<forall>m \<in> set ms. map_of fs (fst m) \<noteq> None" "dec_members fs ms (dd_jobDTO r) = Some d"
  shows "dec_members (map promoted fs @ ex) (ms @ ms') r = dec_members (map promoted fs @ ex) ms' (r\<lparr>dd_jobDTO := d\<rparr>)"
  using assms
proof (induction ms arbitrary: r)
  case (Cons m ms)
  obtain k v where m: "m = (k, v)" by (cases m)
  obtain f where f: "map_of fs k = Some f" using Cons.prems(1) m by auto
  then obtain d' where d': "f v (dd_jobDTO r) = Some d'" "dec_members fs ms d' = Some d"
    using Cons.prems(2) m by (auto simp: find_field_def split: option.splits)
  then show ?case using Cons.IH [of "r\<lparr>dd_jobDTO := d'\<rparr>"] Cons.prems(1) find_promoted [OF f, of ex] m
    by (simp add: find_field_def)
next
  case Nil
  then show ?case by (cases r) simp
qed

lemma jobDTO_keys: "m \<in> set (jobDTO_members d) \<Longrightarrow> fst m \<in> fst ` set jobDTO_fields"
  by (auto simp: jobDTO_members_def jobDTO_fields_def omit_empty_def omit_nil_def fst_fields split: if_splits option.splits)

lemma cleaned_described:
  "cleaned_members (describeDTO_members d files message) =
     describeDTO_members (clean_jobDTO d) (map_option (map utf8) files) (utf8 message)"
  by (simp add: describeDTO_members_def cleaned_jobDTO cleaned_omit valid_ascii omit_slice_def json_strings_def split: option.split)

text \<open>An empty list of files is left out, and so reads as no list.\<close>

definition some_files :: "string list option \<Rightarrow> string list option" where
  "some_files v = (if v = Some [] then None else v)"

lemma dec_describeDTO:
  assumes "typed_jobDTO d"
  shows "dec_members describeDTO_fields (describeDTO_members d files message) \<lparr>dd_jobDTO = zero_jobDTO, dd_Files = None, dd_Message = ''''\<rparr> =
    Some \<lparr>dd_jobDTO = d, dd_Files = some_files files, dd_Message = message\<rparr>"
proof -
  let ?r = "\<lparr>dd_jobDTO = d, dd_Files = None, dd_Message = ''''\<rparr>"
  have names: "map_of describeDTO_fields ''files'' = Some (snd (slice_field ''files'' dd_Files_update))"
    "map_of describeDTO_fields ''message'' = Some (snd (string_field ''message'' dd_Message dd_Message_update))"
    by (simp_all add: describeDTO_fields_def jobDTO_fields_def promoted_def fst_fields map_of_field)
  have "dec_members describeDTO_fields (describeDTO_members d files message) \<lparr>dd_jobDTO = zero_jobDTO, dd_Files = None, dd_Message = ''''\<rparr> =
      dec_members describeDTO_fields (omit_slice ''files'' files @ omit_empty ''message'' message) ?r"
    unfolding describeDTO_fields_def describeDTO_members_def
    by (subst dec_promoted [of "jobDTO_members d" _ _ d]) (use jobDTO_keys dec_jobDTO [OF assms] in \<open>auto simp: map_of_eq_None_iff\<close>)
  also have "\<dots> = dec_members describeDTO_fields (omit_empty ''message'' message) (?r\<lparr>dd_Files := some_files files\<rparr>)"
    using names(1) snd_fields(7) [of "''files''" dd_Files_update files ?r]
    by (auto simp: omit_slice_def some_files_def find_field_def json_slice_def json_strings_def split: option.split)
  also have "\<dots> = Some \<lparr>dd_jobDTO = d, dd_Files = some_files files, dd_Message = message\<rparr>"
    using dec_omit_empty [OF names(2), of "?r\<lparr>dd_Files := some_files files\<rparr>" message "[]"] by simp
  finally show ?thesis .
qed

lemma dec_described_bytes:
  assumes "typed_jobDTO d"
  shows "dec_described (response_bytes (writeJSON 200 (Described d files message))) =
    Some \<lparr>dd_jobDTO = clean_jobDTO d, dd_Files = map_option (map utf8) (some_files files), dd_Message = utf8 message\<rparr>"
proof -
  let ?v = "JObj (describeDTO_members d files message)"
  have "json_depth ?v \<le> 2"
    using depth_strings by (intro depth_obj) (auto simp: describeDTO_members_def omit_slice_def json_strings_def depth_jobDTO
        depth_parts(5) simp del: json_depth.simps(1) split: option.splits if_splits)
  then have "int (json_depth ?v) \<le> maxNestingDepth" by (simp add: maxNestingDepth_def)
  moreover have "numbers_ok ?v"
    using numbers_jobDTO [OF assms] by (auto simp: describeDTO_members_def omit_slice_def json_strings_def list_all_iff
        omit_empty_def split: option.split)
  ultimately have scan: "scan_json (response_bytes (writeJSON 200 (Described d files message))) = Scanned (cleaned ?v) [CHR 0x0A]"
    by (simp add: response_bytes_def writeJSON_def scan_line del: marshal.simps cleaned.simps)
  have "some_files (map_option (map utf8) files) = map_option (map utf8) (some_files files)" by (auto simp: some_files_def)
  then show ?thesis using dec_describeDTO [of "clean_jobDTO d"] assms
    by (simp add: dec_described_def scan dec_struct_def cleaned_described)
qed

lemma typed_view_DTO: "typed_view v \<Longrightarrow> typed_jobDTO (view_DTO a i wanted title st v)"
  using pct_float64 by (auto simp: typed_jobDTO_def view_DTO_def typed_view_def optInt64_def optInt32_def optCount_def)

text \<open>The entries of the job list.\<close>

definition listed :: "jobs \<Rightarrow> jobDTO list" where
  "listed jobs = map (\<lambda>(k, t). view_DTO (tr_adapter t) (tr_clientJobID t) (tr_wantedItemID t) (titleOf t (tr_view t)) (tr_last t) (tr_view t)) jobs"

text \<open>What is told of one job: the wanted item and the title of a tracked job come from the job table.\<close>

definition described :: "jobs \<Rightarrow> string \<Rightarrow> string \<Rightarrow> JobView \<Rightarrow> jobDTO" where
  "described jobs name jid v =
     (case map_of jobs (job_key name jid) of
        Some t \<Rightarrow> view_DTO name jid (tr_wantedItemID t) (titleOf t v) (jv_State v) v
      | None \<Rightarrow> view_DTO name jid '''' (jv_Title v) (jv_State v) v)"

text \<open>C15: What a caller reads of the jobs is what the gateway knows. In every state the process can get into, the
  bytes of the job list decode to one entry per tracked job with the values of its last snapshot; and a
  job that is described successfully decodes to the values its client just reported, its files and its message
  included.\<close>

theorem jobs_read_back:
  assumes "boot x t newSyncProducer parse_duration env w = (Inr p, w')"
    "reachable x (start (ps_gateway p) w') s"
  shows "dec_jobs (response_bytes (handleList (sy_gw s))) = Some (map clean_jobDTO (listed (gw_jobs (sy_gw s)))) \<and>
    (handleDescribe up rq (sy_gw s) w1 = (resp, w2) \<and> rp_Code resp = 200 \<longrightarrow>
      (\<exists>ad v. Get (gw_reg (sy_gw s)) (q_adapter rq) = Some ad \<and> ad_Describe ad (q_id rq) w1 = (Inr v, w2) \<and>
         dec_described (response_bytes resp) =
           Some \<lparr>dd_jobDTO = clean_jobDTO (described (gw_jobs (sy_gw s)) (q_adapter rq) (q_id rq) v),
                 dd_Files = map_option (map utf8) (some_files (jv_Files v)), dd_Message = utf8 (jv_Message v)\<rparr>))"
proof (intro conjI impI)
  have typed: "typed_sys s" by (rule typed_sys_reachable [OF assms])
  have "jobs_wf (gw_jobs (sy_gw s))" using reachable_ok [OF assms(2) boot_sys_ok [OF assms(1)]] by (simp add: sys_ok_def)
  then have "list_all typed_jobDTO (listed (gw_jobs (sy_gw s)))"
    using typed by (auto simp: listed_def list_all_iff typed_sys_def typed_jobs_def jobs_wf_def intro!: typed_view_DTO dest: map_of_is_SomeI)
  from dec_jobs_bytes [OF this]
  show "dec_jobs (response_bytes (handleList (sy_gw s))) = Some (map clean_jobDTO (listed (gw_jobs (sy_gw s))))"
    by (simp add: handleList_def listed_def)
  assume d: "handleDescribe up rq (sy_gw s) w1 = (resp, w2) \<and> rp_Code resp = 200"
  then obtain ad v where ad: "Get (gw_reg (sy_gw s)) (q_adapter rq) = Some ad" "ad_Describe ad (q_id rq) w1 = (Inr v, w2)"
    and resp: "resp = writeJSON 200 (Described (described (gw_jobs (sy_gw s)) (q_adapter rq) (q_id rq) v) (jv_Files v) (jv_Message v))"
    by (auto simp: handleDescribe_def described_def Let_def split: option.splits prod.splits sum.splits if_splits)
  have "typed_adapter ad" using typed ad(1) by (auto simp: typed_sys_def typed.all_clients_def Get_def split: option.splits)
  then have "typed_view v" using ad(2) unfolding typed_adapter_def by blast
  then have "typed_jobDTO (described (gw_jobs (sy_gw s)) (q_adapter rq) (q_id rq) v)" by (simp add: described_def typed_view_DTO split: option.split)
  from dec_described_bytes [OF this] resp ad
  show "\<exists>ad v. Get (gw_reg (sy_gw s)) (q_adapter rq) = Some ad \<and> ad_Describe ad (q_id rq) w1 = (Inr v, w2) \<and>
         dec_described (response_bytes resp) =
           Some \<lparr>dd_jobDTO = clean_jobDTO (described (gw_jobs (sy_gw s)) (q_adapter rq) (q_id rq) v),
                 dd_Files = map_option (map utf8) (some_files (jv_Files v)), dd_Message = utf8 (jv_Message v)\<rparr>"
    by blast
qed

definition demo_query :: request where
  "demo_query = \<lparr>q_adapter = ''nzbget'', q_id = ''7'', q_Authorization = '''', q_ContentLength = 0, q_Body = []\<rparr>"

theorem jobs_read_back_witness:
  "\<exists>p ds d. boot (demo_answers demo_queue) demo_tls (\<lambda>_ _ w. (Inl (ErrText ''down''), w)) (\<lambda>_. None) demo_busy_env () = (Inr p, ()) \<and>
     dec_jobs (response_bytes (handleList (ps_gateway p))) = Some ds \<and> length ds = 1 \<and>
     dec_described (response_bytes (fst (handleDescribe (\<lambda>_. True) demo_query (ps_gateway p) ()))) = Some d \<and>
     dd_Files d = None"
proof -
  let ?x = "demo_answers demo_queue"
  let ?v = "NewJobView\<lparr>jv_Title := ''t'', jv_State := StatusDownloading, jv_Health := 0\<rparr>"
  obtain p where p: "boot ?x demo_tls (\<lambda>_ _ w. (Inl (ErrText ''down''), w)) (\<lambda>_. None) demo_busy_env () = (Inr p, ())"
    "gw_jobs (ps_gateway p) = [(''nzbget:7'', adopted ''nzbget'' ''nzbget'' \<lparr>aj_ClientJobID = ''7'', aj_Title = ''t''\<rparr>)]"
    using demo_busy_boots by blast
  let ?s = "start (ps_gateway p) ()"
  have g: "sy_gw ?s = ps_gateway p" by (simp add: start_def)
  have ad: "Get (gw_reg (ps_gateway p)) (q_adapter demo_query) = Some (nzbget_adapter ?x demo_nzbget)"
    "ad_Describe (nzbget_adapter ?x demo_nzbget) (q_id demo_query) () = (Inr ?v, ())"
    using demo_busy_client [OF p(1)] demo_queue_describes by (simp_all add: demo_query_def nzbget_adapter_def)
  let ?d = "handleDescribe (\<lambda>_. True) demo_query (ps_gateway p) ()"
  have "rp_Code (fst ?d) = 200"
    using ad by (simp add: handleDescribe_def Let_def NewJobView_def NotFoundState_def split: option.splits)
  then have code: "?d = (fst ?d, snd ?d) \<and> rp_Code (fst ?d) = 200" by (metis prod.collapse)
  note r = jobs_read_back [OF p(1) reachable.init, unfolded g]
  obtain v d where "ad_Describe (nzbget_adapter ?x demo_nzbget) (q_id demo_query) () = (Inr v, snd ?d)"
    "dec_described (response_bytes (fst ?d)) = Some d" "dd_Files d = map_option (map utf8) (some_files (jv_Files v))"
    using r [THEN conjunct2, THEN mp, OF code] ad(1) by force
  moreover have "jv_Files ?v = None" by (simp add: NewJobView_def)
  ultimately have "dec_described (response_bytes (fst ?d)) = Some d" "dd_Files d = None" using ad(2) by (auto simp: some_files_def)
  moreover have "length (listed (gw_jobs (ps_gateway p))) = 1" by (simp add: listed_def p(2))
  ultimately show ?thesis using p(1) r [THEN conjunct1] by (metis length_map)
qed

end
