(* ===== verification/Lifecycle.thy ===== *)
theory Lifecycle
  imports System
begin

text \<open>
  The life of the process (\<open>main\<close> and \<open>pollLoop\<close> of cmd/server/main.go): after the start, the
  main goroutine waits for a signal while the poll goroutine ticks, the server goroutine listens
  and the goroutines of \<open>System\<close> interleave; the process ends at the end of \<open>main\<close>, when the
  server goroutine calls \<open>os.Exit\<close>, or by a panic.
\<close>

declare map_of_eq_Some_iff [simp del] Some_eq_map_of_iff [simp del]

section \<open>The goroutines of main\<close>

text \<open>Where the main goroutine is: at \<open><-ctx.Done()\<close>, before \<open>srv.Shutdown\<close>, in it; or the
  process has ended with an exit code.\<close>

datatype main_pc = Waiting | Stopping | ShuttingDown | Exited int

text \<open>The poll goroutine: before \<open>time.NewTicker\<close>, in its loop, returned.\<close>

datatype poll_pc = PollStart | PollLooping | PollReturned

record 'w main =
  mn_pc :: main_pc
  mn_poller :: poll_pc
  mn_done :: bool            \<comment> \<open>SIGINT or SIGTERM has come: the context is done\<close>
  mn_listen :: "go_error option"    \<comment> \<open>what \<open>ListenAndServe\<close> failed with\<close>
  mn_pub :: "'w Publisher"
  mn_sys :: "'w sys"

definition main_start :: "'w process \<Rightarrow> 'w \<Rightarrow> 'w main" where
  "main_start p w = \<lparr>mn_pc = Waiting, mn_poller = PollStart, mn_done = False, mn_listen = None,
     mn_pub = ps_pub p, mn_sys = start (ps_gateway p) w\<rparr>"

definition alive :: "'w main \<Rightarrow> bool" where
  "alive m \<longleftrightarrow> (case mn_pc m of Exited _ \<Rightarrow> False | _ \<Rightarrow> True)"

text \<open>
  One step of the process, with the poll interval. A tick of \<open>System\<close> is one of the poll
  goroutine in its loop. \<open>srvClosed\<close> is \<open>http.ErrServerClosed\<close>, which \<open>ListenAndServe\<close> gives once
  \<open>srv.Shutdown\<close> has been called: until then any other error ends the process. The poll loop
  returns between two ticks. \<open>srv.Shutdown\<close> returns when the requests have finished or after ten
  seconds, so the last step is possible at any time; the deferred \<open>Close\<close> releases the producer.
\<close>

inductive main_step :: "'w ext \<Rightarrow> go_error \<Rightarrow> int \<Rightarrow> 'w main \<Rightarrow> 'w main \<Rightarrow> bool"
  for x :: "'w ext" and srvClosed :: go_error and poll :: int where
  runs: "main_step x srvClosed poll m (m\<lparr>mn_sys := s\<rparr>)"
    if "alive m" "sstep x (mn_sys m) s" "sy_ticking s \<longrightarrow> sy_ticking (mn_sys m) \<or> mn_poller m = PollLooping"
| signalled: "main_step x srvClosed poll m (m\<lparr>mn_done := True\<rparr>)" if "alive m"
| ticker: "main_step x srvClosed poll m (m\<lparr>mn_poller := PollLooping\<rparr>)"
    if "alive m" "mn_poller m = PollStart" "0 < poll"
| ticker_panics: "main_step x srvClosed poll m (m\<lparr>mn_pc := Exited 2\<rparr>)"
    if "alive m" "mn_poller m = PollStart" "poll \<le> 0"
| poller_returns: "main_step x srvClosed poll m (m\<lparr>mn_poller := PollReturned\<rparr>)"
    if "alive m" "mn_poller m = PollLooping" "mn_done m" "\<not> sy_ticking (mn_sys m)"
| listen_fails: "main_step x srvClosed poll m (m\<lparr>mn_listen := Some e, mn_pc := Exited 1\<rparr>)"
    if "mn_pc m = Waiting \<or> mn_pc m = Stopping" "e \<noteq> srvClosed"
| stops: "main_step x srvClosed poll m (m\<lparr>mn_pc := Stopping, mn_sys := (mn_sys m)\<lparr>sy_gw := begin_shutdown (sy_gw (mn_sys m))\<rparr>\<rparr>)"
    if "mn_pc m = Waiting" "mn_done m"
| shuts_down: "main_step x srvClosed poll m (m\<lparr>mn_pc := ShuttingDown\<rparr>)" if "mn_pc m = Stopping"
| returns: "main_step x srvClosed poll m (m\<lparr>mn_pc := Exited 0, mn_pub := pub, mn_sys := (mn_sys m)\<lparr>sy_world := w\<rparr>\<rparr>)"
    if "mn_pc m = ShuttingDown" "Close (Some (mn_pub m)) (sy_world (mn_sys m)) = (e, Some pub, w)"

text \<open>The states of a process: \<open>boot\<close>, and then any interleaving.\<close>

definition main_reachable :: "'w ext \<Rightarrow> go_error \<Rightarrow> 'w process \<Rightarrow> 'w \<Rightarrow> 'w main \<Rightarrow> bool" where
  "main_reachable x srvClosed p w m \<longleftrightarrow> (main_step x srvClosed (ps_poll p))\<^sup>*\<^sup>* (main_start p w) m"

inductive_cases main_stepE: "main_step x srvClosed poll m m'"


section \<open>Lemmas\<close>

lemma task_step_stopping:
  "task_step fr t g w ts g' evs w' \<Longrightarrow> gw_stopping g' = gw_stopping g"
  by (erule task_step.cases) auto

lemma sstep_stopping: "sstep x s s' \<Longrightarrow> gw_stopping (sy_gw s') = gw_stopping (sy_gw s)"
  by (erule sstep.cases) (auto elim!: own_step.cases dest: task_step_stopping)

lemma sys_ok_stopping: "sys_ok s \<Longrightarrow> sys_ok (s\<lparr>sy_gw := begin_shutdown (sy_gw s)\<rparr>)"
  unfolding sys_ok_def answers_ok_def by (cases s) (auto simp: begin_shutdown_def split: option.splits)

lemma sys_ok_sstep: "sys_ok s \<Longrightarrow> sstep x s s' \<Longrightarrow> sys_ok s'"
  using reachable_ok [OF reachable.step [OF reachable.init]] by blast

text \<open>The invariant of the process.\<close>

definition main_ok :: "go_error \<Rightarrow> int \<Rightarrow> 'w main \<Rightarrow> bool" where
  "main_ok srvClosed poll m \<longleftrightarrow>
     sys_ok (mn_sys m) \<and>
     (mn_pc m \<in> {Stopping, ShuttingDown, Exited 0} \<longrightarrow> mn_done m \<and> gw_stopping (sy_gw (mn_sys m))) \<and>
     (mn_pc m = Waiting \<longrightarrow> \<not> gw_stopping (sy_gw (mn_sys m))) \<and>
     (mn_poller m \<noteq> PollStart \<longrightarrow> 0 < poll) \<and> (sy_ticking (mn_sys m) \<longrightarrow> mn_poller m = PollLooping) \<and>
     (mn_poller m = PollReturned \<longrightarrow> mn_done m) \<and>
     (case mn_pc m of
        Exited c \<Rightarrow> c = 0 \<and> pub_closed (mn_pub m) \<or> c = 1 \<and> (\<exists>e. mn_listen m = Some e \<and> e \<noteq> srvClosed)
          \<or> c = 2 \<and> poll \<le> 0
      | _ \<Rightarrow> True)"

lemma main_ok_exited:
  assumes "main_ok srvClosed poll m" "mn_pc m = Exited c"
  shows "c = 0 \<and> mn_done m \<and> pub_closed (mn_pub m) \<or> c = 1 \<and> (\<exists>e. mn_listen m = Some e \<and> e \<noteq> srvClosed) \<or> c = 2 \<and> poll \<le> 0"
  using assms unfolding main_ok_def by (elim conjE) (simp, metis)

lemma Close_closed: "Close (Some q) w = (e, Some q', w') \<Longrightarrow> pub_closed q'"
  by (auto simp: Close_def Let_def split: option.splits prod.splits)

lemma main_ok_step:
  assumes "main_step x srvClosed poll m m'" "main_ok srvClosed poll m"
  shows "main_ok srvClosed poll m'"
  using assms(1)
proof (cases rule: main_step.cases)
  case (runs s)
  then show ?thesis
    using assms(2) sys_ok_sstep [of "mn_sys m" x s] sstep_stopping [of x "mn_sys m" s]
    by (cases "mn_pc m") (auto simp: main_ok_def alive_def)
next
  case stops
  then show ?thesis using assms(2) sys_ok_stopping [of "mn_sys m"] by (simp add: main_ok_def begin_shutdown_def)
next
  case (returns e pub w)
  have "sys_ok ((mn_sys m)\<lparr>sy_world := w\<rparr>)"
    by (rule sys_ok_sstep [OF _ sstep.world]) (use assms(2) in \<open>simp add: main_ok_def\<close>)
  then show ?thesis using returns assms(2) Close_closed [OF returns(3)] by (simp add: main_ok_def)
qed (use assms(2) in \<open>auto simp: main_ok_def alive_def split: main_pc.splits\<close>)

lemma boot_not_stopping:
  assumes "boot x t newSyncProducer parse_duration env w = (Inr p, w')"
  shows "\<not> gw_stopping (ps_gateway p)"
  using boot_serves [OF assms] by (auto simp: handleReady_def split: if_splits)

lemma main_ok_reachable:
  assumes "boot x t newSyncProducer parse_duration env w = (Inr p, w')" "main_reachable x srvClosed p w' m"
  shows "main_ok srvClosed (ps_poll p) m"
  using assms(2) unfolding main_reachable_def
proof (induction rule: rtranclp_induct)
  case base
  show ?case using boot_sys_ok [OF assms(1)] boot_not_stopping [OF assms(1)]
    by (simp add: main_ok_def main_start_def) (simp add: start_def)
qed (rule main_ok_step)

text \<open>From any state a signal ends the process.\<close>

lemma Close_returns: obtains e q' w' where "Close (Some q) w = (e, Some q', w')"
  by (cases "pub_p q") (auto simp: Close_def Let_def prod.case_eq_if)

lemma alive_returns:
  assumes "alive m"
  shows "\<exists>m'. (main_step x srvClosed poll)\<^sup>*\<^sup>* m m' \<and> mn_pc m' = Exited 0"
proof -
  let ?steps = "(main_step x srvClosed poll)\<^sup>*\<^sup>*"
  have ret: "\<exists>m'. ?steps n m' \<and> mn_pc m' = Exited 0" if n: "mn_pc n = ShuttingDown" for n :: "'a main"
  proof -
    obtain e q w where "Close (Some (mn_pub n)) (sy_world (mn_sys n)) = (e, Some q, w)"
      by (rule Close_returns)
    from r_into_rtranclp [where r = "main_step x srvClosed poll", OF main_step.returns [OF n this]]
    show ?thesis by (intro exI conjI) (assumption, simp)
  qed
  have shut: "\<exists>m'. ?steps n m' \<and> mn_pc m' = Exited 0" if n: "mn_pc n = Stopping" for n :: "'a main"
  proof -
    obtain m' where "?steps (n\<lparr>mn_pc := ShuttingDown\<rparr>) m'" "mn_pc m' = Exited 0"
      using ret [of "n\<lparr>mn_pc := ShuttingDown\<rparr>"] by auto
    with main_step.shuts_down [OF n] show ?thesis by (blast intro: converse_rtranclp_into_rtranclp)
  qed
  show ?thesis
  proof (cases "mn_pc m")
    case Waiting
    let ?n = "m\<lparr>mn_done := True\<rparr>"
    let ?n' = "?n\<lparr>mn_pc := Stopping, mn_sys := (mn_sys ?n)\<lparr>sy_gw := begin_shutdown (sy_gw (mn_sys ?n))\<rparr>\<rparr>"
    have "main_step x srvClosed poll m ?n" by (rule main_step.signalled [OF assms])
    moreover have "main_step x srvClosed poll ?n ?n'" by (rule main_step.stops) (simp_all add: Waiting)
    moreover obtain m' where "?steps ?n' m'" "mn_pc m' = Exited 0" using shut [of ?n'] by auto
    ultimately show ?thesis by (blast intro: converse_rtranclp_into_rtranclp)
  qed (use assms ret [of m] shut [of m] in \<open>auto simp: alive_def\<close>)
qed


section \<open>Properties\<close>

text \<open>C25: How the process ends once it has started. However its goroutines interleave, it exits with 0 only after a
  signal and with the publisher closed, with 1 only after a failure to listen that is not the
  shutdown, with 2 only for a poll interval that is not positive, and with nothing else; it
  reports itself ready exactly until it stops; it polls only with a positive interval; every
  tracked job has its client to the end; and as long as it lives a signal can end it with 0.\<close>

theorem main_ends:
  assumes "boot x t newSyncProducer parse_duration env w = (Inr p, w')" "main_reachable x srvClosed p w' m"
  shows "(\<forall>c. mn_pc m = Exited c \<longrightarrow>
            c = 0 \<and> mn_done m \<and> pub_closed (mn_pub m)
            \<or> c = 1 \<and> (\<exists>e. mn_listen m = Some e \<and> e \<noteq> srvClosed)
            \<or> c = 2 \<and> ps_poll p \<le> 0) \<and>
         (alive m \<or> mn_pc m = Exited 0 \<longrightarrow>
            rp_Code (handleReady True (sy_gw (mn_sys m))) = (if mn_pc m = Waiting then 200 else 503)) \<and>
         (sy_ticking (mn_sys m) \<longrightarrow> 0 < ps_poll p) \<and>
         (\<forall>k job. map_of (gw_jobs (sy_gw (mn_sys m))) k = Some job \<longrightarrow>
            Get (gw_reg (sy_gw (mn_sys m))) (tr_adapter job) \<noteq> None) \<and>
         (alive m \<longrightarrow> (\<exists>m'. main_reachable x srvClosed p w' m' \<and> mn_pc m' = Exited 0))"
proof (intro conjI)
  note ok = main_ok_reachable [OF assms]
  show "\<forall>c. mn_pc m = Exited c \<longrightarrow> c = 0 \<and> mn_done m \<and> pub_closed (mn_pub m)
            \<or> c = 1 \<and> (\<exists>e. mn_listen m = Some e \<and> e \<noteq> srvClosed) \<or> c = 2 \<and> ps_poll p \<le> 0"
    by (intro allI impI) (rule main_ok_exited [OF ok])
  show "alive m \<or> mn_pc m = Exited 0 \<longrightarrow>
      rp_Code (handleReady True (sy_gw (mn_sys m))) = (if mn_pc m = Waiting then 200 else 503)"
    using ok by (cases "mn_pc m") (auto simp: main_ok_def alive_def handleReady_def)
  show "sy_ticking (mn_sys m) \<longrightarrow> 0 < ps_poll p"
    using ok by (auto simp: main_ok_def)
  have "sys_ok (mn_sys m)" using ok by (simp add: main_ok_def)
  then show "\<forall>k job. map_of (gw_jobs (sy_gw (mn_sys m))) k = Some job \<longrightarrow>
      Get (gw_reg (sy_gw (mn_sys m))) (tr_adapter job) \<noteq> None"
    using sys_ok_job(2) [of "mn_sys m"] unfolding registered_def by (metis option.distinct(1))
  show "alive m \<longrightarrow> (\<exists>m'. main_reachable x srvClosed p w' m' \<and> mn_pc m' = Exited 0)"
  proof
    assume "alive m"
    from alive_returns [OF this] obtain m' where "(main_step x srvClosed (ps_poll p))\<^sup>*\<^sup>* m m'" "mn_pc m' = Exited 0" by blast
    then show "\<exists>m'. main_reachable x srvClosed p w' m' \<and> mn_pc m' = Exited 0"
      using assms(2) rtranclp_trans unfolding main_reachable_def by fast
  qed
qed

theorem main_ends_witness:
  "\<exists>p w' m. boot (demo_answers demo_queue) demo_tls (\<lambda>_ _ w. (Inl (ErrText ''down''), w)) (\<lambda>_. None) demo_busy_env () = (Inr p, w') \<and>
     main_reachable (demo_answers demo_queue) (ErrText ''closed'') p w' m \<and> mn_pc m = Exited 0 \<and> pub_closed (mn_pub m)"
proof -
  obtain p w' where b: "boot (demo_answers demo_queue) demo_tls (\<lambda>_ _ w. (Inl (ErrText ''down''), w)) (\<lambda>_. None) demo_busy_env () = (Inr p, w')"
    using demo_busy_boots by blast
  have "main_reachable (demo_answers demo_queue) (ErrText ''closed'') p w' (main_start p w')" "alive (main_start p w')"
    by (simp_all add: main_reachable_def alive_def main_start_def)
  then obtain m where m: "main_reachable (demo_answers demo_queue) (ErrText ''closed'') p w' m" "mn_pc m = Exited 0"
    using main_ends [OF b] by blast
  then have "pub_closed (mn_pub m)" using main_ends [OF b m(1)] by auto
  with b m show ?thesis by blast
qed

end
