(* ===== verification/Issuer.thy ===== *)
theory Issuer
  imports Auth Decimal Base64 "HOL-Library.Monad_Syntax"
begin

text \<open>
  The OIDC issuer of the tests (internal/auth/authtest/issuer.go): what it serves, the tokens it
  signs, and that the gate of internal/auth lets exactly the tokens through it should. The RSA
  and SHA-256 of Go's crypto packages and the clock are parameters.
\<close>

declare map_of_eq_Some_iff [simp del] Some_eq_map_of_iff [simp del]

section \<open>Base64 for tokens\<close>

text \<open>\<open>base64.RawURLEncoding\<close>: the standard encoding without its padding, and with \<open>-\<close> and
  \<open>_\<close> for the digits \<open>+\<close> and \<open>/\<close>.\<close>

definition url_digit :: "char \<Rightarrow> char" where
  "url_digit c = (if c = CHR ''+'' then CHR ''-'' else if c = CHR ''/'' then CHR ''_'' else c)"

definition b64 :: "bytes \<Rightarrow> string" where
  "b64 s = map url_digit (filter (\<lambda>c. c \<noteq> CHR ''='') (b64_encode s))"

text \<open>\<open>big.Int.Bytes\<close>: the big-endian bytes of a number, none for zero.\<close>

fun int_bytes :: "nat \<Rightarrow> bytes" where
  "int_bytes n = (if n = 0 then [] else int_bytes (n div 256) @ [byte_of (n mod 256)])"

declare int_bytes.simps [simp del]


section \<open>The issuer\<close>

text \<open>What the issuer uses of crypto/rsa: making a key, the modulus and the exponent of its
  public part, and signing a digest.\<close>

record ('k, 'w) rsa =
  rs_GenerateKey :: "'w \<Rightarrow> (go_error + 'k) \<times> 'w"
  rs_N :: "'k \<Rightarrow> nat"
  rs_E :: "'k \<Rightarrow> nat"
  rs_SignPKCS1v15 :: "'k \<Rightarrow> bytes \<Rightarrow> go_error + bytes"

definition keyID :: string where
  "keyID = ''authtest''"

record 'k Issuer =
  is_URL :: string
  is_key :: 'k

text \<open>\<open>t.Fatalf\<close> ends the test: an operation that calls it has the message as its \<open>Inl\<close>. The
  test server's address is an argument.\<close>

definition NewIssuer ::
  "(nat \<Rightarrow> bool) \<Rightarrow> ('k, 'w) rsa \<Rightarrow> string \<Rightarrow> 'w \<Rightarrow> (string + 'k Issuer) \<times> 'w" where
  "NewIssuer up rsa url w =
     (case rs_GenerateKey rsa w of
        (Inl e, w') \<Rightarrow> (Inl (''authtest: generate key: '' @ Error up e), w')
      | (Inr key, w') \<Rightarrow> (Inr \<lparr>is_URL = url, is_key = key\<rparr>, w'))"

text \<open>A Go map as encoding/json writes it: in the order of its keys.\<close>

definition json_map :: "(string \<times> json) list \<Rightarrow> json" where
  "json_map kvs = JObj (sort_key fst kvs)"

definition discovery_json :: "'k Issuer \<Rightarrow> json" where
  "discovery_json i = json_map
     [(''issuer'', JStr (is_URL i)),
      (''jwks_uri'', JStr (is_URL i @ ''/jwks'')),
      (''authorization_endpoint'', JStr (is_URL i @ ''/auth'')),
      (''token_endpoint'', JStr (is_URL i @ ''/token'')),
      (''id_token_signing_alg_values_supported'', JArr [JStr ''RS256''])]"

definition jwks_json :: "('k, 'w) rsa \<Rightarrow> 'k Issuer \<Rightarrow> json" where
  "jwks_json rsa i = json_map
     [(''keys'', JArr [json_map
        [(''kty'', JStr ''RSA''), (''use'', JStr ''sig''), (''alg'', JStr ''RS256''), (''kid'', JStr keyID),
         (''n'', JStr (b64 (int_bytes (rs_N rsa (is_key i))))),
         (''e'', JStr (b64 (int_bytes (rs_E rsa (is_key i)))))]])]"

text \<open>The content type and the body; the encoder ends a document with a newline.\<close>

definition issuer_writeJSON :: "json \<Rightarrow> string \<times> bytes" where
  "issuer_writeJSON v = (''application/json'', marshal v @ [byte_of 10])"

text \<open>The two routes; every other path is the mux's own answer.\<close>

definition issuer_serve :: "('k, 'w) rsa \<Rightarrow> 'k Issuer \<Rightarrow> string \<Rightarrow> (string \<times> bytes) option" where
  "issuer_serve rsa i path =
     (if path = ''/.well-known/openid-configuration'' then Some (issuer_writeJSON (discovery_json i))
      else if path = ''/jwks'' then Some (issuer_writeJSON (jwks_json rsa i))
      else None)"

text \<open>The body of a token: four claims that those of the caller replace. A claim is a value of
  type \<open>any\<close>: the JSON it is written as, or the error encoding/json refuses it with. \<open>iat\<close> and
  \<open>exp\<close> come from two readings of the clock, in Unix seconds.\<close>

type_synonym claims = "(string \<times> (go_error + json)) list"

definition token_body :: "'k Issuer \<Rightarrow> int \<Rightarrow> int \<Rightarrow> claims \<Rightarrow> claims" where
  "token_body i t1 t2 claims =
     fold (\<lambda>(k, v). AList.update k v) claims
       [(''iss'', Inr (JStr (is_URL i))), (''sub'', Inr (JStr ''service-account'')),
        (''iat'', Inr (JInt t1)), (''exp'', Inr (JInt (t2 + 3600)))]"

fun marshal_any :: "claims \<Rightarrow> go_error + (string \<times> json) list" where
  "marshal_any [] = Inr []"
| "marshal_any ((k, v) # kvs) =
     (case v of
        Inl e \<Rightarrow> Inl e
      | Inr j \<Rightarrow> (case marshal_any kvs of Inl e \<Rightarrow> Inl e | Inr js \<Rightarrow> Inr ((k, j) # js)))"

definition token_header :: json where
  "token_header = json_map [(''alg'', JStr ''RS256''), (''typ'', JStr ''JWT''), (''kid'', JStr keyID)]"

definition Token ::
  "(nat \<Rightarrow> bool) \<Rightarrow> ('k, 'w) rsa \<Rightarrow> (bytes \<Rightarrow> bytes) \<Rightarrow> int \<Rightarrow> int \<Rightarrow> 'k Issuer \<Rightarrow> claims \<Rightarrow> string + string" where
  "Token up rsa sha256 t1 t2 i claims =
     (case marshal_any (sort_key fst (token_body i t1 t2 claims)) of
        Inl e \<Rightarrow> Inl (''authtest: claims: '' @ Error up e)
      | Inr body \<Rightarrow>
        let signingInput = b64 (marshal token_header) @ ''.'' @ b64 (marshal (JObj body)) in
        (case rs_SignPKCS1v15 rsa (is_key i) (sha256 signingInput) of
           Inl e \<Rightarrow> Inl (''authtest: sign: '' @ Error up e)
         | Inr sig \<Rightarrow> Inr (signingInput @ ''.'' @ b64 sig)))"


section \<open>Reading tokens and documents\<close>

text \<open>What a relying party makes of the issuer's answers, after the formats' definitions (OpenID
  Connect Discovery 1.0, RFC 7517 and RFC 7515): this is the contract the OIDC library documents,
  and not code of the repository.\<close>

definition std_digit :: "char \<Rightarrow> char" where
  "std_digit c = (if c = CHR ''-'' then CHR ''+'' else if c = CHR ''_'' then CHR ''/'' else c)"

definition b64_raw_decode :: "string \<Rightarrow> bytes option" where
  "b64_raw_decode s =
     (if list_all (\<lambda>c. b64_val (std_digit c) \<noteq> None \<and> c \<noteq> CHR ''+'' \<and> c \<noteq> CHR ''/'') s
      then b64_decode (map std_digit s @ replicate ((4 - length s mod 4) mod 4) (CHR ''=''))
      else None)"

definition bytes_int :: "bytes \<Rightarrow> nat" where
  "bytes_int s = foldl (\<lambda>n c. n * 256 + of_char c) 0 s"

definition json_members :: "bytes \<Rightarrow> (string \<times> json) list option" where
  "json_members s =
     (case scan_json s of Scanned (JObj ms) rest \<Rightarrow> if skip_ws rest = [] then Some ms else None | _ \<Rightarrow> None)"

definition str_member :: "(string \<times> json) list \<Rightarrow> string \<Rightarrow> string option" where
  "str_member ms k = (case map_of ms k of Some (JStr s) \<Rightarrow> Some s | _ \<Rightarrow> None)"

definition int_member :: "(string \<times> json) list \<Rightarrow> string \<Rightarrow> int option" where
  "int_member ms k =
     (case map_of ms k of Some (JNum lit) \<Rightarrow> (case atoi lit of (n, ok) \<Rightarrow> if ok then Some n else None) | _ \<Rightarrow> None)"

text \<open>Every member is one of the given names with the given type, and none is there twice. Names in
  lower case differ even to a decoder that ignores case.\<close>

definition typed_members :: "string list \<Rightarrow> string list \<Rightarrow> string list \<Rightarrow> (string \<times> json) list \<Rightarrow> bool" where
  "typed_members strs nums arrs ms \<longleftrightarrow>
     distinct (map fst ms) \<and>
     list_all (\<lambda>(k, v). case v of
         JStr _ \<Rightarrow> k \<in> set strs
       | JNum lit \<Rightarrow> k \<in> set nums \<and> snd (atoi lit)
       | JArr vs \<Rightarrow> k \<in> set arrs \<and> list_all (\<lambda>u. case u of JStr _ \<Rightarrow> True | _ \<Rightarrow> False) vs
       | _ \<Rightarrow> False) ms"

text \<open>The address of the keys, of an issuer whose document names it as its own issuer and says that
  it signs with RS256.\<close>

definition discovered :: "(string \<Rightarrow> bytes option) \<Rightarrow> string \<Rightarrow> string option" where
  "discovered fetch iss =
     do { doc \<leftarrow> fetch (iss @ ''/.well-known/openid-configuration'');
          ms \<leftarrow> json_members doc;
          if typed_members [''issuer'', ''jwks_uri'', ''authorization_endpoint'', ''token_endpoint''] []
               [''id_token_signing_alg_values_supported''] ms
             \<and> str_member ms ''issuer'' = Some iss
             \<and> map_of ms ''id_token_signing_alg_values_supported'' = Some (JArr [JStr ''RS256''])
          then str_member ms ''jwks_uri'' else None }"

text \<open>The identifier, the modulus and the exponent of an RSA signing key.\<close>

definition jwk :: "json \<Rightarrow> (string \<times> nat \<times> nat) option" where
  "jwk v =
     (case v of
        JObj ms \<Rightarrow>
          if typed_members [''kty'', ''use'', ''alg'', ''kid'', ''n'', ''e''] [] [] ms
             \<and> str_member ms ''kty'' = Some ''RSA'' \<and> str_member ms ''use'' = Some ''sig''
             \<and> str_member ms ''alg'' = Some ''RS256''
          then do { kid \<leftarrow> str_member ms ''kid'';
                    n \<leftarrow> str_member ms ''n'' \<bind> b64_raw_decode;
                    e \<leftarrow> str_member ms ''e'' \<bind> b64_raw_decode;
                    if 0 < bytes_int n \<and> 0 < bytes_int e \<and> bytes_int e < 2 ^ 31
                    then Some (kid, bytes_int n, bytes_int e) else None }
          else None
      | _ \<Rightarrow> None)"

definition published_keys :: "(string \<Rightarrow> bytes option) \<Rightarrow> string \<Rightarrow> (string \<times> nat \<times> nat) list option" where
  "published_keys fetch uri =
     (case fetch uri \<bind> json_members of Some [(k, JArr vs)] \<Rightarrow> if k = ''keys'' then those (map jwk vs) else None
      | _ \<Rightarrow> None)"

text \<open>The claims of a compact RS256 token, and whether its signature verifies under a key that the
  issuer publishes for the token's key identifier. Nothing is said of tokens and issuers of other
  kinds, which is the \<open>None\<close>.\<close>

definition checked_claims ::
  "(string \<Rightarrow> bytes option) \<Rightarrow> (nat \<times> nat \<Rightarrow> bytes \<Rightarrow> bytes \<Rightarrow> bool) \<Rightarrow> (bytes \<Rightarrow> bytes) \<Rightarrow> string \<Rightarrow> string
     \<Rightarrow> ((string \<times> json) list \<times> bool) option" where
  "checked_claims fetch verify sha256 iss raw =
     (case split_on (CHR ''.'') raw of
        [h, p, s] \<Rightarrow>
          do { keys \<leftarrow> discovered fetch iss \<bind> published_keys fetch;
               hdr \<leftarrow> b64_raw_decode h \<bind> json_members;
               payload \<leftarrow> b64_raw_decode p \<bind> json_members;
               sig \<leftarrow> b64_raw_decode s;
               kid \<leftarrow> str_member hdr ''kid'';
               if typed_members [''alg'', ''typ'', ''kid''] [] [] hdr \<and> str_member hdr ''alg'' = Some ''RS256''
                  \<and> typed_members [''iss'', ''sub'', ''azp'', ''client_id''] [''iat'', ''exp''] [] payload
               then Some (payload, list_ex (\<lambda>(k, key). k = kid \<and> verify key (sha256 (h @ ''.'' @ p)) sig) keys)
               else None }
      | _ \<Rightarrow> None)"

definition str_claim :: "(string \<times> json) list \<Rightarrow> string \<Rightarrow> string" where
  "str_claim ms k = (case str_member ms k of Some s \<Rightarrow> s | None \<Rightarrow> '''')"

text \<open>
  The documented behaviour of github.com/coreos/go-oidc that the gate relies on, in a network
  \<open>fetch\<close> whose answers stay the same: a provider can be built for an issuer that publishes its
  document; a verifier refuses a token with a bad signature, of another issuer or past its
  expiry, and otherwise returns it, with the claims its payload has.
\<close>

definition oidc_conforms ::
  "(string \<Rightarrow> bytes option) \<Rightarrow> (nat \<times> nat \<Rightarrow> bytes \<Rightarrow> bytes \<Rightarrow> bool) \<Rightarrow> (bytes \<Rightarrow> bytes) \<Rightarrow> ('w \<Rightarrow> int)
     \<Rightarrow> ('v, 't, 'w) oidc \<Rightarrow> bool" where
  "oidc_conforms fetch verify sha256 clock oi \<longleftrightarrow>
     (\<forall>iss w. discovered fetch iss \<noteq> None \<longrightarrow> \<not> isl (fst (oi_NewProvider oi iss w))) \<and>
     (\<forall>iss w0 ver w1 w raw. oi_NewProvider oi iss w0 = (Inr ver, w1) \<longrightarrow>
        (case checked_claims fetch verify sha256 iss raw of
           None \<Rightarrow> True
         | Some (ms, signed) \<Rightarrow>
           (case (str_member ms ''iss'', int_member ms ''exp'') of
              (Some who, Some expiry) \<Rightarrow>
                (\<not> signed \<or> who \<noteq> iss \<or> expiry < clock w \<longrightarrow> isl (fst (oi_Verify oi ver raw w))) \<and>
                (signed \<and> who = iss \<and> clock w < expiry \<longrightarrow>
                   (\<exists>tok w'. oi_Verify oi ver raw w = (Inr tok, w') \<and>
                      oi_Claims oi tok = Some (str_claim ms ''azp'', str_claim ms ''client_id'')))
            | _ \<Rightarrow> True)))"


section \<open>Lemmas\<close>

lemma std_url_digit: "c \<noteq> CHR ''-'' \<Longrightarrow> c \<noteq> CHR ''_'' \<Longrightarrow> std_digit (url_digit c) = c"
  by (simp add: std_digit_def url_digit_def)

text \<open>The digits of an encoding, and its padding.\<close>

abbreviation digit64 :: "char \<Rightarrow> bool" where
  "digit64 c \<equiv> b64_val c \<noteq> None"

lemma digit64_cases: "digit64 c \<Longrightarrow> c \<noteq> CHR ''-'' \<and> c \<noteq> CHR ''_'' \<and> c \<noteq> CHR ''='' \<and> c \<noteq> CHR ''.''"
  by (auto simp: b64_val_def)

lemma digit64_digit: "n < 64 \<Longrightarrow> digit64 (b64_digit n)"
  by (simp add: b64_val_digit)

abbreviation padded :: "string \<Rightarrow> string" where
  "padded ds \<equiv> ds @ replicate ((4 - length ds mod 4) mod 4) (CHR ''='')"

lemma padded_short: "padded [a, b] = [a, b, CHR ''='', CHR ''='']" "padded [a, b, c] = [a, b, c, CHR ''='']"
  by (simp_all add: numeral_2_eq_2)

lemma padded_Cons4: "padded (a # b # c # d # ds) = a # b # c # d # padded ds"
  by simp

lemma b64_encode_padded: "\<exists>ds. b64_encode s = padded ds \<and> list_all digit64 ds"
proof (induction s rule: b64_encode.induct)
  case 1
  show ?case by (rule exI [of _ "[]"]) simp
next
  case (2 a)
  note small = b64_small [OF of_char_256 [of a] zero_less_numeral zero_less_numeral]
  show ?case
    using small(1,2) [THEN digit64_digit]
    by (intro exI [of _ "[b64_digit (of_char a div 4), b64_digit (of_char a mod 4 * 16)]"])
       (simp only: b64_encode.simps Let_def padded_short list.pred_inject simp_thms)
next
  case (3 a b)
  note small = b64_small [OF of_char_256 [of a] of_char_256 [of b] zero_less_numeral]
  show ?case
    using small(1,3,4) [THEN digit64_digit]
    by (intro exI [of _ "[b64_digit (of_char a div 4), b64_digit (of_char a mod 4 * 16 + of_char b div 16),
          b64_digit (of_char b mod 16 * 4)]"])
       (simp only: b64_encode.simps Let_def padded_short list.pred_inject simp_thms)
next
  case (4 a b c s)
  note small = b64_small [OF of_char_256 [of a] of_char_256 [of b] of_char_256 [of c]]
  from 4 obtain ds where "b64_encode s = padded ds" "list_all digit64 ds" by blast
  with small(1,3,5,6) [THEN digit64_digit]
  show ?case
    by (intro exI [of _ "b64_digit (of_char a div 4) # b64_digit (of_char a mod 4 * 16 + of_char b div 16)
      # b64_digit (of_char b mod 16 * 4 + of_char c div 64) # b64_digit (of_char c mod 64) # ds"])
       (simp only: b64_encode.simps Let_def padded_Cons4 list.pred_inject simp_thms)
qed

lemma b64_digits:
  obtains ds where "b64_encode s = padded ds" "list_all digit64 ds" "b64 s = map url_digit ds"
proof -
  obtain ds where ds: "b64_encode s = padded ds" "list_all digit64 ds" using b64_encode_padded by blast
  have "filter (\<lambda>c. c \<noteq> CHR ''='') ds = ds"
    using ds(2) digit64_cases by (simp add: filter_id_conv list_all_iff)
  then have "b64 s = map url_digit ds" by (simp add: b64_def ds(1))
  with ds show ?thesis by (rule that)
qed

lemma b64_raw_decode_b64 [simp]: "b64_raw_decode (b64 s) = Some s"
proof (rule b64_digits [of s])
  fix ds
  assume ds: "b64_encode s = padded ds" "list_all digit64 ds" and b: "b64 s = map url_digit ds"
  have std: "std_digit (url_digit c) = c" if "c \<in> set ds" for c
    using that ds(2) digit64_cases std_url_digit by (simp add: list_all_iff)
  then have "map std_digit (b64 s) = ds" by (simp add: b map_idI)
  moreover have "digit64 (std_digit (url_digit c)) \<and> url_digit c \<noteq> CHR ''+'' \<and> url_digit c \<noteq> CHR ''/''"
    if "c \<in> set ds" for c
    using that ds(2) std [OF that] by (simp only: list_all_iff) (simp add: url_digit_def)
  then have "list_all (\<lambda>c. digit64 (std_digit c) \<and> c \<noteq> CHR ''+'' \<and> c \<noteq> CHR ''/'') (b64 s)"
    by (simp add: b list_all_iff)
  ultimately show ?thesis
    using b64_decode_encode [of s] by (simp add: b64_raw_decode_def ds(1)) (simp add: b)
qed

lemma b64_no_dot: "CHR ''.'' \<notin> set (b64 s)"
proof (rule b64_digits [of s])
  fix ds
  assume "list_all digit64 ds" "b64 s = map url_digit ds"
  moreover have "url_digit c \<noteq> CHR ''.''" if "digit64 c" for c
    using digit64_cases [OF that] by (simp add: url_digit_def)
  ultimately show ?thesis by (fastforce simp only: list_all_iff set_map)
qed

lemma split_on_append: "c \<notin> set s \<Longrightarrow> split_on c (s @ c # t) = s # split_on c t"
  by (induction s) auto

lemma split_token: "split_on (CHR ''.'') ((b64 h @ ''.'' @ b64 p) @ ''.'' @ b64 s) = [b64 h, b64 p, b64 s]"
  by (simp add: split_on_append split_on_absent b64_no_dot)

lemma bytes_int_bytes [simp]: "bytes_int (int_bytes n) = n"
proof (induction n rule: int_bytes.induct)
  case (1 n)
  then show ?case by (cases "n = 0") (simp_all add: int_bytes.simps [of n] int_bytes.simps [of 0] bytes_int_def)
qed


subsection \<open>Documents\<close>

lemma sort_key_fst [simp]:
  "distinct (map fst (sort_key fst kvs)) \<longleftrightarrow> distinct (map fst kvs)"
  by (simp add: distinct_map)

lemma map_of_sort_key: "distinct (map fst kvs) \<Longrightarrow> map_of (sort_key fst kvs) = map_of kvs"
  by (rule map_of_inject_set [THEN iffD2]) simp_all

lemma typed_members_sort [simp]: "typed_members strs nums arrs (sort_key fst ms) = typed_members strs nums arrs ms"
  by (simp add: typed_members_def list_all_iff)

lemma newline: "\<not> is_digit (byte_of 10)" "byte_of 10 \<notin> set ''.eE''"
  by code_simp+

text \<open>A value that reads back as it was written, nested at most \<open>d\<close> deep.\<close>

definition plain :: "nat \<Rightarrow> json \<Rightarrow> bool" where
  "plain d v \<longleftrightarrow> numbers_ok v \<and> cleaned v = v \<and> json_depth v \<le> d"

lemma plain_JStr [simp]: "plain d (JStr s) \<longleftrightarrow> utf8 s = s"
  by (simp add: plain_def)

lemma plain_JArr [simp]: "list_all (plain d) vs \<Longrightarrow> plain (Suc d) (JArr vs)"
  by (auto simp: plain_def list_all_iff map_idI intro!: fold_max_le)

lemma plain_JObj: "list_all (\<lambda>(k, v). utf8 k = k \<and> plain d v) ms \<Longrightarrow> plain (Suc d) (JObj ms)"
  by (force simp: plain_def list_all_iff intro!: fold_max_le map_idI)

lemma plain_json_map: "list_all (\<lambda>(k, v). utf8 k = k \<and> plain d v) ms \<Longrightarrow> plain (Suc d) (json_map ms)"
  unfolding json_map_def by (rule plain_JObj) (simp add: list_all_iff)

lemma json_members_marshal:
  assumes "plain 10 (JObj ms)" "t = [] \<or> t = [byte_of 10]"
  shows "json_members (marshal (JObj ms) @ t) = Some ms"
proof -
  have "past_number t" "skip_ws t = []"
    using assms(2) newline by (auto simp: past_number_def skip_ws_def is_ws_def)
  moreover have "int (json_depth (JObj ms)) \<le> maxNestingDepth" "numbers_ok (JObj ms)" "cleaned (JObj ms) = JObj ms"
    using assms(1) by (simp_all add: plain_def maxNestingDepth_def del: json_depth.simps cleaned.simps numbers_ok.simps)
  ultimately show ?thesis
    using scan_marshal_append [of "JObj ms" t] by (simp only: json_members_def) simp
qed

lemma json_members_map:
  assumes "list_all (\<lambda>(k, v). utf8 k = k \<and> plain 9 v) ms"
  shows "json_members (marshal (json_map ms)) = Some (sort_key fst ms)"
    and "json_members (marshal (json_map ms) @ [byte_of 10]) = Some (sort_key fst ms)"
proof -
  have "plain 10 (json_map ms)" using plain_json_map [OF assms] by simp
  then show "json_members (marshal (json_map ms)) = Some (sort_key fst ms)"
    "json_members (marshal (json_map ms) @ [byte_of 10]) = Some (sort_key fst ms)"
    using json_members_marshal [of _ "[]"] json_members_marshal by (simp_all add: json_map_def)
qed

lemma str_member_sort: "distinct (map fst ms) \<Longrightarrow> str_member (sort_key fst ms) k = str_member ms k"
  by (simp add: str_member_def map_of_sort_key)

lemma ascii_b64: "ascii (b64 s)"
proof (rule b64_digits [of s])
  fix ds
  assume "list_all digit64 ds" "b64 s = map url_digit ds"
  moreover have "(of_char (url_digit c) :: nat) < 128" if "digit64 c" for c
    using that by (auto simp: b64_val_def url_digit_def Let_def split: if_splits)
  ultimately show ?thesis by (simp add: list_all_iff)
qed

text \<open>The answers of a running issuer at its own address.\<close>

definition serves :: "(string \<Rightarrow> bytes option) \<Rightarrow> ('k, 'w) rsa \<Rightarrow> 'k Issuer \<Rightarrow> bool" where
  "serves fetch rsa i \<longleftrightarrow> (\<forall>path. fetch (is_URL i @ path) = map_option snd (issuer_serve rsa i path))"

lemma discovered_issuer:
  assumes "serves fetch rsa i" "ascii (is_URL i)"
  shows "discovered fetch (is_URL i) = Some (is_URL i @ ''/jwks'')"
proof -
  let ?ms = "[(''issuer'', JStr (is_URL i)), (''jwks_uri'', JStr (is_URL i @ ''/jwks'')),
      (''authorization_endpoint'', JStr (is_URL i @ ''/auth'')), (''token_endpoint'', JStr (is_URL i @ ''/token'')),
      (''id_token_signing_alg_values_supported'', JArr [JStr ''RS256''])]"
  have "list_all (\<lambda>(k, v). utf8 k = k \<and> plain 9 v) ?ms"
    using assms(2) by (simp add: valid_ascii plain_def)
  note ms = json_members_map(2) [OF this]
  have "fetch (is_URL i @ ''/.well-known/openid-configuration'') = Some (marshal (json_map ?ms) @ [byte_of 10])"
    using assms(1) by (simp add: serves_def issuer_serve_def issuer_writeJSON_def discovery_json_def)
  moreover have d: "distinct (map fst ?ms)" by simp
  moreover have "typed_members [''issuer'', ''jwks_uri'', ''authorization_endpoint'', ''token_endpoint''] []
      [''id_token_signing_alg_values_supported''] ?ms" by (simp add: typed_members_def)
  ultimately show ?thesis
    using ms by (simp only: discovered_def bind.bind_lunit typed_members_sort str_member_sort [OF d] map_of_sort_key [OF d])
      (simp add: str_member_def)
qed

lemma jwk_issuer:
  assumes "0 < n" "0 < e" "e < 2 ^ 31"
  shows "jwk (json_map [(''kty'', JStr ''RSA''), (''use'', JStr ''sig''), (''alg'', JStr ''RS256''), (''kid'', JStr kid),
         (''n'', JStr (b64 (int_bytes n))), (''e'', JStr (b64 (int_bytes e)))]) = Some (kid, n, e)"
proof -
  let ?ms = "[(''kty'', JStr ''RSA''), (''use'', JStr ''sig''), (''alg'', JStr ''RS256''), (''kid'', JStr kid),
         (''n'', JStr (b64 (int_bytes n))), (''e'', JStr (b64 (int_bytes e)))]"
  have "distinct (map fst ?ms)" "typed_members [''kty'', ''use'', ''alg'', ''kid'', ''n'', ''e''] [] [] ?ms"
    by (simp_all add: typed_members_def)
  then show ?thesis
    using assms by (simp only: jwk_def json_map_def json.case typed_members_sort str_member_sort) (simp add: str_member_def)
qed

lemma published_issuer:
  assumes "serves fetch rsa i" "0 < rs_N rsa (is_key i)" "0 < rs_E rsa (is_key i)" "rs_E rsa (is_key i) < 2 ^ 31"
  shows "published_keys fetch (is_URL i @ ''/jwks'') = Some [(keyID, rs_N rsa (is_key i), rs_E rsa (is_key i))]"
proof -
  let ?k = "json_map [(''kty'', JStr ''RSA''), (''use'', JStr ''sig''), (''alg'', JStr ''RS256''), (''kid'', JStr keyID),
         (''n'', JStr (b64 (int_bytes (rs_N rsa (is_key i))))), (''e'', JStr (b64 (int_bytes (rs_E rsa (is_key i)))))]"
  have "plain (Suc 0) ?k"
    by (rule plain_json_map) (simp add: valid_ascii ascii_b64 keyID_def)
  then have "list_all (\<lambda>(k, v). utf8 k = k \<and> plain 9 v) [(''keys'', JArr [?k])]"
    by (simp add: valid_ascii plain_def)
  note ms = json_members_map(2) [OF this]
  have "fetch (is_URL i @ ''/jwks'') = Some (marshal (json_map [(''keys'', JArr [?k])]) @ [byte_of 10])"
    using assms(1) by (simp add: serves_def issuer_serve_def issuer_writeJSON_def jwks_json_def)
  then show ?thesis using ms jwk_issuer [OF assms(2-4)] by (simp add: published_keys_def)
qed

subsection \<open>Tokens\<close>

text \<open>Claims of the kinds the library and the gate read.\<close>

definition plain_claims :: "claims \<Rightarrow> bool" where
  "plain_claims kvs \<longleftrightarrow>
     distinct (map fst kvs) \<and>
     list_all (\<lambda>(k, v). case v of
         Inr (JStr s) \<Rightarrow> k \<in> set [''iss'', ''sub'', ''azp'', ''client_id''] \<and> valid_utf8 s
       | Inr (JNum lit) \<Rightarrow> k \<in> set [''iat'', ''exp''] \<and> number lit \<and> snd (atoi lit)
       | _ \<Rightarrow> False) kvs"

text \<open>The members that the claims are written as.\<close>

definition claim_members :: "claims \<Rightarrow> (string \<times> json) list" where
  "claim_members kvs = map (\<lambda>(k, v). (k, projr v)) kvs"

lemma set_update: "set (AList.update k v m) \<subseteq> insert (k, v) (set m)"
  by (induction m) auto

lemma plain_claims_update:
  "plain_claims [(k, v)] \<Longrightarrow> plain_claims m \<Longrightarrow> plain_claims (AList.update k v m)"
  using set_update [of k v m] by (auto simp: plain_claims_def list_all_iff dest!: subsetD)

lemma plain_claims_fold:
  "plain_claims claims \<Longrightarrow> plain_claims m \<Longrightarrow> plain_claims (fold (\<lambda>(k, v). AList.update k v) claims m)"
proof (induction claims arbitrary: m)
  case (Cons c claims)
  obtain k v where c: "c = (k, v)" by force
  have "plain_claims [(k, v)]" "plain_claims claims" using Cons.prems(1) by (simp_all add: c plain_claims_def)
  with Cons show ?case by (simp add: c plain_claims_update)
qed simp

lemma plain_token_body:
  assumes "plain_claims claims" "ascii (is_URL i)" "in64 t1" "in64 (t2 + 3600)"
  shows "plain_claims (token_body i t1 t2 claims)"
  unfolding token_body_def
proof (rule plain_claims_fold [OF assms(1)])
  have "valid_utf8 ''service-account''" by code_simp
  then show "plain_claims [(''iss'', Inr (JStr (is_URL i))), (''sub'', Inr (JStr ''service-account'')),
        (''iat'', Inr (JInt t1)), (''exp'', Inr (JInt (t2 + 3600)))]"
    using assms by (simp add: plain_claims_def JInt_def number_itoa atoi_itoa valid_utf8_ascii)
qed

lemma marshal_any_plain:
  "list_all (\<lambda>(k, v). \<not> isl v) kvs \<Longrightarrow> marshal_any kvs = Inr (claim_members kvs)"
  by (induction kvs rule: marshal_any.induct) (auto simp: claim_members_def split: sum.splits)

lemma plain_claims_sort [simp]: "plain_claims (sort_key fst kvs) = plain_claims kvs"
  by (simp add: plain_claims_def list_all_iff)

lemma fst_claim_members [simp]: "map fst (claim_members kvs) = map fst kvs"
  by (simp add: claim_members_def split_def comp_def)

lemma plain_claims_members:
  assumes "plain_claims kvs"
  shows "list_all (\<lambda>(k, v). \<not> isl v) kvs" "plain 10 (JObj (claim_members kvs))"
    "typed_members [''iss'', ''sub'', ''azp'', ''client_id''] [''iat'', ''exp''] [] (claim_members kvs)"
    "distinct (map fst (claim_members kvs))"
proof -
  have kinds: "(\<exists>s. v = Inr (JStr s) \<and> k \<in> set [''iss'', ''sub'', ''azp'', ''client_id''] \<and> valid_utf8 s)
      \<or> (\<exists>lit. v = Inr (JNum lit) \<and> k \<in> set [''iat'', ''exp''] \<and> number lit \<and> snd (atoi lit))" if "(k, v) \<in> set kvs" for k v
    using assms that by (auto simp: plain_claims_def list_all_iff split: sum.splits json.splits)
  show "list_all (\<lambda>(k, v). \<not> isl v) kvs" using kinds by (fastforce simp: list_all_iff)
  have "plain 9 (projr v) \<and> utf8 k = k" if "(k, v) \<in> set kvs" for k v
    using kinds [OF that] by (auto simp: plain_def valid_runes valid_ascii)
  then have "plain (Suc 9) (JObj (claim_members kvs))"
    by (intro plain_JObj) (auto simp: list_all_iff claim_members_def)
  then show "plain 10 (JObj (claim_members kvs))" by simp
  have d: "distinct (map fst kvs)" using assms by (simp add: plain_claims_def)
  then show "distinct (map fst (claim_members kvs))" by simp
  show "typed_members [''iss'', ''sub'', ''azp'', ''client_id''] [''iat'', ''exp''] [] (claim_members kvs)"
    using d by (auto simp: typed_members_def list_all_iff claim_members_def split_def comp_def dest!: kinds)
qed

lemma map_of_claim_members_sort:
  assumes "plain_claims kvs"
  shows "map_of (claim_members (sort_key fst kvs)) = map_of (claim_members kvs)"
proof (rule map_of_inject_set [THEN iffD2])
  show "distinct (map fst (claim_members (sort_key fst kvs)))" "distinct (map fst (claim_members kvs))"
    using plain_claims_members(4) [of kvs] plain_claims_members(4) [of "sort_key fst kvs"] assms by simp_all
qed (simp add: claim_members_def)

lemma header_members: "json_members (marshal token_header) = Some (sort_key fst [(''alg'', JStr ''RS256''), (''typ'', JStr ''JWT''), (''kid'', JStr keyID)])"
  unfolding token_header_def by (rule json_members_map) (simp add: valid_ascii keyID_def)

text \<open>What the library reads of a token: its claims, and whether the signature is good under the
  key of the issuer it is shown to.\<close>

lemma checked_Token:
  assumes srv: "serves fetch rsa i" "ascii (is_URL i)"
    and key: "0 < rs_N rsa (is_key i)" "0 < rs_E rsa (is_key i)" "rs_E rsa (is_key i) < 2 ^ 31"
    and tok: "Token up rsa sha256 t1 t2 j claims = Inr raw" "plain_claims (token_body j t1 t2 claims)"
  obtains ms sig input where
    "checked_claims fetch verify sha256 (is_URL i) raw
       = Some (ms, verify (rs_N rsa (is_key i), rs_E rsa (is_key i)) (sha256 input) sig)"
    "rs_SignPKCS1v15 rsa (is_key j) (sha256 input) = Inr sig"
    "map_of ms = map_of (claim_members (token_body j t1 t2 claims))"
proof -
  let ?body = "sort_key fst (token_body j t1 t2 claims)"
  let ?ms = "claim_members ?body"
  let ?h = "b64 (marshal token_header)" and ?p = "b64 (marshal (JObj ?ms))"
  let ?hdr = "[(''alg'', JStr ''RS256''), (''typ'', JStr ''JWT''), (''kid'', JStr keyID)]"
  let ?input = "?h @ ''.'' @ ?p"
  have pl: "plain_claims ?body" using tok(2) by simp
  note members = plain_claims_members [OF pl]
  from tok(1) obtain sig where sig: "rs_SignPKCS1v15 rsa (is_key j) (sha256 ?input) = Inr sig"
    and raw: "raw = ?input @ ''.'' @ b64 sig"
    by (auto simp: Token_def marshal_any_plain [OF members(1)] Let_def split: sum.splits)
  have parts: "split_on (CHR ''.'') raw = [?h, ?p, b64 sig]" unfolding raw by (rule split_token)
  have payload: "json_members (marshal (JObj ?ms)) = Some ?ms"
    using json_members_marshal [OF members(2), of "[]"] by simp
  have hdr: "distinct (map fst ?hdr)" "typed_members [''alg'', ''typ'', ''kid''] [] [] ?hdr"
    by (simp_all add: typed_members_def)
  have "checked_claims fetch verify sha256 (is_URL i) raw
      = Some (?ms, verify (rs_N rsa (is_key i), rs_E rsa (is_key i)) (sha256 ?input) sig)"
    using hdr(2) members(3) discovered_issuer [OF srv] published_issuer [OF srv(1) key]
    by (simp only: checked_claims_def parts list.case b64_raw_decode_b64 bind.bind_lunit header_members payload
        typed_members_sort str_member_sort [OF hdr(1)]) (simp add: str_member_def)
  then show ?thesis using sig map_of_claim_members_sort [OF tok(2)] by (rule that)
qed


section \<open>Properties\<close>

text \<open>The gate on a bearer token, once the library has answered.\<close>

lemma Middleware_Refuse:
  assumes "Enabled v" "ensure oi v w = (Inr ver, v1, w1)" "isl (fst (oi_Verify oi ver raw w1))"
  shows "\<exists>msg. fst (Middleware up oi v (''Bearer '' @ raw) w) = Refuse 401 (''invalid token: '' @ msg)"
proof -
  obtain e w2 where "oi_Verify oi ver raw w1 = (Inl e, w2)"
    using assms(3) by (cases "oi_Verify oi ver raw w1") (auto simp: isl_def)
  then show ?thesis using assms(1,2) by (auto simp: Middleware_def trim_prefix_def has_prefix_def)
qed

lemma Middleware_verified:
  assumes "Enabled v" "ensure oi v w = (Inr ver, v1, w1)" "v_allowed v1 = v_allowed v" "v_issuer v1 = v_issuer v"
    "oi_Verify oi ver raw w1 = (Inr tok, w2)" "oi_Claims oi tok = Some (azp, cid)"
  shows "fst (Middleware up oi v (''Bearer '' @ raw) w) =
    (if v_allowed v = [] \<or> azp \<noteq> '''' \<and> azp \<in> set (v_allowed v) \<or> cid \<noteq> '''' \<and> cid \<in> set (v_allowed v) then Next
     else Refuse 403 ''this client is not allowed to call the gateway'')"
  using assms by (auto simp: Middleware_def trim_prefix_def has_prefix_def Restricted_def Enabled_def allows_def)

text \<open>A gate for a running issuer has a provider.\<close>

lemma ensure_issuer:
  assumes "oidc_conforms fetch verify sha256 clock oi" "serves fetch rsa i" "ascii (is_URL i)"
    and gate: "v_issuer v = is_URL i" "issued_by oi v" "ensure oi v w = (r, v1, w1)"
  obtains ver w0 w2 where "r = Inr ver" "v_allowed v1 = v_allowed v" "v_issuer v1 = v_issuer v"
    "oi_NewProvider oi (is_URL i) w0 = (Inr ver, w2)"
proof -
  have "\<not> isl (fst (oi_NewProvider oi (v_issuer v) w))"
    using assms(1) discovered_issuer [OF assms(2,3)] gate(1) by (simp add: oidc_conforms_def)
  then obtain ver where r: "r = Inr ver"
    using gate(3) by (auto simp: ensure_def split: option.splits prod.splits sum.splits)
  from ensure_Inr [OF gate(3) [unfolded r] gate(2)] show ?thesis
    using that r gate(1) by metis
qed

text \<open>C23: Tokens and the gate fit. With an OIDC library that does what it documents, a gateway
  configured for a running issuer never answers its tokens with an unavailable provider: a token
  the issuer signed for itself, not yet expired, passes exactly when no clients are listed or its
  azp or client_id claim is a listed client, and is otherwise refused with 403; a token that has
  expired, that names another issuer, or that another key signed is refused with 401.\<close>

theorem Token_gate:
  assumes oidc: "oidc_conforms fetch verify sha256 clock oi" "serves fetch rsa i" "ascii (is_URL i)"
    and key: "0 < rs_N rsa (is_key i)" "0 < rs_E rsa (is_key i)" "rs_E rsa (is_key i) < 2 ^ 31"
      "\<forall>d s. rs_SignPKCS1v15 rsa (is_key i) d = Inr s \<longrightarrow> verify (rs_N rsa (is_key i), rs_E rsa (is_key i)) d s"
    and tok: "Token up rsa sha256 t1 t2 j claims = Inr raw" "plain_claims (token_body j t1 t2 claims)"
      "str_member (claim_members (token_body j t1 t2 claims)) ''iss'' = Some who"
      "int_member (claim_members (token_body j t1 t2 claims)) ''exp'' = Some expiry"
    and gate: "Enabled v" "v_issuer v = is_URL i" "issued_by oi v" "ensure oi v w = (r, v1, w1)"
  shows "(is_key j = is_key i \<and> who = is_URL i \<and> clock w1 < expiry \<longrightarrow>
            fst (Middleware up oi v (''Bearer '' @ raw) w) =
              (if v_allowed v = []
                  \<or> (\<exists>k \<in> {''azp'', ''client_id''}. let c = str_claim (claim_members (token_body j t1 t2 claims)) k in
                       c \<noteq> '''' \<and> c \<in> set (v_allowed v))
               then Next else Refuse 403 ''this client is not allowed to call the gateway'')) \<and>
         (who \<noteq> is_URL i \<or> expiry < clock w1
            \<or> (\<forall>d s. rs_SignPKCS1v15 rsa (is_key j) d = Inr s
                  \<longrightarrow> \<not> verify (rs_N rsa (is_key i), rs_E rsa (is_key i)) d s) \<longrightarrow>
            (\<exists>msg. fst (Middleware up oi v (''Bearer '' @ raw) w) = Refuse 401 (''invalid token: '' @ msg)))"
proof -
  let ?body = "claim_members (token_body j t1 t2 claims)"
  obtain ms sig input where checked: "checked_claims fetch verify sha256 (is_URL i) raw
       = Some (ms, verify (rs_N rsa (is_key i), rs_E rsa (is_key i)) (sha256 input) sig)"
    and sig: "rs_SignPKCS1v15 rsa (is_key j) (sha256 input) = Inr sig" and ms: "map_of ms = map_of ?body"
    by (rule checked_Token [OF oidc(2,3) key(1-3) tok(1,2)])
  let ?ok = "verify (rs_N rsa (is_key i), rs_E rsa (is_key i)) (sha256 input) sig"
  have same: "str_member ms = str_member ?body" "int_member ms = int_member ?body" "str_claim ms = str_claim ?body"
    by (simp_all add: fun_eq_iff str_member_def int_member_def str_claim_def ms)
  obtain ver w0 w2 where r: "r = Inr ver" "v_allowed v1 = v_allowed v" "v_issuer v1 = v_issuer v"
    and prov: "oi_NewProvider oi (is_URL i) w0 = (Inr ver, w2)"
    by (rule ensure_issuer [OF oidc gate(2-4)])
  note ens = gate(4) [unfolded r(1)]
  have answer: "(\<not> ?ok \<or> who \<noteq> is_URL i \<or> expiry < clock w1 \<longrightarrow> isl (fst (oi_Verify oi ver raw w1))) \<and>
      (?ok \<and> who = is_URL i \<and> clock w1 < expiry \<longrightarrow> (\<exists>tok w'. oi_Verify oi ver raw w1 = (Inr tok, w') \<and>
         oi_Claims oi tok = Some (str_claim ?body ''azp'', str_claim ?body ''client_id'')))"
    using oidc(1) [unfolded oidc_conforms_def, THEN conjunct2, THEN spec, THEN spec, THEN spec, THEN spec,
        THEN spec, THEN spec, THEN mp, OF prov, of w1 raw]
    by (simp only: checked option.case prod.case same tok(3,4))
  show ?thesis
  proof (intro conjI impI)
    assume a: "is_key j = is_key i \<and> who = is_URL i \<and> clock w1 < expiry"
    then have ?ok using key(4) sig by simp
    with answer a obtain t w' where t: "oi_Verify oi ver raw w1 = (Inr t, w')"
      "oi_Claims oi t = Some (str_claim ?body ''azp'', str_claim ?body ''client_id'')" by blast
    from Middleware_verified [OF gate(1) ens r(2,3) t]
    show "fst (Middleware up oi v (''Bearer '' @ raw) w) =
              (if v_allowed v = []
                  \<or> (\<exists>k \<in> {''azp'', ''client_id''}. let c = str_claim ?body k in c \<noteq> '''' \<and> c \<in> set (v_allowed v))
               then Next else Refuse 403 ''this client is not allowed to call the gateway'')"
      by (simp add: Let_def)
  next
    assume "who \<noteq> is_URL i \<or> expiry < clock w1 \<or> (\<forall>d s. rs_SignPKCS1v15 rsa (is_key j) d = Inr s
                  \<longrightarrow> \<not> verify (rs_N rsa (is_key i), rs_E rsa (is_key i)) d s)"
    with answer sig have "isl (fst (oi_Verify oi ver raw w1))" by blast
    then show "\<exists>msg. fst (Middleware up oi v (''Bearer '' @ raw) w) = Refuse 401 (''invalid token: '' @ msg)"
      by (rule Middleware_Refuse [OF gate(1) ens])
  qed
qed

text \<open>A library that does what the contract says, and no more.\<close>

definition demo_conforming ::
  "(string \<Rightarrow> bytes option) \<Rightarrow> (nat \<times> nat \<Rightarrow> bytes \<Rightarrow> bytes \<Rightarrow> bool) \<Rightarrow> (bytes \<Rightarrow> bytes) \<Rightarrow> ('w \<Rightarrow> int)
     \<Rightarrow> (string, (string \<times> json) list, 'w) oidc" where
  "demo_conforming fetch verify sha256 clock = \<lparr>
     oi_NewProvider = \<lambda>iss w.
       (if discovered fetch iss \<noteq> None then Inr iss else Inl (ErrText ''no provider''), w),
     oi_Verify = \<lambda>iss raw w.
       (case checked_claims fetch verify sha256 iss raw of
          Some (ms, True) \<Rightarrow>
            (case (str_member ms ''iss'', int_member ms ''exp'') of
               (Some who, Some expiry) \<Rightarrow> if who = iss \<and> clock w < expiry then Inr ms else Inl (ErrText ''refused'')
             | _ \<Rightarrow> Inl (ErrText ''malformed''))
        | _ \<Rightarrow> Inl (ErrText ''malformed''), w),
     oi_Claims = \<lambda>ms. Some (str_claim ms ''azp'', str_claim ms ''client_id'')\<rparr>"

lemma demo_conforms: "oidc_conforms fetch verify sha256 clock (demo_conforming fetch verify sha256 clock)"
  unfolding oidc_conforms_def demo_conforming_def oidc.simps
  by (intro conjI allI impI) (auto split: option.splits bool.splits if_splits)

text \<open>A key is its modulus, and a signature the modulus before the digest.\<close>

definition demo_rsa :: "(nat, unit) rsa" where
  "demo_rsa = \<lparr>rs_GenerateKey = \<lambda>w. (Inr 3233, w), rs_N = id, rs_E = \<lambda>_. 65537,
     rs_SignPKCS1v15 = \<lambda>k d. Inr (int_bytes k @ d)\<rparr>"

definition demo_verify :: "nat \<times> nat \<Rightarrow> bytes \<Rightarrow> bytes \<Rightarrow> bool" where
  "demo_verify key d s \<longleftrightarrow> s = int_bytes (fst key) @ d"

definition demo_issuer :: "nat Issuer" where
  "demo_issuer = \<lparr>is_URL = ''http://idp'', is_key = 3233\<rparr>"

definition demo_network :: "string \<Rightarrow> bytes option" where
  "demo_network url =
     (if has_prefix url ''http://idp'' then map_option snd (issuer_serve demo_rsa demo_issuer (drop 10 url)) else None)"

definition demo_gate :: "string Verifier" where
  "demo_gate = NewVerifier ''http://idp'' [''acquire'']"

lemma demo_gate_simps: "v_issuer demo_gate = ''http://idp''" "v_allowed demo_gate = [''acquire'']" "v_verifier demo_gate = None"
  by code_simp+

lemma demo_serves: "serves demo_network demo_rsa demo_issuer"
  by (simp add: serves_def demo_network_def demo_issuer_def has_prefix_def)

lemma demo_body:
  "claim_members (token_body demo_issuer 0 0 [(''azp'', Inr (JStr ''acquire''))]) =
     [(''iss'', JStr ''http://idp''), (''sub'', JStr ''service-account''), (''iat'', JInt 0), (''exp'', JInt 3600),
      (''azp'', JStr ''acquire'')]"
  by (simp add: claim_members_def token_body_def demo_issuer_def)

theorem Token_gate_witness:
  "\<exists>raw. Token (\<lambda>_. True) demo_rsa id 0 0 demo_issuer [(''azp'', Inr (JStr ''acquire''))] = Inr raw \<and>
     fst (Middleware (\<lambda>_. True) (demo_conforming demo_network demo_verify id (\<lambda>_ :: unit. 10)) demo_gate
            (''Bearer '' @ raw) ()) = Next"
proof -
  let ?claims = "[(''azp'', Inr (JStr ''acquire''))] :: claims"
  let ?body = "token_body demo_issuer 0 0 ?claims"
  let ?oi = "demo_conforming demo_network demo_verify id (\<lambda>_ :: unit. 10)"
  have url: "ascii (is_URL demo_issuer)" by (simp add: demo_issuer_def)
  have "valid_utf8 ''acquire''" by code_simp
  then have plain: "plain_claims ?body"
    by (intro plain_token_body url) (simp_all add: plain_claims_def in64_def min_int64_def max_int64_def)
  obtain raw where raw: "Token (\<lambda>_. True) demo_rsa id 0 0 demo_issuer ?claims = Inr raw"
    using plain_claims_members(1) [of "sort_key fst ?body"] plain
    by (simp add: Token_def marshal_any_plain demo_rsa_def Let_def)
  obtain r v1 w1 where e: "ensure ?oi demo_gate () = (r, v1, w1)" by (rule prod_cases3)
  note gate = Token_gate [OF demo_conforms demo_serves url _ _ _ _ raw plain _ _ _ _ _ e, where expiry = 3600]
  have "fst (Middleware (\<lambda>_. True) ?oi demo_gate (''Bearer '' @ raw) ()) =
      (if v_allowed demo_gate = []
          \<or> (\<exists>k \<in> {''azp'', ''client_id''}. let c = str_claim (claim_members ?body) k in
               c \<noteq> '''' \<and> c \<in> set (v_allowed demo_gate))
       then Next else Refuse 403 ''this client is not allowed to call the gateway'')"
  proof (rule gate [THEN conjunct1, rule_format])
    show "0 < rs_N demo_rsa (is_key demo_issuer)" "0 < rs_E demo_rsa (is_key demo_issuer)"
      "rs_E demo_rsa (is_key demo_issuer) < 2 ^ 31"
      by (simp_all add: demo_rsa_def demo_issuer_def)
    show "demo_verify (rs_N demo_rsa (is_key demo_issuer), rs_E demo_rsa (is_key demo_issuer)) d s"
      if "rs_SignPKCS1v15 demo_rsa (is_key demo_issuer) d = Inr s" for d s
      using that by (simp add: demo_rsa_def demo_verify_def)
    show "str_member (claim_members ?body) ''iss'' = Some ''http://idp''"
      by (simp add: demo_body str_member_def)
    show "int_member (claim_members ?body) ''exp'' = Some 3600"
      by (simp add: demo_body int_member_def JInt_def atoi_itoa in64_def min_int64_def max_int64_def)
    show "Enabled demo_gate" "v_issuer demo_gate = is_URL demo_issuer" "issued_by ?oi demo_gate"
      by (simp_all add: Enabled_def issued_by_def demo_gate_simps demo_issuer_def)
  qed (simp add: demo_issuer_def)
  then have "fst (Middleware (\<lambda>_. True) ?oi demo_gate (''Bearer '' @ raw) ()) = Next"
    by (simp add: demo_body str_claim_def str_member_def demo_gate_simps)
  with raw show ?thesis by blast
qed

end
