(* ===== verification/Spec2Isabelle.thy ===== *)
theory Spec2Isabelle
  imports Runs Rest Ends Secrecy Responses Lifecycle Issuer
begin

text \<open>
  A verification of the download gateway: a Go service that hands download jobs to NZBGet,
  qBittorrent, oDownloader and JDownloader, watches them, and publishes their life cycle on
  Kafka. Its clients come from the environment or are pushed as a set by an owning
  application; the set can change while jobs run.

  \<^bold>\<open>Parts and theories.\<close>
  \<^item> \<open>Prelude\<close>: Go strings as byte lists (\<open>strings\<close>, \<open>unicode/utf8\<close>, \<open>strconv\<close> as the code
    uses them), fixed-width integers, and the lemmas on them.
  \<^item> \<open>Url\<close>, \<open>Json\<close>, \<open>Float64\<close>, \<open>Base64\<close>, \<open>Net\<close>: the parts of the standard library the
    program relies on, as functions: \<open>net/url\<close> parsing and escaping, the JSON scanner,
    encoder and struct decoding, float64 rounding on rationals, base64 with the program's own
    streaming reader, requests and capped answers (internal/adapters/responses.go). The network, the random
    source, SHA-256 and the texts of library errors are fields of the record \<open>ext\<close>.
  \<^item> \<open>Encoding\<close>, \<open>Decimal\<close>: reading back what the encoder wrote, for every JSON value; how a
    \<open>float64\<close> is written (the shortest decimal that is read back) and read back exactly.
  \<^item> \<open>Errors\<close>: errors as values and how they are shown to callers (responses.go).
  \<^item> \<open>Adapters\<close>: jobs, snapshots, the adapter interface as a record of methods (adapters.go).
  \<^item> \<open>Nzbget\<close>, \<open>Qbittorrent\<close>, \<open>Odownloader\<close>: the adapters, every method (nzbget.go,
    qbittorrent.go, odownloader.go, jdownloader.go), on a world the network changes.
  \<^item> \<open>Endpoint\<close>: which addresses and redirects a pushed client refuses (endpoint.go).
  \<^item> \<open>Clients\<close>: the catalog, validation and normal form of a client, its fingerprint, and the
    views without its secret (clients.go).
  \<^item> \<open>Registry\<close>: the registered clients with leases, pushes and reaping (registry.go).
  \<^item> \<open>Events\<close>: the four events, their JSON and their publication (internal/events/events.go).
  \<^item> \<open>Auth\<close>: the bearer gate (internal/auth/oidc.go); the OIDC library is a parameter.
  \<^item> \<open>Issuer\<close>: the issuer of the tests, its documents and its signed tokens
    (internal/auth/authtest/issuer.go), and the contract of the OIDC library as a predicate.
  \<^item> \<open>Tracker\<close>: the job map, polling, the grace window for lost jobs, derived rates, adoption,
    the budget of large adds (cmd/server/main.go).
  \<^item> \<open>Handlers\<close>, \<open>ConfigApi\<close>: the HTTP handlers (main.go, config.go) as functions of the request,
    the gateway and the world.
  \<^item> \<open>Server\<close>: the clients of the environment, the start of the process, the routes and the gate
    in front of them, the poll loop and the shutdown (main.go).
  \<^item> \<open>System\<close>: the same operations as goroutines that interleave at their locks and at their
    calls to clients.
  \<^item> \<open>Rest\<close>: the steps of \<open>System\<close> that finish what is under way, and where they end.
  \<^item> \<open>Lifecycle\<close>: the main, poll and server goroutines around them, from the start to the exit
    code of the process.
  \<^item> \<open>Runs\<close>: the functions of \<open>Handlers\<close> and \<open>Tracker\<close> against the stages of \<open>System\<close>.
  \<^item> \<open>Ends\<close>: how often the end of a job is announced under interleaving.
  \<^item> \<open>Secrecy\<close>: what the configuration API and the logs tell of a client's secret.
  \<^item> \<open>Wire\<close>, \<open>Delivery\<close>: a consumer that decodes the messages of a topic, and what reaches it from
    the running process.
  \<^item> \<open>Responses\<close>: the bytes of every response (main.go, config.go) and what a caller reads of jobs.

  \<^bold>\<open>State.\<close> A mutex-protected structure is a record that operations take and return; a map
  whose order is observable or that is iterated is an association list with distinct keys. The
  world \<open>'w\<close> is left open: every call to a client, to Kafka or to the issuer reads and
  changes it, so a client may answer anything. Every error path of the code is a value of a sum or
  option type.

  \<^bold>\<open>What is shown.\<close>
  \<^item> Registry: a push refines a specification that does not depend on the order of its entries;
    the registry's invariant is kept by every operation; neither a leased client nor one with jobs
    is ever dropped (locale \<open>client_registry\<close>, interpreted on the model); the answer to a
    push; pushing the same set twice.
  \<^item> Jobs: what one poll does to a job and which event it publishes; a job is given up only after
    ten minutes without interruption; adoption never touches a tracked job (locale
    \<open>job_store\<close>); percentages and the byte budget stay in range.
  \<^item> The whole process: in every reachable state each tracked job has its client, each lease and
    each reserved byte belongs to a running goroutine; a poll never loses the client of a tracked
    job; the end of a job is announced at most once for each time the job was taken up;
    when nothing new arrives the goroutines cannot go on for ever, and they stop only when nothing is
    left behind. The sequential operations are the uninterrupted runs of their stages, so what is shown of the
    functions holds of the goroutines when nobody interferes.
  \<^item> Handlers: an add is answered with 202 exactly when the job is with its client and tracked; a
    push without a client list changes nothing; nothing changes without passing the gate, and the
    clients only by an allowed caller.
  \<^item> Process: each exit code has its one cause, readiness ends when the shutdown begins, and the
    invariants above last to the end.
  \<^item> Authentication: what passes the gate; with a library that does what go-oidc documents
    (\<open>oidc_conforms\<close>) and RSA signatures that verify, the documents, keys and tokens of an issuer
    are read back, and the gate decides on each token by its signer, issuer, expiry and client.
  \<^item> Messages and answers: the numbers of every snapshot are within their Go types whatever a client
    sends (locale \<open>decoded_struct\<close>, interpreted on the structs decoded; locale \<open>adapter_law\<close>, which
    carries what holds of every adapter built to every registered client of a reachable state);
    so each event published, and each job listed or described, is read back from its bytes as it
    was, but for bytes that are not UTF-8.
  \<^item> Validation and secrecy: what a prepared client satisfies, its base URL as it is kept included; a
    changed client always has a different fingerprint text; the text of a status error shows nothing
    of the endpoint's answer and that of a failed request nothing of its URL; histories that differ
    only in the secrets pushed (each alike in being empty, too long or with control characters) list
    the same clients and get the same
    answers (locale \<open>observed\<close>, interpreted on the registry), provided SHA-256 does not collide on
    the texts hashed.
  \<^item> Adapters: the streamed add of NZBGet equals the marshalled call; what a snapshot rests on; how
    states are folded; sessions of qBittorrent; ids that reach a client as one value; safe
    file names.

  \<^bold>\<open>Bounds and fuel.\<close> The JSON scanner carries fuel, twice the length of its input plus one, and
  two nested calls consume at least one byte of input, so more of it changes nothing; all other functions are structurally
  recursive or have a termination proof. Integers that overflow in Go are wrapped explicitly
  (\<open>wrap64\<close>, \<open>wrap32\<close>) or are words (addresses). Times are nanoseconds as integers.

  \<^bold>\<open>Not modelled.\<close> The HTTP server and client libraries, the router (a parameter of \<open>serve\<close>),
  Prometheus, the delivery of signals, timeouts and log lines (but for those of the gate's start and
  what an adapter or a spec logs of itself): no operation depends on what they leave out. Contexts:
  a cancelled call is a call that fails. RSA, SHA-256, Kafka's and the OIDC libraries are parameters.
\<close>

end
